(* ===== verification/Prelude.thy ===== *)
theory Prelude
  imports Main "HOL-Library.Word"
begin

text \<open>
  Shared vocabulary of the s3dhcpd development: machine integers and byte buffers as the
  little-endian target lays them out, the exceptions the program raises, the two result
  disciplines every component uses (\<open>res\<close> for pure code that may raise, \<open>proc\<close> for code
  that also changes state), and the generic lemmas on them.

  Exceptions are values. \<open>MemFault\<close> stands for an access outside an object (undefined
  behaviour in the C++ source), \<open>UninitRead\<close> for the use of an indeterminate value and
  \<open>Diverges\<close> for a loop of the source that provably never ends; the other constructors are
  the exception classes that the source declares with \<open>DECLARE_EXCEPTION\<close>.
\<close>

unbundle bit_operations_syntax

named_theorems byte_simps \<open>byte order and byte list lemmas\<close>
named_theorems keeps_intros \<open>invariant preservation of state-passing code\<close>
named_theorems wp_intros \<open>rules of the pre/postcondition calculus for state-passing code\<close>

section \<open>Machine types\<close>

type_synonym u8 = "8 word"
type_synonym u16 = "16 word"
type_synonym u32 = "32 word"
type_synonym u64 = "64 word"
type_synonym bytes = "u8 list"

text \<open>A \<open>char\<close> of the source seen as a byte and back; C strings are HOL strings.\<close>

definition byte_of_char :: "char \<Rightarrow> u8" where
  "byte_of_char c = word_of_nat (of_char c)"

definition char_of_byte :: "u8 \<Rightarrow> char" where
  "char_of_byte b = char_of (unat b)"

abbreviation bytes_of_string :: "string \<Rightarrow> bytes" where
  "bytes_of_string s \<equiv> map byte_of_char s"

lemma unat_byte_of_char [simp]: "unat (byte_of_char c) = of_char c"
proof -
  have "(of_char c :: nat) < 2 ^ 8"
    using nat_of_char_less_256 [of c] by simp
  then show ?thesis
    by (simp add: byte_of_char_def unat_of_nat)
qed

lemma char_of_byte_of_char [simp]: "char_of_byte (byte_of_char c) = c"
  by (simp add: char_of_byte_def)

lemma byte_of_char_of_byte [simp]: "byte_of_char (char_of_byte b) = b"
proof -
  have "unat b < 256" using unsigned_less [of b, where ?'a = nat] by simp
  then have "unat (byte_of_char (char_of_byte b)) = unat b"
    by (simp add: char_of_byte_def)
  then show ?thesis by (simp only: word_unat_eq_iff)
qed

lemma byte_of_char_eq_iff [simp]: "byte_of_char c = byte_of_char d \<longleftrightarrow> c = d"
  by (metis char_of_byte_of_char)

lemma byte_of_char_Char [simp]:
  "byte_of_char (Char b0 b1 b2 b3 b4 b5 b6 b7) = word_of_nat (of_char (Char b0 b1 b2 b3 b4 b5 b6 b7))"
  by (simp add: byte_of_char_def)

lemma and_255 [simp]: "w AND 255 = (w :: u8)"
proof -
  have "(255 :: u8) = - 1" by simp
  then show ?thesis by (simp only: and.right_neutral)
qed

lemma char_of_byte_eq_iff: "char_of_byte b = c \<longleftrightarrow> b = byte_of_char c"
  by auto

lemma less_8_cases:
  assumes "n < (8::nat)"
  obtains "n = 0" | "n = 1" | "n = 2" | "n = 3" | "n = 4" | "n = 5" | "n = 6" | "n = 7"
proof -
  have "n \<in> {0, 1, 2, 3, 4, 5, 6, 7}" using assms by auto
  then show thesis using that by blast
qed

lemma unat_Suc_less:
  fixes w v :: "'a::len word"
  assumes "unat w < unat v"
  shows "unat (w + 1) = Suc (unat w)"
proof -
  have "unat v < 2 ^ LENGTH('a)" by (rule unsigned_less)
  with assms have "unat w + 1 < 2 ^ LENGTH('a)" by linarith
  then show ?thesis by (simp add: unat_word_ariths)
qed

lemma unat_less_numeral: "unat w < numeral n \<longleftrightarrow> uint w < numeral n"
proof -
  have "int (unat w) < int (numeral n) \<longleftrightarrow> unat w < numeral n" by (simp only: of_nat_less_iff)
  then show ?thesis by simp
qed

lemma sint32_unat: "sint (w :: u32) = (if unat w < 2 ^ 31 then int (unat w) else int (unat w) - 2 ^ 32)"
proof -
  define u where "u = uint w"
  have u: "0 \<le> u" "u < 4294967296" using unsigned_less [of w, where ?'a = int] by (simp_all add: u_def)
  have 1: "sint w = (u + 2147483648) mod 4294967296 - 2147483648"
    unfolding u_def sint_uint signed_take_bit_eq_take_bit_shift take_bit_eq_mod by simp
  have 2: "int (unat w) = u" by (simp add: u_def)
  then have 3: "unat w < 2 ^ 31 \<longleftrightarrow> u < 2147483648" by (simp add: unat_less_numeral)
  show ?thesis
  proof (cases "u < 2147483648")
    case True
    with u have "(u + 2147483648) mod 4294967296 = u + 2147483648" by (intro mod_pos_pos_trivial) simp_all
    with True 1 2 3 show ?thesis by simp
  next
    case False
    with u have "(u + 2147483648 - 4294967296) mod 4294967296 = u + 2147483648 - 4294967296"
      by (intro mod_pos_pos_trivial) simp_all
    then have "(u + 2147483648) mod 4294967296 = u + 2147483648 - 4294967296"
      by (simp only: mod_diff_right_eq [symmetric] mod_self diff_zero minus_mod_self2)
    with False 1 2 3 show ?thesis by simp
  qed
qed

section \<open>Little-endian words in memory\<close>

text \<open>
  \<open>le_bytes n w\<close> is the object representation of \<open>w\<close> in \<open>n\<close> bytes; \<open>le_word\<close> reads it
  back, as a cast such as \<open>*(uint32_t *)p\<close> does on the targets of the build files.
\<close>

fun le_word :: "bytes \<Rightarrow> 'a::len word" where
  "le_word [] = 0"
| "le_word (b # bs) = ucast b OR push_bit 8 (le_word bs)"

definition le_bytes :: "nat \<Rightarrow> 'a::len word \<Rightarrow> bytes" where
  "le_bytes n w = map (\<lambda>i. ucast (drop_bit (8 * i) w)) [0..<n]"

lemma length_le_bytes [simp]: "length (le_bytes n w) = n"
  by (simp add: le_bytes_def)

lemma nth_le_bytes [simp]: "i < n \<Longrightarrow> le_bytes n w ! i = ucast (drop_bit (8 * i) w)"
  by (simp add: le_bytes_def)

lemma bit_le_word:
  "bit (le_word bs :: 'a::len word) k \<longleftrightarrow>
     k < LENGTH('a) \<and> k div 8 < length bs \<and> bit (bs ! (k div 8)) (k mod 8)"
proof (induction bs arbitrary: k)
  case Nil
  then show ?case by simp
next
  case (Cons b bs)
  show ?case
  proof (cases "k < 8")
    case True
    then show ?thesis
      by (auto simp: bit_or_iff bit_push_bit_iff bit_ucast_iff)
  next
    case False
    then have "k div 8 = Suc ((k - 8) div 8)" "k mod 8 = (k - 8) mod 8"
      by (simp_all add: div_if mod_if)
    moreover have "\<not> bit (ucast b :: 'a word) k"
      using False by (auto simp: bit_ucast_iff dest: bit_imp_le_length)
    ultimately show ?thesis using False Cons.IH [of "k - 8"]
      by (auto simp: bit_or_iff bit_push_bit_iff)
  qed
qed

lemma word_OR_add:
  fixes v w :: "'a::len word"
  assumes "\<And>n. bit v n \<Longrightarrow> \<not> bit w n"
  shows "v OR w = v + w"
  by (rule disjunctive_add [symmetric]) (use assms in blast)

lemma le_word_le_bytes:
  assumes "LENGTH('a) \<le> 8 * n"
  shows "le_word (le_bytes n w) = (w :: 'a::len word)"
proof (rule bit_word_eqI)
  fix k assume k: "k < LENGTH('a)"
  then have "k div 8 < n" using assms by simp
  then show "bit (le_word (le_bytes n w) :: 'a word) k = bit w k"
    using k by (simp add: bit_le_word bit_ucast_iff bit_drop_bit_eq)
qed

lemma le_bytes_le_word:
  assumes "length bs = n" and "8 * n \<le> LENGTH('a::len)"
  shows "le_bytes n (le_word bs :: 'a word) = bs"
proof (rule nth_equalityI)
  show "length (le_bytes n (le_word bs :: 'a word)) = length bs"
    using assms by simp
  fix i assume "i < length (le_bytes n (le_word bs :: 'a word))"
  then have i: "i < n" by simp
  show "le_bytes n (le_word bs :: 'a word) ! i = bs ! i"
  proof (rule bit_word_eqI)
    fix k assume k: "k < LENGTH(8)"
    have "8 * i + k < 8 * n" using i k by simp
    then have "8 * i + k < LENGTH('a)" using assms by simp
    moreover have "(8 * i + k) div 8 = i" "(8 * i + k) mod 8 = k"
      using k by simp_all
    ultimately show "bit (le_bytes n (le_word bs :: 'a word) ! i) k = bit (bs ! i) k"
      using i k assms by (simp add: bit_ucast_iff bit_drop_bit_eq bit_le_word)
  qed
qed

lemma le_word_eq_iff:
  assumes "length bs = length cs" and "8 * length bs \<le> LENGTH('a::len)"
  shows "(le_word bs :: 'a word) = le_word cs \<longleftrightarrow> bs = cs"
  using assms by (metis le_bytes_le_word)

lemma le_word16 [simp, byte_simps]: "le_word (le_bytes 2 w) = (w :: u16)"
  and le_word32 [simp, byte_simps]: "le_word (le_bytes 4 x) = (x :: u32)"
  and le_word64 [simp, byte_simps]: "le_word (le_bytes 8 y) = (y :: u64)"
  by (simp_all add: le_word_le_bytes)

text \<open>\<open>htons\<close>/\<open>ntohs\<close> and \<open>htonl\<close>/\<open>ntohl\<close> reverse the bytes on a little-endian host.\<close>

definition swap16 :: "u16 \<Rightarrow> u16" where
  "swap16 w = le_word (rev (le_bytes 2 w))"

definition swap32 :: "u32 \<Rightarrow> u32" where
  "swap32 w = le_word (rev (le_bytes 4 w))"

abbreviation htons :: "u16 \<Rightarrow> u16" where "htons \<equiv> swap16"
abbreviation ntohs :: "u16 \<Rightarrow> u16" where "ntohs \<equiv> swap16"
abbreviation htonl :: "u32 \<Rightarrow> u32" where "htonl \<equiv> swap32"
abbreviation ntohl :: "u32 \<Rightarrow> u32" where "ntohl \<equiv> swap32"

lemma le_bytes_swap32: "le_bytes 4 (swap32 w) = rev (le_bytes 4 w)"
  by (simp add: swap32_def le_bytes_le_word)

lemma le_bytes_swap16: "le_bytes 2 (swap16 w) = rev (le_bytes 2 w)"
  by (simp add: swap16_def le_bytes_le_word)

lemma swap32_swap32 [simp, byte_simps]: "swap32 (swap32 w) = w"
  by (metis le_bytes_swap32 le_word32 rev_rev_ident)

lemma swap16_swap16 [simp, byte_simps]: "swap16 (swap16 w) = w"
  by (metis le_bytes_swap16 le_word16 rev_rev_ident)

lemma swap32_eq_iff [simp]: "swap32 v = swap32 w \<longleftrightarrow> v = w"
  by (metis swap32_swap32)

lemma bit_swap32:
  "bit (swap32 w) k \<longleftrightarrow> k < 32 \<and> bit w (8 * (3 - k div 8) + k mod 8)"
proof (cases "k < 32")
  case True
  then have k: "k div 8 < 4" by simp
  have "rev (le_bytes 4 w) ! (k div 8) = ucast (drop_bit (8 * (3 - k div 8)) w)"
    using k by (simp add: rev_nth)
  with True k show ?thesis
    by (simp add: swap32_def bit_le_word bit_ucast_iff bit_drop_bit_eq)
next
  case False
  then show ?thesis by (simp add: swap32_def bit_le_word)
qed

lemma swap32_and: "swap32 (v AND w) = swap32 v AND swap32 w"
  by (rule bit_word_eqI) (simp add: bit_swap32 bit_and_iff)

lemma swap32_or: "swap32 (v OR w) = swap32 v OR swap32 w"
  by (rule bit_word_eqI) (simp add: bit_swap32 bit_or_iff)

lemma swap32_not: "swap32 (NOT w) = NOT (swap32 w)"
proof (rule bit_word_eqI)
  fix k assume "k < LENGTH(32)"
  then have k: "k < 32" by simp
  have "k mod 8 < 8" by simp
  then have "8 * (3 - k div 8) + k mod 8 < 32" by linarith
  with k show "bit (swap32 (NOT w)) k = bit (NOT (swap32 w)) k"
    by (simp add: bit_swap32 bit_not_iff)
qed

lemmas swap32_bitwise = swap32_and swap32_or swap32_not

text \<open>Conversion to a 32-bit \<open>int\<close>: two's complement.\<close>

definition s32 :: "int \<Rightarrow> int" where
  "s32 i = (i + 2 ^ 31) mod 2 ^ 32 - 2 ^ 31"

lemma s32_id [simp]: "- (2 ^ 31) \<le> i \<Longrightarrow> i < 2 ^ 31 \<Longrightarrow> s32 i = i"
  by (simp add: s32_def)

section \<open>Results\<close>

datatype exn =
    MemFault
  | UninitRead
  | Diverges
  | KeyException string
  | INIException string
  | HashTableException string
  | SlightFunctionException string
  | GetoptException string
  | LogException string
  | SubnetException string
  | IPAllocatorException string
  | DHCP_PacketException string
  | DHCP_NetException string
  | NetException string
  | PFException string
  | DaemonException string

type_synonym 'a res = "exn + 'a"

text \<open>Sequencing: the first exception ends the computation.\<close>

fun bindR :: "'a res \<Rightarrow> ('a \<Rightarrow> 'b res) \<Rightarrow> 'b res" where
  "bindR (Inl e) f = Inl e"
| "bindR (Inr x) f = f x"

lemma bindR_eq_Inr [simp]: "bindR m f = Inr y \<longleftrightarrow> (\<exists>x. m = Inr x \<and> f x = Inr y)"
  by (cases m) auto

lemma bindR_eq_Inl: "bindR m f = Inl e \<longleftrightarrow> m = Inl e \<or> (\<exists>x. m = Inr x \<and> f x = Inl e)"
  by (cases m) auto

lemma bindR_assoc: "bindR (bindR m f) g = bindR m (\<lambda>x. bindR (f x) g)"
  by (cases m) auto

lemma bindR_cong [fundef_cong]:
  "m = m' \<Longrightarrow> (\<And>x. m' = Inr x \<Longrightarrow> f x = f' x) \<Longrightarrow> bindR m f = bindR m' f'"
  by (cases m') auto

lemma bindR_split:
  "P (bindR m f) \<longleftrightarrow> (\<forall>e. m = Inl e \<longrightarrow> P (Inl e)) \<and> (\<forall>x. m = Inr x \<longrightarrow> P (f x))"
  by (cases m) auto

lemma bindR_split_asm:
  "P (bindR m f) \<longleftrightarrow> \<not> ((\<exists>e. m = Inl e \<and> \<not> P (Inl e)) \<or> (\<exists>x. m = Inr x \<and> \<not> P (f x)))"
  by (cases m) auto

lemmas bindR_splits = bindR_split bindR_split_asm

text \<open>Reading a variable that may be indeterminate, and dereferencing a possible null.\<close>

fun read_init :: "'a option \<Rightarrow> 'a res" where
  "read_init None = Inl UninitRead"
| "read_init (Some x) = Inr x"

fun deref :: "'a option \<Rightarrow> 'a res" where
  "deref None = Inl MemFault"
| "deref (Some x) = Inr x"

lemma deref_eq_Inr [simp]: "deref x = Inr y \<longleftrightarrow> x = Some y"
  by (cases x) auto

lemma read_init_eq_Inr [simp]: "read_init x = Inr y \<longleftrightarrow> x = Some y"
  by (cases x) auto

lemma deref_eq_Inl [simp]: "deref x = Inl e \<longleftrightarrow> x = None \<and> e = MemFault"
  by (cases x) auto

lemma read_init_eq_Inl [simp]: "read_init x = Inl e \<longleftrightarrow> x = None \<and> e = UninitRead"
  by (cases x) auto

section \<open>Byte buffers\<close>

text \<open>Bounds-checked reads and writes of an array: what \<open>memcpy\<close> and indexing do.\<close>

definition read_at :: "'a list \<Rightarrow> nat \<Rightarrow> 'a res" where
  "read_at buf i = (if i < length buf then Inr (buf ! i) else Inl MemFault)"

definition read_range :: "'a list \<Rightarrow> nat \<Rightarrow> nat \<Rightarrow> 'a list res" where
  "read_range buf off n =
     (if off + n \<le> length buf then Inr (take n (drop off buf)) else Inl MemFault)"

definition write_range :: "'a list \<Rightarrow> nat \<Rightarrow> 'a list \<Rightarrow> 'a list res" where
  "write_range buf off xs =
     (if off + length xs \<le> length buf
      then Inr (take off buf @ xs @ drop (off + length xs) buf) else Inl MemFault)"

lemma read_at_Inr [simp]: "i < length buf \<Longrightarrow> read_at buf i = Inr (buf ! i)"
  by (simp add: read_at_def)

lemma read_range_Inr [simp]:
  "off + n \<le> length buf \<Longrightarrow> read_range buf off n = Inr (take n (drop off buf))"
  by (simp add: read_range_def)

lemma write_range_Inr [simp]:
  "off + length xs \<le> length buf \<Longrightarrow>
     write_range buf off xs = Inr (take off buf @ xs @ drop (off + length xs) buf)"
  by (simp add: write_range_def)

lemma drop_Cons_nth:
  assumes "drop off buffer = c # rest"
  shows "off < length buffer" and "buffer ! off = c" and "drop (Suc off) buffer = rest"
  using assms
  by (auto dest: arg_cong [of _ _ length] simp: nth_via_drop drop_Suc simp flip: tl_drop)

lemma write_range_length: "write_range buf off xs = Inr buf' \<Longrightarrow> length buf' = length buf"
  by (auto simp: write_range_def split: if_splits)

lemma write_range_prefix:
  assumes "write_range buf off xs = Inr buf'" and "n \<le> off"
  shows "take n buf' = take n buf"
  using assms by (auto simp: write_range_def split: if_splits)

lemma write_range_append:
  assumes "write_range buf off xs = Inr buf'"
  shows "take (off + length xs) buf' = take off buf @ xs"
proof -
  from assms have "off + length xs \<le> length buf"
    and "buf' = take off buf @ xs @ drop (off + length xs) buf"
    by (auto simp: write_range_def split: if_splits)
  then show ?thesis by (simp add: min_absorb2)
qed

text \<open>Consecutive writes are one write of the concatenation.\<close>

definition overlay :: "'a list \<Rightarrow> nat \<Rightarrow> 'a list \<Rightarrow> 'a list" where
  "overlay buf off xs = take off buf @ xs @ drop (off + length xs) buf"

lemma write_range_overlay: "off + length xs \<le> length buf \<Longrightarrow> write_range buf off xs = Inr (overlay buf off xs)"
  by (simp add: overlay_def)

lemma length_overlay [simp]: "off + length xs \<le> length buf \<Longrightarrow> length (overlay buf off xs) = length buf"
  by (simp add: overlay_def)

lemma overlay_Nil [simp]: "overlay buf off [] = buf"
  by (simp add: overlay_def)

lemma overlay_overlay:
  assumes "off + length xs + length ys \<le> length buf" and "p = off + length xs"
  shows "overlay (overlay buf off xs) p ys = overlay buf off (xs @ ys)"
  using assms by (simp add: overlay_def min_absorb1 add.commute add.left_commute)

section \<open>State-passing code that may raise\<close>

text \<open>
  A procedure returns its result, or the exception, together with the state at that point:
  an exception of the source does not undo the effects that came before it.
\<close>

type_synonym ('s, 'a) proc = "'s \<Rightarrow> 'a res \<times> 's"

definition retP :: "'a \<Rightarrow> ('s, 'a) proc" where
  "retP x = (\<lambda>s. (Inr x, s))"

definition throwP :: "exn \<Rightarrow> ('s, 'a) proc" where
  "throwP e = (\<lambda>s. (Inl e, s))"

definition liftP :: "'a res \<Rightarrow> ('s, 'a) proc" where
  "liftP r = (\<lambda>s. (r, s))"

definition getP :: "('s \<Rightarrow> 'a) \<Rightarrow> ('s, 'a) proc" where
  "getP f = (\<lambda>s. (Inr (f s), s))"

definition modifyP :: "('s \<Rightarrow> 's) \<Rightarrow> ('s, unit) proc" where
  "modifyP f = (\<lambda>s. (Inr (), f s))"

definition bindP :: "('s, 'a) proc \<Rightarrow> ('a \<Rightarrow> ('s, 'b) proc) \<Rightarrow> ('s, 'b) proc" where
  "bindP m f = (\<lambda>s. case m s of (Inl e, s') \<Rightarrow> (Inl e, s') | (Inr x, s') \<Rightarrow> f x s')"

lemmas proc_defs = retP_def throwP_def liftP_def getP_def modifyP_def

lemma bindP_retP [simp]: "bindP (retP x) f = f x"
  by (simp add: bindP_def retP_def)

lemma bindP_throwP [simp]: "bindP (throwP e) f = throwP e"
  by (simp add: bindP_def throwP_def fun_eq_iff)

lemma bindP_assoc: "bindP (bindP m f) g = bindP m (\<lambda>x. bindP (f x) g)"
  by (auto simp: bindP_def fun_eq_iff split: prod.splits sum.splits)

lemma bindP_apply_Inr [simp]: "m s = (Inr x, s') \<Longrightarrow> bindP m f s = f x s'"
  by (simp add: bindP_def)

lemma bindP_apply_Inl [simp]: "m s = (Inl e, s') \<Longrightarrow> bindP m f s = (Inl e, s')"
  by (simp add: bindP_def)

lemma bindP_eq_Inr:
  "bindP m f s = (Inr y, t) \<longleftrightarrow> (\<exists>x s'. m s = (Inr x, s') \<and> f x s' = (Inr y, t))"
  by (auto simp: bindP_def split: prod.splits sum.splits)

lemma bindP_elim:
  assumes "bindP m f s = (x, t)"
  obtains (raise) e where "m s = (Inl e, t)" and "x = Inl e"
    | (step) y s' where "m s = (Inr y, s')" and "f y s' = (x, t)"
  using assms by (auto simp: bindP_def split: prod.splits sum.splits)

lemma retP_run [simp]: "retP y s = (x, t) \<longleftrightarrow> x = Inr y \<and> t = s"
  by (auto simp: retP_def)

lemma throwP_run [simp]: "throwP e s = (x, t) \<longleftrightarrow> x = Inl e \<and> t = s"
  by (auto simp: throwP_def)

lemma liftP_run [simp]: "liftP r s = (x, t) \<longleftrightarrow> r = x \<and> t = s"
  by (auto simp: liftP_def)

lemma getP_run [simp]: "getP f s = (x, t) \<longleftrightarrow> x = Inr (f s) \<and> t = s"
  by (auto simp: getP_def)

lemma modifyP_run [simp]: "modifyP f s = (x, t) \<longleftrightarrow> x = Inr () \<and> t = f s"
  by (auto simp: modifyP_def)

text \<open>
  \<open>keeps R m\<close>: whatever \<open>m\<close> does, exceptions included, the state before and the state after
  are related by \<open>R\<close>. With a reflexive and transitive \<open>R\<close> it composes over \<open>bindP\<close>, so that
  the frame and invariant lemmas of a handler follow from those of the calls it makes.
\<close>

definition keeps :: "('s \<Rightarrow> 's \<Rightarrow> bool) \<Rightarrow> ('s, 'a) proc \<Rightarrow> bool" where
  "keeps R m \<longleftrightarrow> (\<forall>s. R s (snd (m s)))"

lemma keepsD: "keeps R m \<Longrightarrow> m s = (r, t) \<Longrightarrow> R s t"
  unfolding keeps_def by (metis snd_conv)

lemma keeps_pure [keeps_intros]:
  assumes "reflp R"
  shows "keeps R (retP x)" and "keeps R (throwP e)" and "keeps R (liftP r)" and "keeps R (getP f)"
  using assms by (auto simp: keeps_def proc_defs reflp_def)

lemma keeps_modifyP: "(\<And>s. R s (f s)) \<Longrightarrow> keeps R (modifyP f)"
  by (simp add: keeps_def modifyP_def)

lemma keeps_bindP [keeps_intros]:
  assumes "transp R" and "keeps R m" and "\<And>x. keeps R (f x)"
  shows "keeps R (bindP m f)"
  unfolding keeps_def
proof
  fix s
  obtain r s' where m: "m s = (r, s')" by fastforce
  then have R: "R s s'" using assms(2) by (simp add: keepsD)
  show "R s (snd (bindP m f s))"
  proof (cases r)
    case (Inl e)
    with m R show ?thesis by simp
  next
    case (Inr x)
    have "R s' (snd (f x s'))" using assms(3) by (simp add: keeps_def)
    with R assms(1) have "R s (snd (f x s'))" by (meson transpE)
    with m Inr show ?thesis by simp
  qed
qed

lemma keeps_if [keeps_intros]: "keeps R m \<Longrightarrow> keeps R n \<Longrightarrow> keeps R (if b then m else n)"
  by simp

lemma keeps_mono: "keeps R m \<Longrightarrow> (\<And>s t. R s t \<Longrightarrow> Q s t) \<Longrightarrow> keeps Q m"
  by (simp add: keeps_def)

text \<open>
  \<open>wp m E Q s\<close>: from the state \<open>s\<close> the code \<open>m\<close> either raises \<open>e\<close> in a state with \<open>E e\<close> or
  returns \<open>y\<close> in a state with \<open>Q y\<close>.
\<close>

definition wp :: "('s, 'a) proc \<Rightarrow> (exn \<Rightarrow> 's \<Rightarrow> bool) \<Rightarrow> ('a \<Rightarrow> 's \<Rightarrow> bool) \<Rightarrow> 's \<Rightarrow> bool" where
  "wp m E Q s \<longleftrightarrow> (case m s of (Inl e, t) \<Rightarrow> E e t | (Inr y, t) \<Rightarrow> Q y t)"

lemma wp_Inr: "wp m E Q s \<Longrightarrow> m s = (Inr y, t) \<Longrightarrow> Q y t"
  and wp_Inl: "wp m E Q s \<Longrightarrow> m s = (Inl e, t) \<Longrightarrow> E e t"
  by (simp_all add: wp_def)

lemma wpI: "(\<And>e t. m s = (Inl e, t) \<Longrightarrow> E e t) \<Longrightarrow> (\<And>y t. m s = (Inr y, t) \<Longrightarrow> Q y t) \<Longrightarrow> wp m E Q s"
  by (auto simp: wp_def split: prod.splits sum.splits)

lemma wp_bindP [wp_intros]: "wp m E (\<lambda>y. wp (f y) E Q) s \<Longrightarrow> wp (bindP m f) E Q s"
  by (auto simp: wp_def bindP_def split: prod.splits sum.splits)

lemma wp_retP [wp_intros]: "Q y s \<Longrightarrow> wp (retP y) E Q s"
  and wp_throwP [wp_intros]: "E e s \<Longrightarrow> wp (throwP e) E Q s"
  by (simp_all add: wp_def proc_defs)

lemma wp_getP [wp_intros]: "Q (f s) s \<Longrightarrow> wp (getP f) E Q s"
  by (simp add: wp_def proc_defs)

lemma wp_modifyP [wp_intros]: "Q () (g s) \<Longrightarrow> wp (modifyP g) E Q s"
  by (simp add: wp_def proc_defs)

lemma wp_liftP [wp_intros]:
  "(\<And>e. r = Inl e \<Longrightarrow> E e s) \<Longrightarrow> (\<And>y. r = Inr y \<Longrightarrow> Q y s) \<Longrightarrow> wp (liftP r) E Q s"
  by (auto simp: wp_def liftP_def split: sum.splits)

lemma wp_if [wp_intros]: "(b \<Longrightarrow> wp m E Q s) \<Longrightarrow> (\<not> b \<Longrightarrow> wp n E Q s) \<Longrightarrow> wp (if b then m else n) E Q s"
  by simp

lemma wp_option [wp_intros]:
  "(x = None \<Longrightarrow> wp m E Q s) \<Longrightarrow> (\<And>y. x = Some y \<Longrightarrow> wp (n y) E Q s) \<Longrightarrow>
     wp (case x of None \<Rightarrow> m | Some y \<Rightarrow> n y) E Q s"
  by (cases x) auto

lemma wp_prod [wp_intros]: "(\<And>a b. p = (a, b) \<Longrightarrow> wp (m a b) E Q s) \<Longrightarrow> wp (case p of (a, b) \<Rightarrow> m a b) E Q s"
  by (cases p) auto

lemma wp_conseq:
  "wp m E' Q' s \<Longrightarrow> (\<And>e t. E' e t \<Longrightarrow> E e t) \<Longrightarrow> (\<And>y t. Q' y t \<Longrightarrow> Q y t) \<Longrightarrow> wp m E Q s"
  by (auto simp: wp_def split: prod.splits sum.splits)

end
