(* ===== verification/HashTable.thy ===== *)
theory HashTable
  imports Prelude "HOL-Library.Signed_Division"
begin

text \<open>
  \<open>src/src/share/dsHashTable.h\<close> and \<open>dsHashTable.cxx\<close>: the hash table with open addressing and
  double hashing behind the configuration and the command line parser. A slot holds a pointer to
  an item or null, here an item or \<open>None\<close>; \<open>_HSize\<close> is the length of the list. Arithmetic on
  \<open>int\<close> wraps at 32 bits and \<open>%\<close> truncates towards zero; \<open>char\<close> is signed, so that an index may
  be negative.
\<close>

section \<open>Items and slots\<close>

record 'b dsHashTableItem =
  item_key :: string
  item_body :: "'b option"
  purge_body :: bool

type_synonym 'b tableType = "'b dsHashTableItem option list"

definition slot_at :: "'b tableType \<Rightarrow> int \<Rightarrow> 'b dsHashTableItem option res" where
  "slot_at t i = (if 0 \<le> i \<and> i < int (length t) then Inr (t ! nat i) else Inl MemFault)"

definition slot_put :: "'b tableType \<Rightarrow> int \<Rightarrow> 'b dsHashTableItem \<Rightarrow> 'b tableType res" where
  "slot_put t i it = (if 0 \<le> i \<and> i < int (length t) then Inr (t[nat i := Some it]) else Inl MemFault)"

definition HSize :: "'b tableType \<Rightarrow> int" where
  "HSize t = int (length t)"

abbreviation HASH_INCREMENT :: nat where "HASH_INCREMENT \<equiv> 1024"
abbreviation HASH_MAXSIZE :: nat where "HASH_MAXSIZE \<equiv> 32576"

section \<open>Hash functions\<close>

definition char_value :: "char \<Rightarrow> int" where
  "char_value c = (let n = int (of_char c) in if n < 128 then n else n - 256)"

definition HFuncAddition :: "int \<Rightarrow> string \<Rightarrow> int" where
  "HFuncAddition hsize key = foldl (\<lambda>hashvalue c. s32 (char_value c + hashvalue)) 0 key smod hsize"

definition HFuncHorner :: "int \<Rightarrow> string \<Rightarrow> int" where
  "HFuncHorner hsize key =
     (let hashvalue = foldl (\<lambda>hashvalue c. s32 (char_value c + 131 * hashvalue)) 0 key smod hsize in
      if hashvalue > 0 then hashvalue else 0 - hashvalue)"

section \<open>Probing\<close>

text \<open>The loop of \<open>_hi_seek\<close>, at most \<open>fuel\<close> probes: \<open>HSize\<close> of them are enough (lemma
  \<open>hi_seek_cases\<close>).\<close>

fun hi_seek_loop :: "nat \<Rightarrow> 'b tableType \<Rightarrow> string \<Rightarrow> int \<Rightarrow> int \<Rightarrow> int \<Rightarrow> ('b dsHashTableItem option \<times> int) res" where
  "hi_seek_loop 0 t key start_pos hashV hmul = Inl Diverges"
| "hi_seek_loop (Suc fuel) t key start_pos hashV hmul =
     bindR (slot_at t hashV) (\<lambda>slot.
     case slot of
       None \<Rightarrow> Inr (None, hashV)
     | Some it \<Rightarrow>
         if item_key it = key then Inr (Some it, hashV)
         else
           let hashV = s32 (start_pos + s32 (hmul * HFuncHorner (HSize t) key)) smod HSize t in
           if start_pos \<noteq> hashV then hi_seek_loop fuel t key start_pos hashV (s32 (hmul + 1))
           else Inr (None, -1))"

definition hi_seek :: "'b tableType \<Rightarrow> string \<Rightarrow> ('b dsHashTableItem option \<times> int) res" where
  "hi_seek t key = (let hashV = HFuncAddition (HSize t) key in hi_seek_loop (length t) t key hashV hashV 1)"

section \<open>Operations\<close>

definition ht_new :: "int \<Rightarrow> 'b tableType" where
  "ht_new numEntries = replicate (if numEntries > 20 then nat numEntries else 20) None"

definition ht_clear :: "'b tableType \<Rightarrow> 'b tableType" where
  "ht_clear t = replicate (length t) None"

fun grow_copy :: "'b tableType \<Rightarrow> 'b tableType \<Rightarrow> 'b tableType res" where
  "grow_copy [] t = Inr t"
| "grow_copy (None # old) t = grow_copy old t"
| "grow_copy (Some it # old) t =
     bindR (hi_seek t (item_key it)) (\<lambda>(found, i).
     case found of
       None \<Rightarrow> bindR (slot_put t i it) (grow_copy old)
     | Some _ \<Rightarrow> grow_copy old t)"

text \<open>The exception for a table of maximal size is built from a format whose \<open>%s\<close> is given a line
  number, so that building it reads from that address.\<close>

definition GrowUp :: "'b tableType \<Rightarrow> 'b tableType res" where
  "GrowUp t =
     (if length t \<ge> HASH_MAXSIZE then Inl MemFault
      else grow_copy t (replicate (if length t + HASH_INCREMENT < HASH_MAXSIZE then length t + HASH_INCREMENT else HASH_MAXSIZE) None))"

definition ht_insert :: "'b tableType \<Rightarrow> 'b dsHashTableItem \<Rightarrow> bool \<Rightarrow> ('b tableType \<times> 'b dsHashTableItem option) res" where
  "ht_insert t a replace =
     bindR (hi_seek t (item_key a)) (\<lambda>(tmp, HIndex).
     bindR (if HIndex = -1 then
              bindR (GrowUp t) (\<lambda>t.
              bindR (hi_seek t (item_key a)) (\<lambda>(tmp, HIndex).
              if HIndex = -1 then Inl (HashTableException ''Table full and can't grow more'')
              else Inr (t, tmp, HIndex)))
            else Inr (t, tmp, HIndex)) (\<lambda>(t, tmp, HIndex).
     if tmp = None \<or> replace then bindR (slot_put t HIndex a) (\<lambda>t. Inr (t, tmp))
     else Inr (t, tmp)))"

definition ht_remove :: "'b tableType \<Rightarrow> string \<Rightarrow> ('b tableType \<times> 'b dsHashTableItem option) res" where
  "ht_remove t key =
     bindR (hi_seek t key) (\<lambda>(tmp, HIndex).
     case tmp of None \<Rightarrow> Inr (t, None) | Some it \<Rightarrow> Inr (t[nat HIndex := None], Some it))"

definition ht_seek_item :: "'b tableType \<Rightarrow> string \<Rightarrow> 'b dsHashTableItem option res" where
  "ht_seek_item t key = bindR (hi_seek t key) (\<lambda>(it, _). Inr it)"

definition ht_walk :: "'b tableType \<Rightarrow> int \<Rightarrow> 'b dsHashTableItem option res" where
  "ht_walk t i = (if i > HSize t then Inl (HashTableException ''Index out of bounds'') else slot_at t i)"

definition NumEntries :: "'b tableType \<Rightarrow> nat" where
  "NumEntries t = length (filter (\<lambda>slot. slot \<noteq> None) t)"

text \<open>The convenience interfaces: the body of the item with a key, and insertion of a pointer, of
  a copied string and of a number kept in the pointer.\<close>

definition ht_seek :: "'b tableType \<Rightarrow> string \<Rightarrow> 'b option res" where
  "ht_seek t key = bindR (ht_seek_item t key) (\<lambda>res. Inr (Option.bind res item_body))"

definition ht_insert_ptr :: "'b tableType \<Rightarrow> string \<Rightarrow> 'b option \<Rightarrow> bool \<Rightarrow> ('b tableType \<times> 'b dsHashTableItem option) res" where
  "ht_insert_ptr t key value replace = ht_insert t \<lparr>item_key = key, item_body = value, purge_body = False\<rparr> replace"

definition ht_insert_copy :: "'b tableType \<Rightarrow> string \<Rightarrow> 'b \<Rightarrow> bool \<Rightarrow> ('b tableType \<times> 'b dsHashTableItem option) res" where
  "ht_insert_copy t key value replace = ht_insert t \<lparr>item_key = key, item_body = Some value, purge_body = True\<rparr> replace"

section \<open>Probe sequences\<close>

text \<open>Keys of fewer than \<open>2^24\<close> ASCII characters: their sums do not overflow.\<close>

definition good_key :: "string \<Rightarrow> bool" where
  "good_key key \<longleftrightarrow> list_all (\<lambda>c. (of_char c :: nat) < 128) key \<and> length key < 2 ^ 24"

lemma char_value_ascii: "(of_char c :: nat) < 128 \<Longrightarrow> 0 \<le> char_value c \<and> char_value c < 128"
  by (simp add: char_value_def Let_def)

lemma addition_bounds:
  assumes "list_all (\<lambda>c. (of_char c :: nat) < 128) key" and "0 \<le> acc" and "acc + 128 * int (length key) < 2 ^ 31"
  shows "0 \<le> foldl (\<lambda>h c. s32 (char_value c + h)) acc key"
  using assms
proof (induction key arbitrary: acc)
  case (Cons c key)
  have c: "0 \<le> char_value c" "char_value c < 128" using char_value_ascii Cons.prems(1) by simp_all
  then have "s32 (char_value c + acc) = char_value c + acc" using Cons.prems by simp
  then show ?case using Cons.IH [of "char_value c + acc"] Cons.prems c by simp
qed simp

lemma smod_pos: "0 \<le> a \<Longrightarrow> 0 < b \<Longrightarrow> (a :: int) smod b = a mod b"
  by (simp add: smod_int_alt_def sgn_if)

lemma smod_abs: "0 < b \<Longrightarrow> \<bar>(a :: int) smod b\<bar> < b"
  by (simp add: smod_int_alt_def abs_mult)

text \<open>The first probe is inside the table; of the keys a program uses, the ASCII ones have it.\<close>

definition start_ok :: "nat \<Rightarrow> string \<Rightarrow> bool" where
  "start_ok n key \<longleftrightarrow> 0 \<le> HFuncAddition (int n) key"

lemma good_key_start [simp]: "good_key key \<Longrightarrow> 0 < n \<Longrightarrow> start_ok n key"
  using addition_bounds [of key 0] by (simp add: start_ok_def HFuncAddition_def good_key_def smod_pos)

lemma HFuncAddition_less: "0 < h \<Longrightarrow> HFuncAddition h key < h"
  using smod_abs [of h "foldl (\<lambda>hashvalue c. s32 (char_value c + hashvalue)) 0 key"] by (simp add: HFuncAddition_def)

lemma HFuncHorner_bounds:
  assumes "0 < h" shows "0 \<le> HFuncHorner h key" and "HFuncHorner h key < h"
  unfolding HFuncHorner_def Let_def
  using smod_abs [OF assms, of "foldl (\<lambda>hashvalue c. s32 (char_value c + 131 * hashvalue)) 0 key"]
  by (simp_all split: if_splits) linarith+

definition probe :: "nat \<Rightarrow> string \<Rightarrow> nat \<Rightarrow> nat" where
  "probe n key j = nat ((HFuncAddition (int n) key + int j * HFuncHorner (int n) key) mod int n)"

lemma probe_less: "0 < n \<Longrightarrow> probe n key j < n"
  by (simp add: probe_def nat_less_iff)

lemma probe_0: "start_ok n key \<Longrightarrow> 0 < n \<Longrightarrow> int (probe n key 0) = HFuncAddition (int n) key"
  using HFuncAddition_less [of "int n" key] by (simp add: probe_def start_ok_def)

lemma probe_period: "probe n key n = probe n key 0"
  by (simp add: probe_def)

text \<open>One step of the loop computes the next position without overflow.\<close>

lemma probe_step:
  assumes "start_ok n key" and "0 < n" and "n \<le> HASH_MAXSIZE" and "j < n"
  shows "s32 (int (probe n key 0) + s32 (int (Suc j) * HFuncHorner (int n) key)) smod int n = int (probe n key (Suc j))"
proof -
  let ?a = "HFuncAddition (int n) key" and ?b = "HFuncHorner (int n) key"
  have b: "0 \<le> ?b" "?b \<le> 32575" "0 \<le> ?a" "?a \<le> 32575"
    using HFuncHorner_bounds [of "int n" key] HFuncAddition_less [of "int n" key] assms by (auto simp: start_ok_def)
  have "int (Suc j) * ?b \<le> 32576 * 32575" using b assms by (intro mult_mono) auto
  moreover have "0 \<le> int (Suc j) * ?b" using b by simp
  ultimately have m: "int (Suc j) * ?b \<le> 32576 * 32575" "0 \<le> int (Suc j) * ?b" .
  have "s32 (int (Suc j) * ?b) = int (Suc j) * ?b" using m unfolding s32_def by simp
  moreover have "s32 (?a + int (Suc j) * ?b) = ?a + int (Suc j) * ?b" using m b unfolding s32_def by simp
  moreover have "0 \<le> ?a + int (Suc j) * ?b" using m b by linarith
  ultimately show ?thesis
    using assms(2) b(3) probe_0 [OF assms(1,2)] by (simp add: probe_def [of n key "Suc j"] smod_pos del: of_nat_Suc)
qed

text \<open>\<open>chain t key j\<close>: the search for \<open>key\<close> goes on to probe \<open>j\<close>.\<close>

definition chain :: "'b tableType \<Rightarrow> string \<Rightarrow> nat \<Rightarrow> bool" where
  "chain t key j \<longleftrightarrow> (\<forall>i<j. \<exists>it. t ! probe (length t) key i = Some it \<and> item_key it \<noteq> key)
     \<and> (\<forall>i\<in>{1..j}. probe (length t) key i \<noteq> probe (length t) key 0)"

definition size_ok :: "'b tableType \<Rightarrow> bool" where
  "size_ok t \<longleftrightarrow> 0 < length t \<and> length t \<le> HASH_MAXSIZE"

lemma chain_0 [simp]: "chain t key 0"
  by (simp add: chain_def)

lemma chain_Suc:
  "chain t key (Suc j) \<longleftrightarrow> chain t key j \<and> (\<exists>it. t ! probe (length t) key j = Some it \<and> item_key it \<noteq> key)
     \<and> probe (length t) key (Suc j) \<noteq> probe (length t) key 0"
proof -
  have "{1..Suc j} = insert (Suc j) {1..j}" by auto
  then show ?thesis by (auto simp: chain_def less_Suc_eq)
qed

lemma chain_less: "chain t key j \<Longrightarrow> size_ok t \<Longrightarrow> j < length t"
  by (rule ccontr) (use probe_period [of "length t" key] in \<open>auto simp: chain_def size_ok_def not_less Suc_le_eq\<close>)

lemma slot_at_probe: "size_ok t \<Longrightarrow> slot_at t (int (probe (length t) key j)) = Inr (t ! probe (length t) key j)"
  using probe_less [of "length t" key j] by (simp add: slot_at_def size_ok_def)

lemma hi_seek_chain:
  assumes "start_ok (length t) key" and "size_ok t" and "chain t key j"
  shows "hi_seek t key
    = hi_seek_loop (length t - j) t key (int (probe (length t) key 0)) (int (probe (length t) key j)) (int (Suc j))"
  using assms(3)
proof (induction j)
  case 0
  then show ?case using assms(1,2) by (simp add: hi_seek_def HSize_def Let_def probe_0 size_ok_def)
next
  case (Suc j)
  let ?n = "length t"
  from Suc.prems obtain it where c: "chain t key j" "t ! probe ?n key j = Some it" "item_key it \<noteq> key"
      "probe ?n key (Suc j) \<noteq> probe ?n key 0" by (auto simp: chain_Suc)
  have j: "Suc j < ?n" by (rule chain_less [OF Suc.prems assms(2)])
  then have "?n - j = Suc (?n - Suc j)" by simp
  moreover have "s32 (int (Suc j) + 1) = int (Suc (Suc j))" using j assms(2) by (simp add: size_ok_def)
  moreover note probe_step [of ?n key j] slot_at_probe [OF assms(2), of key j]
  ultimately show ?case
    using Suc.IH [OF c(1)] c(2-4) assms(1,2) j by (simp add: size_ok_def HSize_def Let_def)
qed

lemma hi_seek_found:
  assumes "start_ok (length t) key" and "size_ok t" and "chain t key j"
    and "t ! probe (length t) key j = Some it" and "item_key it = key"
  shows "hi_seek t key = Inr (Some it, int (probe (length t) key j))"
proof -
  obtain m where "length t - j = Suc m" using chain_less [OF assms(3,2)] by (metis Suc_diff_Suc)
  then show ?thesis using hi_seek_chain [OF assms(1-3)] assms slot_at_probe [OF assms(2), of key j] by simp
qed

lemma hi_seek_free:
  assumes "start_ok (length t) key" and "size_ok t" and "chain t key j" and "t ! probe (length t) key j = None"
  shows "hi_seek t key = Inr (None, int (probe (length t) key j))"
proof -
  obtain m where "length t - j = Suc m" using chain_less [OF assms(3,2)] by (metis Suc_diff_Suc)
  then show ?thesis using hi_seek_chain [OF assms(1-3)] assms slot_at_probe [OF assms(2), of key j] by simp
qed

lemma hi_seek_full:
  assumes "start_ok (length t) key" and "size_ok t" and "chain t key j"
    and "t ! probe (length t) key j = Some it" and "item_key it \<noteq> key"
    and "probe (length t) key (Suc j) = probe (length t) key 0"
  shows "hi_seek t key = Inr (None, -1)"
proof -
  have j: "j < length t" by (rule chain_less [OF assms(3,2)])
  then obtain m where "length t - j = Suc m" by (metis Suc_diff_Suc)
  then show ?thesis
    using hi_seek_chain [OF assms(1-3)] assms slot_at_probe [OF assms(2), of key j] probe_step [of "length t" key j] j
    by (simp add: size_ok_def HSize_def Let_def del: of_nat_Suc)
qed

lemma hi_seek_cases:
  assumes "start_ok (length t) key" and "size_ok t"
  obtains (found) j it where "chain t key j" "t ! probe (length t) key j = Some it" "item_key it = key"
      "hi_seek t key = Inr (Some it, int (probe (length t) key j))"
  | (free) j where "chain t key j" "t ! probe (length t) key j = None"
      "hi_seek t key = Inr (None, int (probe (length t) key j))"
  | (full) "hi_seek t key = Inr (None, -1)"
proof -
  have "\<exists>j. chain t key j \<and> \<not> chain t key (Suc j)"
    using chain_less [OF _ assms(2)] by (metis chain_0 less_irrefl nat_induct)
  then obtain j where j: "chain t key j" "\<not> chain t key (Suc j)" by blast
  show thesis
  proof (cases "t ! probe (length t) key j")
    case None
    then show thesis using free [OF j(1)] hi_seek_free [OF assms j(1)] by blast
  next
    case (Some it)
    show thesis
    proof (cases "item_key it = key")
      case True
      then show thesis using found [OF j(1) Some] hi_seek_found [OF assms j(1) Some] by blast
    next
      case False
      then have "probe (length t) key (Suc j) = probe (length t) key 0" using j Some by (auto simp: chain_Suc)
      then show thesis using full hi_seek_full [OF assms j(1) Some False] by blast
    qed
  qed
qed

section \<open>The table as a map\<close>

definition ht_items :: "'b tableType \<Rightarrow> 'b dsHashTableItem list" where
  "ht_items t = map the (filter (\<lambda>slot. slot \<noteq> None) t)"

definition ht_map :: "'b tableType \<Rightarrow> string \<rightharpoonup> 'b dsHashTableItem" where
  "ht_map t = map_of (map (\<lambda>it. (item_key it, it)) (ht_items t))"

text \<open>Every item is where the search for its key ends.\<close>

definition ht_inv :: "'b tableType \<Rightarrow> bool" where
  "ht_inv t \<longleftrightarrow> size_ok t \<and> (\<forall>i<length t. \<forall>it. t ! i = Some it \<longrightarrow>
     good_key (item_key it) \<and> (\<exists>j. chain t (item_key it) j \<and> probe (length t) (item_key it) j = i))"

lemma ht_inv_size: "ht_inv t \<Longrightarrow> size_ok t"
  by (simp add: ht_inv_def)

lemma key_start: "ht_inv t \<Longrightarrow> good_key key \<Longrightarrow> start_ok (length t) key"
  by (simp add: ht_inv_def size_ok_def)

lemma set_ht_items: "it \<in> set (ht_items t) \<longleftrightarrow> Some it \<in> set t"
  by (force simp: ht_items_def)

lemma hi_seek_member:
  assumes "ht_inv t" and "i < length t" and "t ! i = Some it"
  shows "hi_seek t (item_key it) = Inr (Some it, int i)"
proof -
  obtain j where "good_key (item_key it)" "chain t (item_key it) j" and i: "probe (length t) (item_key it) j = i"
    using assms by (auto simp: ht_inv_def)
  then show ?thesis using hi_seek_found [of t "item_key it" j it] assms ht_inv_size [OF assms(1)] by (simp add: size_ok_def)
qed

lemma ht_items_unique:
  assumes "ht_inv t" and "Some it \<in> set t" and "Some it' \<in> set t" and "item_key it = item_key it'"
  shows "it = it'"
  using hi_seek_member [OF assms(1)] assms(2-4) by (metis Inr_inject in_set_conv_nth option.inject prod.inject)

lemma ht_map_Some:
  assumes "ht_inv t" shows "ht_map t key = Some it \<longleftrightarrow> Some it \<in> set t \<and> item_key it = key"
proof
  assume "ht_map t key = Some it"
  then show "Some it \<in> set t \<and> item_key it = key"
    using map_of_SomeD [of _ key it] by (fastforce simp: ht_map_def set_ht_items)
next
  assume it: "Some it \<in> set t \<and> item_key it = key"
  then have "ht_map t key \<noteq> None" by (auto simp: ht_map_def map_of_eq_None_iff set_ht_items image_iff)
  then obtain it' where it': "ht_map t key = Some it'" by blast
  then have "Some it' \<in> set t \<and> item_key it' = key"
    using map_of_SomeD [of _ key it'] by (fastforce simp: ht_map_def set_ht_items)
  then show "ht_map t key = Some it" using ht_items_unique [OF assms, of it it'] it it' by auto
qed

lemma hi_seek_map:
  assumes "ht_inv t" and "good_key key" shows "\<exists>i. hi_seek t key = Inr (ht_map t key, i)"
proof (cases "ht_map t key")
  case (Some it)
  then have "Some it \<in> set t" "item_key it = key" using ht_map_Some [OF assms(1)] by auto
  then show ?thesis using hi_seek_member [OF assms(1)] Some by (metis in_set_conv_nth)
next
  case None
  then have no: "Some it \<notin> set t \<or> item_key it \<noteq> key" for it using ht_map_Some [OF assms(1), of key it] by auto
  show ?thesis
    using key_start [OF assms] ht_inv_size [OF assms(1)]
  proof (cases rule: hi_seek_cases)
    case (found j it)
    moreover have "probe (length t) key j < length t" using ht_inv_size [OF assms(1)] by (simp add: size_ok_def probe_less)
    ultimately show ?thesis using no [of it] by (metis nth_mem)
  qed (use None in auto)
qed

text \<open>Storing an item where its search ends keeps the invariant and updates the map.\<close>

lemma chain_put:
  assumes "chain t key j" and "\<And>it'. t ! p = Some it' \<Longrightarrow> item_key it' = item_key it"
  shows "chain (t[p := Some it]) key j"
  unfolding chain_def
proof (intro conjI allI impI)
  fix i assume "i < j"
  then obtain it1 where it1: "t ! probe (length t) key i = Some it1" "item_key it1 \<noteq> key"
    using assms(1) by (auto simp: chain_def)
  show "\<exists>it'. t[p := Some it] ! probe (length (t[p := Some it])) key i = Some it' \<and> item_key it' \<noteq> key"
  proof (cases "probe (length t) key i = p")
    case True
    with it1 assms(2) [of it1] show ?thesis by (cases "p < length t") (auto simp: list_update_beyond)
  next
    case False
    with it1 show ?thesis by simp
  qed
qed (use assms(1) in \<open>simp add: chain_def\<close>)

lemma ht_inv_put:
  assumes "ht_inv t" and "good_key (item_key it)" and "chain t (item_key it) j"
    and p: "p = probe (length t) (item_key it) j" and same: "\<And>it'. t ! p = Some it' \<Longrightarrow> item_key it' = item_key it"
  shows "ht_inv (t[p := Some it])" and "ht_map (t[p := Some it]) = (ht_map t)(item_key it \<mapsto> it)"
proof -
  have pl: "p < length t" using ht_inv_size [OF assms(1)] p by (simp add: size_ok_def probe_less)
  show inv: "ht_inv (t[p := Some it])"
    unfolding ht_inv_def
  proof (intro conjI allI impI)
    show "size_ok (t[p := Some it])" using ht_inv_size [OF assms(1)] by (simp add: size_ok_def)
    fix i it' assume i: "i < length (t[p := Some it])" "t[p := Some it] ! i = Some it'"
    show "good_key (item_key it')"
      using i assms(1,2) by (cases "i = p") (auto simp: ht_inv_def)
    show "\<exists>j. chain (t[p := Some it]) (item_key it') j \<and> probe (length (t[p := Some it])) (item_key it') j = i"
    proof (cases "i = p")
      case True
      then have "it' = it" using i pl by simp
      moreover have "chain (t[p := Some it]) (item_key it) j" by (rule chain_put [OF assms(3) same])
      ultimately show ?thesis using p True by auto
    next
      case False
      then have "t ! i = Some it'" "i < length t" using i by simp_all
      then obtain j' where "chain t (item_key it') j'" "probe (length t) (item_key it') j' = i"
        using assms(1) by (auto simp: ht_inv_def)
      moreover then have "chain (t[p := Some it]) (item_key it') j'" by (intro chain_put same)
      ultimately show ?thesis by auto
    qed
  qed
  show "ht_map (t[p := Some it]) = (ht_map t)(item_key it \<mapsto> it)"
  proof
    fix key
    have mem: "Some it' \<in> set (t[p := Some it]) \<longleftrightarrow> it' = it \<or> Some it' \<in> set t" if "item_key it' \<noteq> item_key it \<or> it' = it" for it'
    proof
      assume "Some it' \<in> set (t[p := Some it])"
      then show "it' = it \<or> Some it' \<in> set t" using set_update_subset_insert [of t p "Some it"] by auto
    next
      assume r: "it' = it \<or> Some it' \<in> set t"
      show "Some it' \<in> set (t[p := Some it])"
      proof (cases "it' = it")
        case True
        then show ?thesis using pl by (simp add: set_update_memI)
      next
        case False
        then obtain i where "i < length t" "t ! i = Some it'" using r by (auto simp: in_set_conv_nth)
        moreover then have "i \<noteq> p" using same [of it'] that False by auto
        ultimately show ?thesis by (metis length_list_update nth_list_update_neq nth_mem)
      qed
    qed
    show "ht_map (t[p := Some it]) key = ((ht_map t)(item_key it \<mapsto> it)) key"
    proof (cases "key = item_key it")
      case True
      then show ?thesis using ht_map_Some [OF inv, of key it] mem by simp
    next
      case False
      have "ht_map (t[p := Some it]) key = Some it' \<longleftrightarrow> ht_map t key = Some it'" for it'
        using ht_map_Some [OF inv] ht_map_Some [OF assms(1)] mem [of it'] False by auto
      then have "ht_map (t[p := Some it]) key = ht_map t key" by (metis option.exhaust)
      with False show ?thesis by simp
    qed
  qed
qed

lemma hi_seek_put:
  assumes "ht_inv t" and "good_key (item_key it)" and "hi_seek t (item_key it) = Inr (r, i)" and "i \<noteq> -1"
  shows "\<exists>t'. slot_put t i it = Inr t' \<and> ht_inv t' \<and> ht_map t' = (ht_map t)(item_key it \<mapsto> it)"
  using key_start [OF assms(1,2)] ht_inv_size [OF assms(1)]
proof (cases rule: hi_seek_cases)
  case (found j it')
  moreover have "probe (length t) (item_key it) j < length t" using ht_inv_size [OF assms(1)] by (simp add: size_ok_def probe_less)
  ultimately show ?thesis using assms(3) ht_inv_put [OF assms(1,2) found(1) refl] by (auto simp: slot_put_def)
next
  case (free j)
  moreover have "probe (length t) (item_key it) j < length t" using ht_inv_size [OF assms(1)] by (simp add: size_ok_def probe_less)
  ultimately show ?thesis using assms(3) ht_inv_put [OF assms(1,2) free(1) refl] by (auto simp: slot_put_def)
qed (use assms(3,4) in auto)

section \<open>Growing and inserting\<close>

lemma ht_map_Nil [simp]: "ht_map [] = Map.empty"
  and ht_map_None [simp]: "ht_map (None # t) = ht_map t"
  and ht_map_Cons [simp]: "ht_map (Some it # t) = (ht_map t)(item_key it \<mapsto> it)"
  by (simp_all add: ht_map_def ht_items_def)

lemma ht_map_empty [simp]: "ht_map (replicate n None) = Map.empty"
  by (simp add: ht_map_def ht_items_def)

lemma ht_inv_empty: "0 < n \<Longrightarrow> n \<le> HASH_MAXSIZE \<Longrightarrow> ht_inv (replicate n None)"
  by (simp add: ht_inv_def size_ok_def)

lemma grow_copy_outcome:
  assumes "ht_inv t" and "\<forall>it. Some it \<in> set old \<longrightarrow> good_key (item_key it)"
  shows "grow_copy old t = Inl MemFault
    \<or> (\<exists>t'. grow_copy old t = Inr t' \<and> ht_inv t' \<and> ht_map t' = ht_map old ++ ht_map t)"
  using assms
proof (induction old t rule: grow_copy.induct)
  case (3 it old t)
  have k: "good_key (item_key it)" using "3.prems"(2) by simp
  obtain i where i: "hi_seek t (item_key it) = Inr (ht_map t (item_key it), i)" using hi_seek_map [OF "3.prems"(1) k] by blast
  show ?case
  proof (cases "ht_map t (item_key it)")
    case None
    show ?thesis
    proof (cases "i = -1")
      case True
      then show ?thesis using i None by (simp add: slot_put_def)
    next
      case False
      then obtain t1 where t1: "slot_put t i it = Inr t1" "ht_inv t1" "ht_map t1 = (ht_map t)(item_key it \<mapsto> it)"
        using hi_seek_put [OF "3.prems"(1) k i] by blast
      have "ht_map old ++ ht_map t1 = ht_map (Some it # old) ++ ht_map t"
        using None t1(3) by (auto simp: map_add_def fun_eq_iff split: option.splits)
      moreover have "grow_copy (Some it # old) t = grow_copy old t1" using i None t1(1) by simp
      moreover have "\<forall>it. Some it \<in> set old \<longrightarrow> good_key (item_key it)" using "3.prems"(2) by simp
      ultimately show ?thesis using "3.IH"(1) [OF i refl None t1(1,2)] by (simp only:)
    qed
  next
    case (Some it')
    have "ht_map old ++ ht_map t = ht_map (Some it # old) ++ ht_map t"
      using Some by (auto simp: map_add_def fun_eq_iff split: option.splits)
    moreover have "grow_copy (Some it # old) t = grow_copy old t" using i Some by simp
    moreover have "\<forall>it. Some it \<in> set old \<longrightarrow> good_key (item_key it)" using "3.prems"(2) by simp
    ultimately show ?thesis using "3.IH"(2) [OF i refl Some "3.prems"(1)] by (simp only:)
  qed
qed auto

lemma GrowUp_outcome:
  assumes "ht_inv t"
  shows "GrowUp t = Inl MemFault \<or> (\<exists>t'. GrowUp t = Inr t' \<and> ht_inv t' \<and> ht_map t' = ht_map t)"
proof (cases "length t \<ge> HASH_MAXSIZE")
  case False
  let ?n = "if length t + HASH_INCREMENT < HASH_MAXSIZE then length t + HASH_INCREMENT else HASH_MAXSIZE"
  have "\<forall>it. Some it \<in> set t \<longrightarrow> good_key (item_key it)" using assms by (auto simp: ht_inv_def in_set_conv_nth)
  then show ?thesis using grow_copy_outcome [OF ht_inv_empty [of ?n], of t] False by (auto simp: GrowUp_def)
qed (simp add: GrowUp_def)

definition insert_spec :: "(string \<rightharpoonup> 'b dsHashTableItem) \<Rightarrow> 'b dsHashTableItem \<Rightarrow> bool \<Rightarrow> (string \<rightharpoonup> 'b dsHashTableItem)" where
  "insert_spec m it replace = (if m (item_key it) = None \<or> replace then m(item_key it \<mapsto> it) else m)"

lemma insert_at:
  assumes "ht_inv t" and "good_key (item_key it)" and "hi_seek t (item_key it) = Inr (r, i)" and "i \<noteq> -1"
  shows "\<exists>t'. (if r = None \<or> replace then bindR (slot_put t i it) (\<lambda>t. Inr (t, r)) else Inr (t, r)) = Inr (t', ht_map t (item_key it))
    \<and> ht_inv t' \<and> ht_map t' = insert_spec (ht_map t) it replace"
  using hi_seek_put [OF assms] hi_seek_map [OF assms(1,2)] assms(1,3) by (auto simp: insert_spec_def)

lemma ht_insert_outcome:
  assumes "ht_inv t" and "good_key (item_key it)"
  shows "ht_insert t it replace \<in> {Inl MemFault, Inl (HashTableException ''Table full and can't grow more'')}
    \<or> (\<exists>t'. ht_insert t it replace = Inr (t', ht_map t (item_key it)) \<and> ht_inv t' \<and> ht_map t' = insert_spec (ht_map t) it replace)"
proof -
  obtain i where i: "hi_seek t (item_key it) = Inr (ht_map t (item_key it), i)" using hi_seek_map [OF assms] by blast
  show ?thesis
  proof (cases "i = -1")
    case False
    then show ?thesis using insert_at [OF assms i False, of replace] i by (simp add: ht_insert_def)
  next
    case True
    consider "GrowUp t = Inl MemFault" | t1 where "GrowUp t = Inr t1" "ht_inv t1" "ht_map t1 = ht_map t"
      using GrowUp_outcome [OF assms(1)] by blast
    then show ?thesis
    proof cases
      case 1
      then show ?thesis using i True by (simp add: ht_insert_def)
    next
      case 2
      obtain i1 where i1: "hi_seek t1 (item_key it) = Inr (ht_map t1 (item_key it), i1)"
        using hi_seek_map [OF 2(2) assms(2)] by blast
      show ?thesis
      proof (cases "i1 = -1")
        case True
        then show ?thesis using i i1 \<open>i = -1\<close> 2(1) by (simp add: ht_insert_def)
      next
        case False
        have "ht_insert t it replace = (if ht_map t1 (item_key it) = None \<or> replace
            then bindR (slot_put t1 i1 it) (\<lambda>t. Inr (t, ht_map t1 (item_key it))) else Inr (t1, ht_map t1 (item_key it)))"
          using i i1 \<open>i = -1\<close> False 2(1) by (simp add: ht_insert_def)
        then show ?thesis using insert_at [OF 2(2) assms(2) i1 False, of replace] 2(3) by simp
      qed
    qed
  qed
qed

text \<open>With a secondary hash prime to the size the probes visit every slot.\<close>

lemma probe_inj:
  assumes "coprime (HFuncHorner (int n) key) (int n)" and "i < n" and "j < n" and "probe n key i = probe n key j"
  shows "i = j"
proof -
  let ?b = "HFuncHorner (int n) key"
  have "0 < int n" using assms(2) by simp
  then have "(HFuncAddition (int n) key + int i * ?b) mod int n = (HFuncAddition (int n) key + int j * ?b) mod int n"
    using assms(4) by (simp add: probe_def nat_eq_iff2)
  then have "int n dvd (int i - int j) * ?b" by (simp add: mod_eq_dvd_iff algebra_simps)
  then have "int n dvd int i - int j" using assms(1) by (simp add: coprime_dvd_mult_left_iff coprime_commute)
  then have "int i mod int n = int j mod int n" by (simp add: mod_eq_dvd_iff)
  then show ?thesis using assms(2,3) by simp
qed

lemma probe_surj:
  assumes "coprime (HFuncHorner (int n) key) (int n)" and "p < n"
  obtains j where "j < n" "probe n key j = p"
proof -
  have "inj_on (probe n key) {..<n}" using probe_inj [OF assms(1)] by (auto intro: inj_onI)
  moreover have "probe n key ` {..<n} \<subseteq> {..<n}" using assms(2) by (auto simp: probe_less)
  ultimately have "probe n key ` {..<n} = {..<n}" by (intro endo_inj_surj) auto
  then show thesis using that assms(2) by (metis imageE lessThan_iff)
qed

lemma hi_seek_room:
  assumes "ht_inv t" and "good_key key" and "None \<in> set t" and "coprime (HFuncHorner (HSize t) key) (HSize t)"
  shows "hi_seek t key \<noteq> Inr (None, -1)"
proof -
  let ?n = "length t"
  note c = assms(4) [unfolded HSize_def]
  obtain p where p: "p < ?n" "t ! p = None" using assms(3) by (auto simp: in_set_conv_nth)
  obtain j0 where j0: "j0 < ?n" "probe ?n key j0 = p" using probe_surj [OF c p(1)] by blast
  have "\<exists>j. chain t key j \<and> \<not> chain t key (Suc j)"
    using chain_less [OF _ ht_inv_size [OF assms(1)]] by (metis chain_0 less_irrefl nat_induct)
  then obtain j where j: "chain t key j" "\<not> chain t key (Suc j)" by blast
  have "j \<le> j0"
  proof (rule ccontr)
    assume "\<not> j \<le> j0"
    then show False using j(1) p(2) j0(2) by (auto simp: chain_def not_le)
  qed
  show ?thesis
  proof (cases "\<exists>it. t ! probe ?n key j = Some it \<and> item_key it \<noteq> key")
    case True
    then have "j < j0" using p(2) j0(2) \<open>j \<le> j0\<close> by (metis le_neq_implies_less option.distinct(1))
    moreover have "probe ?n key (Suc j) = probe ?n key 0" using j True by (auto simp: chain_Suc)
    ultimately have False using probe_inj [OF c, of "Suc j" 0] j0(1) by (cases t) auto
    then show ?thesis ..
  next
    case False
    then show ?thesis
      using hi_seek_found [OF key_start [OF assms(1,2)] ht_inv_size [OF assms(1)] j(1)] hi_seek_free [OF key_start [OF assms(1,2)] ht_inv_size [OF assms(1)] j(1)]
      by (cases "t ! probe ?n key j") auto
  qed
qed

lemma ht_insert_room:
  assumes "ht_inv t" and "good_key (item_key it)"
    and "ht_map t (item_key it) \<noteq> None \<or> None \<in> set t \<and> coprime (HFuncHorner (HSize t) (item_key it)) (HSize t)"
  shows "\<exists>t'. ht_insert t it replace = Inr (t', ht_map t (item_key it)) \<and> length t' = length t"
proof -
  obtain i where i: "hi_seek t (item_key it) = Inr (ht_map t (item_key it), i)" using hi_seek_map [OF assms(1,2)] by blast
  have "i \<noteq> -1"
    using i key_start [OF assms(1,2)] ht_inv_size [OF assms(1)] assms(3) hi_seek_room [OF assms(1,2)]
    by (auto elim: hi_seek_cases)
  then show ?thesis
    using hi_seek_put [OF assms(1,2) i] i by (auto simp: ht_insert_def slot_put_def split: if_splits)
qed

section \<open>The interface of the configuration\<close>

text \<open>What the configuration relies on: a store that can be searched and extended, whose
  contents are a map, for the keys and the states it accepts.\<close>

locale key_store =
  fixes store_inv :: "'t \<Rightarrow> bool" and store_key :: "'k \<Rightarrow> bool" and contents :: "'t \<Rightarrow> 'k \<rightharpoonup> 'v"
    and store_seek :: "'t \<Rightarrow> 'k \<Rightarrow> 'v option res" and store_put :: "'t \<Rightarrow> 'k \<Rightarrow> 'v \<Rightarrow> 't res"
  assumes seek_contents: "store_inv t \<Longrightarrow> store_key k \<Longrightarrow> store_seek t k = Inr (contents t k)"
    and put_contents: "store_inv t \<Longrightarrow> store_key k \<Longrightarrow> store_put t k v = Inr t' \<Longrightarrow>
          store_inv t' \<and> contents t' = (contents t)(k \<mapsto> v)"
begin

lemma seek_put:
  assumes "store_inv t" and "store_key k" and "store_key k'" and "store_put t k v = Inr t'"
  shows "store_seek t' k' = (if k' = k then Inr (Some v) else store_seek t k')"
  using seek_contents put_contents assms by auto

lemma put_list_contents:
  assumes "store_inv t" and "list_all (\<lambda>(k, _). store_key k) kvs"
    and "foldl (\<lambda>r (k, v). bindR r (\<lambda>t. store_put t k v)) (Inr t) kvs = Inr t'"
  shows "store_inv t' \<and> contents t' = contents t ++ map_of (rev kvs)"
  using assms
proof (induction kvs arbitrary: t' rule: rev_induct)
  case (snoc kv kvs)
  obtain k v where kv: "kv = (k, v)" by (cases kv)
  from snoc.prems(3) obtain t1 where "foldl (\<lambda>r (k, v). bindR r (\<lambda>t. store_put t k v)) (Inr t) kvs = Inr t1"
      and p: "store_put t1 k v = Inr t'" by (auto simp: kv)
  then have "store_inv t1 \<and> contents t1 = contents t ++ map_of (rev kvs)" using snoc by simp
  moreover then have "store_inv t' \<and> contents t' = (contents t1)(k \<mapsto> v)"
    using put_contents [OF _ _ p] snoc.prems(2) by (simp add: kv)
  ultimately show ?case by (auto simp: kv map_add_def fun_eq_iff)
qed simp

end

text \<open>The table provides it for ASCII keys.\<close>

definition ht_contents :: "'b tableType \<Rightarrow> string \<rightharpoonup> 'b" where
  "ht_contents t key = Option.bind (ht_map t key) item_body"

definition ht_put :: "'b tableType \<Rightarrow> string \<Rightarrow> 'b \<Rightarrow> 'b tableType res" where
  "ht_put t key v = bindR (ht_insert_ptr t key (Some v) True) (\<lambda>(t, _). Inr t)"

lemma ht_seek_contents: "ht_inv t \<Longrightarrow> good_key key \<Longrightarrow> ht_seek t key = Inr (ht_contents t key)"
  using hi_seek_map [of t key] by (auto simp: ht_seek_def ht_seek_item_def ht_contents_def)

lemma ht_insert_contents:
  assumes "ht_inv t" and "good_key (item_key it)" and "ht_insert t it True = Inr (t', r)" and "item_body it = Some v"
  shows "ht_inv t' \<and> ht_contents t' = (ht_contents t)(item_key it \<mapsto> v)"
  using ht_insert_outcome [OF assms(1,2), of True] assms(3,4)
  by (auto simp: ht_contents_def insert_spec_def fun_eq_iff)

lemma ht_put_contents:
  "ht_inv t \<Longrightarrow> good_key key \<Longrightarrow> ht_put t key v = Inr t' \<Longrightarrow> ht_inv t' \<and> ht_contents t' = (ht_contents t)(key \<mapsto> v)"
  using ht_insert_contents [of t "\<lparr>item_key = key, item_body = Some v, purge_body = False\<rparr>"]
  by (auto simp: ht_put_def ht_insert_ptr_def)

interpretation ht: key_store ht_inv good_key ht_contents ht_seek ht_put
  by unfold_locales (simp_all add: ht_seek_contents ht_put_contents)

lemma ht_new_inv: "numEntries \<le> int HASH_MAXSIZE \<Longrightarrow> ht_inv (ht_new numEntries)"
  by (auto simp: ht_new_def intro!: ht_inv_empty)

lemma ht_clear_inv: "ht_inv t \<Longrightarrow> ht_inv (ht_clear t)"
  using ht_inv_empty [of "length t"] by (simp add: ht_clear_def ht_inv_def size_ok_def)

section \<open>Searches end\<close>

text \<open>Whatever the key, and whatever the contents of the table.\<close>

lemma hi_seek_ends: "size_ok t \<Longrightarrow> hi_seek t key \<noteq> Inl Diverges"
proof (cases "start_ok (length t) key")
  case True
  moreover assume "size_ok t"
  ultimately show ?thesis by (auto elim: hi_seek_cases)
next
  case False
  moreover assume "size_ok t"
  ultimately show ?thesis
    by (cases "length t") (auto simp: hi_seek_def start_ok_def HSize_def size_ok_def slot_at_def Let_def)
qed

lemma ht_seek_ends: "size_ok t \<Longrightarrow> ht_seek t key \<noteq> Inl Diverges"
  using hi_seek_ends by (auto simp: ht_seek_def ht_seek_item_def bindR_eq_Inl)

lemma slot_put_ends: "slot_put t i it \<noteq> Inl Diverges"
  and slot_put_size: "slot_put t i it = Inr t' \<Longrightarrow> size_ok t' = size_ok t"
  by (auto simp: slot_put_def size_ok_def split: if_splits)

lemma grow_copy_length: "grow_copy old t = Inr t' \<Longrightarrow> length t' = length t"
proof (induction old t rule: grow_copy.induct)
  case (3 it old t)
  then obtain r i where r: "hi_seek t (item_key it) = Inr (r, i)" by auto
  with 3 show ?case by (cases r) (auto simp: slot_put_def split: if_splits)
qed auto

lemma grow_copy_ends: "size_ok t \<Longrightarrow> grow_copy old t \<noteq> Inl Diverges"
proof (induction old t rule: grow_copy.induct)
  case (3 it old t)
  then show ?case
    by (auto simp: bindR_eq_Inl hi_seek_ends slot_put_ends slot_put_size split: option.splits)
qed auto

lemma GrowUp_ends: "size_ok t \<Longrightarrow> GrowUp t \<noteq> Inl Diverges"
  and GrowUp_size: "GrowUp t = Inr t' \<Longrightarrow> size_ok t'"
  using grow_copy_ends [of "replicate (if length t + HASH_INCREMENT < HASH_MAXSIZE then length t + HASH_INCREMENT else HASH_MAXSIZE) None" t]
    grow_copy_length [of t "replicate (if length t + HASH_INCREMENT < HASH_MAXSIZE then length t + HASH_INCREMENT else HASH_MAXSIZE) None" t']
  by (auto simp: GrowUp_def size_ok_def split: if_splits)

lemma ht_insert_ends: "size_ok t \<Longrightarrow> ht_insert t it replace \<noteq> Inl Diverges"
  by (auto simp: ht_insert_def bindR_eq_Inl hi_seek_ends GrowUp_ends slot_put_ends dest: GrowUp_size split: if_splits)

lemma ht_insert_size: "size_ok t \<Longrightarrow> ht_insert t it replace = Inr (t', r) \<Longrightarrow> size_ok t'"
  by (auto simp: ht_insert_def slot_put_size dest: GrowUp_size split: if_splits)

section \<open>Properties\<close>

text \<open>C23: The table implements a map from ASCII keys to items. In every state with the invariant,
  which a fresh table has, a search ends and returns exactly the item stored for the key;
  an insertion that returns gives back the previous item of the key, keeps the invariant and
  updates the map, with \<open>replace\<close> deciding whether an existing item is kept; otherwise it ends
  with a fault or the exception. It does return, without growing the table, if the key is
  present, or if a slot is free and the second hash is prime to the size.\<close>

theorem hash_table_refines_map:
  assumes "ht_inv t" and "good_key (item_key it)"
  shows "ht_seek_item t (item_key it) = Inr (ht_map t (item_key it))
    \<and> (case ht_insert t it replace of
         Inr (t', old) \<Rightarrow> old = ht_map t (item_key it) \<and> ht_inv t' \<and> ht_map t' = insert_spec (ht_map t) it replace
       | Inl e \<Rightarrow> e = MemFault \<or> e = HashTableException ''Table full and can't grow more'')
    \<and> (ht_map t (item_key it) \<noteq> None \<or> None \<in> set t \<and> coprime (HFuncHorner (HSize t) (item_key it)) (HSize t) \<longrightarrow>
         (\<exists>t' old. ht_insert t it replace = Inr (t', old) \<and> HSize t' = HSize t))"
proof (intro conjI impI)
  show "ht_seek_item t (item_key it) = Inr (ht_map t (item_key it))"
    using hi_seek_map [OF assms] by (auto simp: ht_seek_item_def)
  show "case ht_insert t it replace of
         Inr (t', old) \<Rightarrow> old = ht_map t (item_key it) \<and> ht_inv t' \<and> ht_map t' = insert_spec (ht_map t) it replace
       | Inl e \<Rightarrow> e = MemFault \<or> e = HashTableException ''Table full and can't grow more''"
    using ht_insert_outcome [OF assms, of replace] by auto
qed (use ht_insert_room [OF assms, of replace] in \<open>auto simp: HSize_def\<close>)

theorem hash_table_refines_map_witness:
  "ht_inv (ht_new 10 :: nat tableType) \<and> ht_seek_item (ht_new 10 :: nat tableType) ''a'' = Inr None
   \<and> (\<exists>t' old. ht_insert (ht_new 10) \<lparr>item_key = ''a'', item_body = Some (1::nat), purge_body = False\<rparr> False = Inr (t', old) \<and> HSize t' = 20)"
proof -
  let ?it = "\<lparr>item_key = ''a'', item_body = Some (1::nat), purge_body = False\<rparr>"
  have inv: "ht_inv (ht_new 10 :: nat tableType)" by (rule ht_new_inv) simp
  have n: "ht_new 10 = replicate 20 (None :: nat dsHashTableItem option)" by (simp add: ht_new_def)
  have "coprime (HFuncHorner 20 ''a'') 20" by code_simp
  then have "None \<in> set (ht_new 10 :: nat tableType) \<and> coprime (HFuncHorner (HSize (ht_new 10 :: nat tableType)) ''a'') (HSize (ht_new 10 :: nat tableType))"
    by (simp add: n HSize_def)
  then show ?thesis
    using hash_table_refines_map [OF inv, of ?it False] inv by (simp add: good_key_def n HSize_def)
qed

lemma single_probe:
  assumes "ht_inv t" and "Some it \<in> set t" and "HFuncHorner (HSize t) (item_key it) = 0"
  shows "t ! probe (length t) (item_key it) 0 = Some it"
proof -
  obtain i where i: "i < length t" "t ! i = Some it" using assms(2) by (auto simp: in_set_conv_nth)
  then obtain j where "probe (length t) (item_key it) j = i" using assms(1) by (auto simp: ht_inv_def)
  moreover have "probe (length t) (item_key it) j = probe (length t) (item_key it) 0"
    using assms(3) by (simp add: probe_def HSize_def)
  ultimately show ?thesis using i(2) by simp
qed

lemma single_probe_blocked:
  assumes "ht_inv t" and "Some it \<in> set t" and "HFuncHorner (HSize t) (item_key it) = 0"
    and "good_key key" and "key \<noteq> item_key it" and "HFuncHorner (HSize t) key = 0"
    and "HFuncAddition (HSize t) key = HFuncAddition (HSize t) (item_key it)"
  shows "hi_seek t key = Inr (None, -1)"
proof -
  have p: "probe (length t) key j = probe (length t) (item_key it) 0" for j
    using assms(6,7) by (simp add: probe_def HSize_def)
  show ?thesis
    using hi_seek_full [OF key_start [OF assms(1,4)] ht_inv_size [OF assms(1)] chain_0, of it] single_probe [OF assms(1-3)] assms(5)
    by (simp add: p)
qed

text \<open>Insertion may fail in an almost empty table: if the second hash of two keys is zero at
  the current size and at the next one and their first hashes agree, then while one of the keys is
  stored the other one cannot be inserted, whatever the number of free slots.\<close>

theorem insert_refused_with_room:
  assumes "ht_inv t" and "Some it1 \<in> set t" and "good_key (item_key it2)" and "item_key it2 \<noteq> item_key it1"
    and "length t + HASH_INCREMENT < HASH_MAXSIZE"
    and "\<forall>h\<in>{HSize t, HSize t + 1024}. HFuncHorner h (item_key it1) = 0 \<and> HFuncHorner h (item_key it2) = 0
           \<and> HFuncAddition h (item_key it2) = HFuncAddition h (item_key it1)"
  shows "ht_insert t it2 replace \<in> {Inl MemFault, Inl (HashTableException ''Table full and can't grow more'')}"
proof -
  have i: "hi_seek t (item_key it2) = Inr (None, -1)"
    using single_probe_blocked [OF assms(1,2) _ assms(3,4)] assms(6) by simp
  consider "GrowUp t = Inl MemFault" | t1 where "GrowUp t = Inr t1" "ht_inv t1" "ht_map t1 = ht_map t"
    using GrowUp_outcome [OF assms(1)] by blast
  then show ?thesis
  proof cases
    case 1
    then show ?thesis using i by (simp add: ht_insert_def)
  next
    case 2
    have "Some it1 \<in> set t1" using ht_map_Some [OF 2(2)] ht_map_Some [OF assms(1)] 2(3) assms(2) by metis
    moreover have "HSize t1 = HSize t + 1024"
      using 2(1) assms(5) grow_copy_length by (fastforce simp: GrowUp_def HSize_def split: if_splits)
    ultimately have "hi_seek t1 (item_key it2) = Inr (None, -1)"
      using single_probe_blocked [OF 2(2) _ _ assms(3,4)] assms(6) by simp
    then show ?thesis using i 2(1) by (simp add: ht_insert_def)
  qed
qed

theorem insert_refused_with_room_witness:
  "\<exists>t. ht_insert (ht_new 10) \<lparr>item_key = ''ozk'', item_body = Some (1::nat), purge_body = False\<rparr> False = Inr (t, None)
     \<and> NumEntries t = 1
     \<and> ht_insert t \<lparr>item_key = ''stm'', item_body = Some 2, purge_body = False\<rparr> True
       \<in> {Inl MemFault, Inl (HashTableException ''Table full and can't grow more'')}"
proof -
  let ?it1 = "\<lparr>item_key = ''ozk'', item_body = Some (1::nat), purge_body = False\<rparr>"
    and ?it2 = "\<lparr>item_key = ''stm'', item_body = Some (2::nat), purge_body = False\<rparr>"
  let ?t = "Some ?it1 # replicate 19 None"
  have ins: "ht_insert (ht_new 10) ?it1 False = Inr (?t, None)" by code_simp
  have inv: "ht_inv (ht_new 10 :: nat tableType)" by (rule ht_new_inv) simp
  have "ht_inv ?t" using ht_insert_outcome [OF inv, of ?it1 False] ins by (auto simp: good_key_def)
  moreover have "HFuncHorner 20 ''ozk'' = 0" "HFuncHorner 20 ''stm'' = 0" "HFuncHorner 1044 ''ozk'' = 0" "HFuncHorner 1044 ''stm'' = 0"
    "HFuncAddition 20 ''stm'' = HFuncAddition 20 ''ozk''" "HFuncAddition 1044 ''stm'' = HFuncAddition 1044 ''ozk''"
    by code_simp+
  ultimately have "ht_insert ?t ?it2 True \<in> {Inl MemFault, Inl (HashTableException ''Table full and can't grow more'')}"
    by (intro insert_refused_with_room [where ?it1.0 = ?it1]) (simp_all add: good_key_def HSize_def)
  moreover have "NumEntries ?t = 1" by (simp add: NumEntries_def)
  ultimately show ?thesis using ins by blast
qed

text \<open>Removal loses other keys: after inserting two keys with the same first hash and removing
  the first one, the search no longer finds the second, although its item is still in the
  table.\<close>

theorem remove_hides_other_key:
  "bindR (ht_insert_ptr (ht_new 10) ''ab'' (Some 1) False) (\<lambda>(t, _).
   bindR (ht_insert_ptr t ''ba'' (Some 2) False) (\<lambda>(t, _).
   bindR (ht_remove t ''ab'') (\<lambda>(t, _).
   bindR (ht_seek t ''ba'') (\<lambda>found.
   Inr (found, map item_body (ht_items t), NumEntries t))))) = Inr (None, [Some (2 :: nat)], 1)"
  by code_simp

end
