(* ===== verification/Printf.thy ===== *)
theory Printf
  imports Prelude
begin

text \<open>
  The conversions of the \<open>printf\<close> family that the program's messages use, and the C string
  held in a byte array.
\<close>

definition digit_char :: "bool \<Rightarrow> nat \<Rightarrow> char" where
  "digit_char upper d =
     (if d < 10 then char_of (d + 48) else char_of (d - 10 + (if upper then 65 else 97)))"

function show_base :: "bool \<Rightarrow> nat \<Rightarrow> nat \<Rightarrow> string" where
  "show_base upper b n =
     (if n < b \<or> b < 2 then [digit_char upper n]
      else show_base upper b (n div b) @ [digit_char upper (n mod b)])"
  by auto
termination by (relation "measure (\<lambda>(_, _, n). n)") auto

declare show_base.simps [simp del]

text \<open>\<open>%u\<close>, \<open>%d\<close>, \<open>%x\<close> and \<open>%02X\<close>.\<close>

definition show_nat :: "nat \<Rightarrow> string" where
  "show_nat n = show_base False 10 n"

definition show_int :: "int \<Rightarrow> string" where
  "show_int i = (if i < 0 then CHR ''-'' # show_nat (nat (- i)) else show_nat (nat i))"

definition show_hex :: "nat \<Rightarrow> string" where
  "show_hex n = show_base False 16 n"

definition show_02X :: "u8 \<Rightarrow> string" where
  "show_02X b = [digit_char True (unat b div 16), digit_char True (unat b mod 16)]"

text \<open>\<open>'%s'\<close>.\<close>

definition quoted :: "string \<Rightarrow> string" where
  "quoted s = [CHR 0x27] @ s @ [CHR 0x27]"

text \<open>Decimal digits, and \<open>strchr\<close> as a position.\<close>

definition digit_value :: "char \<Rightarrow> int" where
  "digit_value c = int (of_char c) - 48"

definition is_digit :: "char \<Rightarrow> bool" where
  "is_digit c \<longleftrightarrow> 48 \<le> (of_char c :: nat) \<and> (of_char c :: nat) \<le> 57"

fun strchr :: "string \<Rightarrow> char \<Rightarrow> nat option" where
  "strchr [] c = None"
| "strchr (x # xs) c = (if x = c then Some 0 else map_option Suc (strchr xs c))"

lemma is_digit_digit_char: "d < 10 \<Longrightarrow> is_digit (digit_char u d)" "d < 10 \<Longrightarrow> digit_value (digit_char u d) = int d"
  by (simp_all add: is_digit_def digit_value_def digit_char_def of_char_of)

text \<open>The C string at the start of an array; without a terminator the read leaves the array.\<close>

fun cstr :: "bytes \<Rightarrow> string res" where
  "cstr [] = Inl MemFault"
| "cstr (b # bs) = (if b = 0 then Inr [] else bindR (cstr bs) (\<lambda>s. Inr (char_of_byte b # s)))"

lemma show_base_nonempty [simp]: "show_base u b n \<noteq> []"
  by (subst show_base.simps) simp

lemma show_nat_nonempty [simp]: "show_nat n \<noteq> []"
  by (simp add: show_nat_def)

lemma cstr_bytes_of_string:
  "CHR 0x00 \<notin> set s \<Longrightarrow> cstr (bytes_of_string s @ 0 # rest) = Inr s"
proof (induction s)
  case (Cons c s)
  have "byte_of_char c \<noteq> 0"
  proof
    assume "byte_of_char c = 0"
    then have "byte_of_char c = byte_of_char (CHR 0x00)" by simp
    then show False using Cons.prems by (simp del: byte_of_char_Char)
  qed
  with Cons show ?case by simp
qed simp

end
