(* ===== verification/Apprc.thy ===== *)
theory Apprc
  imports HashTable Printf
begin

text \<open>
  \<open>src/src/share/dsApprc.h\<close> and \<open>dsApprc.cxx\<close>: the configuration. Keys and values live in a hash
  table; \<open>keyst\<close> is the prefix for relative keys with the size of its allocation. The environment
  and the files are parameters: \<open>getenv\<close>, and for every name the content of the file or the text
  of the error. C strings are HOL strings without terminator, so texts have no null character.
\<close>

record rc_env =
  getenv :: "string \<Rightarrow> string option"
  file_text :: "string \<Rightarrow> string + string"

record dsApprc =
  rc_h :: "string tableType"
  recursion_cnt :: nat
  keyst :: "(string \<times> nat) option"
  kslen :: nat
  key_delim :: char

abbreviation MAX_RC_LINE :: nat where "MAX_RC_LINE \<equiv> 1024"
abbreviation MAX_INCLUDE_LEVEL :: nat where "MAX_INCLUDE_LEVEL \<equiv> 10"

definition dsApprc_new :: dsApprc where
  "dsApprc_new = \<lparr>rc_h = ht_new 256, recursion_cnt = 0, keyst = None, kslen = 0, key_delim = CHR ''-''\<rparr>"

definition set_delimiter :: "dsApprc \<Rightarrow> char \<Rightarrow> dsApprc" where
  "set_delimiter rc delim = rc\<lparr>key_delim := delim\<rparr>"

section \<open>C strings\<close>

text \<open>A character by position, \<open>%02d\<close>, \<open>atol\<close> and the conversion of its result to \<open>int\<close>.\<close>

definition char_at :: "string \<Rightarrow> nat \<Rightarrow> char option" where
  "char_at s i = (if i < length s then Some (s ! i) else None)"

definition show_02d :: "int \<Rightarrow> string" where
  "show_02d i = (let s = show_int i in if length s < 2 then CHR ''0'' # s else s)"

definition atol_digits :: "string \<Rightarrow> int" where
  "atol_digits s = foldl (\<lambda>n c. 10 * n + digit_value c) 0 (takeWhile is_digit s)"

definition c_isspace :: "char \<Rightarrow> bool" where
  "c_isspace c \<longleftrightarrow> (of_char c :: nat) \<in> {9, 10, 11, 12, 13, 32}"

definition atol :: "string \<Rightarrow> int" where
  "atol s =
     (let s = dropWhile c_isspace s;
          n = (case s of [] \<Rightarrow> 0
               | c # t \<Rightarrow> if c = CHR ''-'' then - atol_digits t else if c = CHR ''+'' then atol_digits t else atol_digits s) in
      max (- (2 ^ 63)) (min (2 ^ 63 - 1) n))"

section \<open>Searching\<close>

definition rc_seek :: "dsApprc \<Rightarrow> string \<Rightarrow> string option res" where
  "rc_seek rc key =
     (case keyst rc of
        Some (ks, _) \<Rightarrow> if char_at key 0 = Some (key_delim rc) then ht_seek (rc_h rc) (ks @ key) else ht_seek (rc_h rc) key
      | None \<Rightarrow> ht_seek (rc_h rc) key)"

text \<open>The buffer for an array element has ten bytes more than the key.\<close>

definition rc_seek_idx :: "dsApprc \<Rightarrow> string \<Rightarrow> int \<Rightarrow> string option res" where
  "rc_seek_idx rc key idx =
     (if length (show_02d idx) > 8 then Inl MemFault else rc_seek rc (key @ ''-'' @ show_02d idx))"

definition undefined_key :: "dsApprc \<Rightarrow> string \<Rightarrow> 'a res" where
  "undefined_key rc key =
     (case keyst rc of
        Some (ks, _) \<Rightarrow> if char_at key 0 = Some (key_delim rc) then Inl (INIException (''Key ('' @ ks @ '')'' @ key @ '' not defined. ''))
                       else Inl (INIException (''Key '' @ key @ '' not defined. ''))
      | None \<Rightarrow> Inl (INIException (''Key '' @ key @ '' not defined. '')))"

definition getstring :: "dsApprc \<Rightarrow> string \<Rightarrow> string res" where
  "getstring rc key = bindR (rc_seek rc key) (\<lambda>sp. case sp of None \<Rightarrow> undefined_key rc key | Some v \<Rightarrow> Inr v)"

definition getstring_default :: "dsApprc \<Rightarrow> string \<Rightarrow> string \<Rightarrow> string res" where
  "getstring_default rc key defval = bindR (rc_seek rc key) (\<lambda>sp. Inr (case sp of None \<Rightarrow> defval | Some v \<Rightarrow> v))"

definition getstring_idx :: "dsApprc \<Rightarrow> string \<Rightarrow> int \<Rightarrow> string res" where
  "getstring_idx rc key idx = bindR (rc_seek_idx rc key idx) (\<lambda>sp. case sp of None \<Rightarrow> undefined_key rc key | Some v \<Rightarrow> Inr v)"

definition truthy :: "string \<Rightarrow> bool" where
  "truthy s \<longleftrightarrow> (case s of [] \<Rightarrow> False | c # _ \<Rightarrow> c \<in> {CHR ''y'', CHR ''Y'', CHR ''t'', CHR ''T'', CHR ''1''})"

definition getbool :: "dsApprc \<Rightarrow> string \<Rightarrow> bool res" where
  "getbool rc key = bindR (getstring rc key) (\<lambda>v. Inr (truthy v))"

definition getbool_default :: "dsApprc \<Rightarrow> string \<Rightarrow> bool \<Rightarrow> bool res" where
  "getbool_default rc key defval = bindR (rc_seek rc key) (\<lambda>sp. Inr (case sp of None \<Rightarrow> defval | Some v \<Rightarrow> truthy v))"

definition getlong :: "dsApprc \<Rightarrow> string \<Rightarrow> int res" where
  "getlong rc key = bindR (getstring rc key) (\<lambda>v. Inr (atol v))"

definition getlong_default :: "dsApprc \<Rightarrow> string \<Rightarrow> int \<Rightarrow> int res" where
  "getlong_default rc key defval = bindR (rc_seek rc key) (\<lambda>sp. Inr (case sp of None \<Rightarrow> defval | Some v \<Rightarrow> atol v))"

definition getint :: "dsApprc \<Rightarrow> string \<Rightarrow> int res" where
  "getint rc key = bindR (getstring rc key) (\<lambda>v. Inr (s32 (atol v)))"

definition getint_default :: "dsApprc \<Rightarrow> string \<Rightarrow> int \<Rightarrow> int res" where
  "getint_default rc key defval = bindR (rc_seek rc key) (\<lambda>sp. Inr (case sp of None \<Rightarrow> defval | Some v \<Rightarrow> s32 (atol v)))"

definition has_key :: "dsApprc \<Rightarrow> string \<Rightarrow> bool res" where
  "has_key rc key = bindR (rc_seek rc key) (\<lambda>sp. Inr (sp \<noteq> None))"

definition walk_size :: "dsApprc \<Rightarrow> int" where
  "walk_size rc = HSize (rc_h rc)"

definition rc_walk :: "dsApprc \<Rightarrow> int \<Rightarrow> string option res" where
  "rc_walk rc idx =
     (if idx \<ge> HSize (rc_h rc) then Inr None
      else bindR (ht_walk (rc_h rc) idx) (\<lambda>tmp. Inr (map_option item_key tmp)))"

section \<open>The key stack\<close>

text \<open>Writing more characters than the allocation holds is a fault.\<close>

definition rc_push :: "dsApprc \<Rightarrow> string \<Rightarrow> dsApprc res" where
  "rc_push rc key =
     (case keyst rc of
        None \<Rightarrow> Inr (rc\<lparr>keyst := Some (key, length key + 1), kslen := length key\<rparr>)
      | Some (ks, alloc) \<Rightarrow>
          let (alloc, klen) = (if length ks + length key + 1 \<ge> kslen rc then (length ks + length key + 2, length ks + length key + 2)
                              else (alloc, kslen rc)) in
          if length ks + 1 + length key + 1 > alloc then Inl MemFault
          else Inr (rc\<lparr>keyst := Some (ks @ [key_delim rc] @ key, alloc), kslen := klen\<rparr>))"

definition rc_push_int :: "dsApprc \<Rightarrow> int \<Rightarrow> dsApprc res" where
  "rc_push_int rc array_key =
     (if length (show_02d array_key) + 1 > 10 then Inl MemFault else rc_push rc (show_02d array_key))"

text \<open>\<open>strrchr\<close> looks for the hyphen, whatever the delimiter.\<close>

definition rc_pop :: "dsApprc \<Rightarrow> dsApprc res" where
  "rc_pop rc =
     (case keyst rc of
        None \<Rightarrow> Inl (KeyException ''Key stack underflow'')
      | Some (ks, alloc) \<Rightarrow>
          if ks = [] then Inl (KeyException ''Key stack underflow'')
          else (case strchr (rev ks) (CHR ''-'') of
                  None \<Rightarrow> Inr (rc\<lparr>keyst := None, kslen := 0\<rparr>)
                | Some p \<Rightarrow> Inr (rc\<lparr>keyst := Some (take (length ks - p - 1) ks, alloc)\<rparr>)))"

section \<open>Variables\<close>

definition WORD_BRAKES :: string where
  "WORD_BRAKES = [CHR 0x09, CHR '' '', CHR '','', CHR '';'', CHR '':'', CHR ''!'', CHR ''?'', CHR ''$'', CHR ''#'', CHR ''@'',
     CHR ''/'', CHR 0x22, CHR ''{'', CHR ''('', CHR ''}'', CHR '')'', CHR 0x5C]"

text \<open>The value and the number of characters of the reference, the dollar sign included.\<close>

definition expand_var :: "rc_env \<Rightarrow> dsApprc \<Rightarrow> string \<Rightarrow> (string \<times> nat) res" where
  "expand_var e rc name =
     (let env = (char_at name 0 = Some (CHR ''$''));
          s = (if env then drop 1 name else name);
          bracket = (if char_at s 0 = Some (CHR ''('') then Some (CHR '')'')
                     else if char_at s 0 = Some (CHR ''{'') then Some (CHR ''}'') else None);
          s = (if bracket \<noteq> None then drop 1 s else s);
          rname = takeWhile (\<lambda>c. Some c \<noteq> bracket \<and> \<not> (bracket = None \<and> c \<in> set WORD_BRAKES)) s in
      if bracket \<noteq> None \<and> length rname = length s then Inl (KeyException (''Unclosed bracket '' @ quoted [the bracket]))
      else
        let vlen = length rname + (if bracket \<noteq> None then 2 else 0) + 1 + (if env then 1 else 0) in
        bindR (rc_seek rc rname) (\<lambda>c.
        case (if c = None \<and> env then getenv e rname else c) of
          None \<Rightarrow> Inl (KeyException (''Undefined variable '' @ quoted rname))
        | Some v \<Rightarrow> Inr (v, vlen)))"

section \<open>Adding keys\<close>

text \<open>A key of fewer than three characters makes the test for an array read before its start.\<close>

definition rc_add2 :: "dsApprc \<Rightarrow> string \<Rightarrow> string \<Rightarrow> dsApprc res" where
  "rc_add2 rc key val =
     (let klen = length key in
      if klen < 3 then Inl MemFault
      else if key ! (klen - 3) = key_delim rc \<and> key ! (klen - 2) = CHR ''['' \<and> key ! (klen - 1) = CHR '']'' then
        let counter_name = take (klen - 3) key @ ''-count'' in
        bindR (getlong_default rc counter_name 0) (\<lambda>n.
        let count = s32 n in
        bindR (ht_insert_ptr (rc_h rc) (take (klen - 3) key @ ''-'' @ show_02d count) (Some val) True) (\<lambda>(h, _).
        bindR (ht_insert_copy h counter_name (show_int (s32 (count + 1))) True) (\<lambda>(h, _).
        Inr (rc\<lparr>rc_h := h\<rparr>))))
      else
        bindR (ht_insert_ptr (rc_h rc) key (Some val) True) (\<lambda>(h, _). Inr (rc\<lparr>rc_h := h\<rparr>)))"

definition is_blank :: "char \<Rightarrow> bool" where
  "is_blank c \<longleftrightarrow> c = CHR '' '' \<or> c = CHR 0x09 \<or> c = CHR 0x0A"

definition is_gap :: "char \<Rightarrow> bool" where
  "is_gap c \<longleftrightarrow> c = CHR '' '' \<or> c = CHR 0x09"

text \<open>What a backslash and the next character stand for: the label \<open>deafult\<close> is no \<open>default\<close>, so
  that an unknown escape stands for nothing.\<close>

definition escaped :: "char option \<Rightarrow> string" where
  "escaped c =
     (if c = Some (CHR ''n'') then [CHR 0x0A] else if c = Some (CHR ''r'') then [CHR 0x0D]
      else if c = Some (CHR ''t'') then [CHR 0x09] else if c = Some (CHR ''{'') then [CHR ''{'']
      else if c = Some (CHR ''}'') then [CHR ''}''] else if c = Some (CHR 0x5C) then [CHR 0x5C] else [])"

lemma expand_var_advances: "expand_var e rc name = Inr (v, n) \<Longrightarrow> 0 < n"
  by (auto simp: expand_var_def Let_def split: if_splits option.splits)

text \<open>The loop of \<open>_add\<close> over the rest \<open>s\<close> of the line: \<open>trail\<close> characters follow \<open>eol\<close>, \<open>val\<close> is
  \<open>None\<close> while the key is read.\<close>

function add_loop :: "rc_env \<Rightarrow> dsApprc \<Rightarrow> string \<Rightarrow> nat \<Rightarrow> string \<Rightarrow> int \<Rightarrow> string \<Rightarrow> string option \<Rightarrow> (int \<times> string \<times> string option) res" where
  "add_loop e rc line trail s lit key val =
     (let emit = (\<lambda>t. case val of None \<Rightarrow> (key @ t, None) | Some v \<Rightarrow> (key, Some (v @ t))) in
      case s of
        [] \<Rightarrow> Inr (lit, key, val)
      | c # t \<Rightarrow>
          if length s \<le> trail then Inr (lit, key, val)
          else if c = CHR 0x5C then
            add_loop e rc line trail (drop 2 s) lit (fst (emit (escaped (char_at t 0)))) (snd (emit (escaped (char_at t 0))))
          else if c = CHR ''{'' then add_loop e rc line trail t (lit + 1) key val
          else if c = CHR ''}'' then
            if lit - 1 < 0 then Inl (KeyException (''Unbalanced '' @ quoted ''}'' @ '' in literal.'' @ quoted line))
            else add_loop e rc line trail t (lit - 1) key val
          else if is_gap c \<and> lit = 0 \<and> val = None then add_loop e rc line trail t lit key val
          else if c = CHR ''$'' then
            bindR (expand_var e rc t) (\<lambda>(res, n).
            add_loop e rc line trail (drop n s) lit (fst (emit res)) (snd (emit res)))
          else if c = CHR ''='' \<and> lit = 0 \<and> val = None then
            add_loop e rc line trail (dropWhile is_gap t) lit key (Some [])
          else add_loop e rc line trail t lit (fst (emit [c])) (snd (emit [c])))"
  by pat_completeness auto
termination
  by (relation "measure (\<lambda>(_, _, _, _, s, _, _, _). length s)")
    (auto dest: expand_var_advances intro: le_imp_less_Suc [OF length_dropWhile_le])

declare add_loop.simps [simp del]

definition rc_add_line :: "rc_env \<Rightarrow> dsApprc \<Rightarrow> string \<Rightarrow> dsApprc res" where
  "rc_add_line e rc line =
     (let trail = length (takeWhile is_blank (rev line)) in
      if trail = length line then Inl MemFault
      else
        bindR (add_loop e rc line trail line 0 [] None) (\<lambda>(lit, key, val).
        case val of
          None \<Rightarrow> Inl (KeyException (''Invalid line format. No unescaped '' @ quoted ''='' @ '' tag''))
        | Some v \<Rightarrow>
            if lit \<noteq> 0 then Inl (KeyException (''Unbalanced '' @ quoted ''{'' @ '' in literal.'' @ quoted line))
            else rc_add2 rc key v))"

definition rc_add :: "rc_env \<Rightarrow> dsApprc \<Rightarrow> string \<Rightarrow> string \<Rightarrow> dsApprc res" where
  "rc_add e rc key val = rc_add_line e rc (key @ ''='' @ val)"

definition rc_add_int :: "rc_env \<Rightarrow> dsApprc \<Rightarrow> string \<Rightarrow> int \<Rightarrow> dsApprc res" where
  "rc_add_int e rc key val = rc_add e rc key (show_int val)"

section \<open>Conditions\<close>

text \<open>A blank text makes \<open>trim\<close> read before its start.\<close>

definition trim :: "string \<Rightarrow> string res" where
  "trim src =
     (let s = dropWhile is_blank src in
      if s = [] then Inl MemFault else Inr (rev (dropWhile is_blank (rev s))))"

text \<open>The right-hand side starts three characters after the operator; if the condition is
  shorter, what is read there is not part of it.\<close>

function expand_condition :: "rc_env \<Rightarrow> dsApprc \<Rightarrow> string \<Rightarrow> bool res" where
  "expand_condition e rc cond =
     (case strchr cond (CHR ''='') of
        None \<Rightarrow> Inl (KeyException ''invalid condition format'')
      | Some q \<Rightarrow>
          bindR (if 0 < q \<and> char_at cond (q - 1) = Some (CHR ''!'') then Inr (False, q - 1)
                 else if char_at cond (q + 1) = Some (CHR ''='') then Inr (True, q)
                 else Inl (KeyException ''invalid condition format'')) (\<lambda>(condition, p).
          if length cond < p + 3 then Inl MemFault
          else
            let lh = take p cond; rh = drop (p + 3) cond in
            bindR (case strchr rh (CHR ''&'') of
                     None \<Rightarrow> Inr (condition, rh)
                   | Some i \<Rightarrow>
                       if char_at rh (i + 1) = Some (CHR ''&'')
                       then bindR (expand_condition e rc (drop (i + 2) rh)) (\<lambda>r. Inr (condition \<and> r, take i rh))
                       else Inr (condition, rh)) (\<lambda>(condition, rh).
            bindR (case strchr rh (CHR ''|'') of
                     None \<Rightarrow> Inr (condition, rh)
                   | Some i \<Rightarrow>
                       if char_at rh (i + 1) = Some (CHR ''|'')
                       then bindR (expand_condition e rc (drop (i + 2) rh)) (\<lambda>r. Inr (condition \<or> r, take i rh))
                       else Inr (condition, rh)) (\<lambda>(condition, rh).
            bindR (trim lh) (\<lambda>lh.
            bindR (trim rh) (\<lambda>rh.
            bindR (if char_at lh 0 = Some (CHR ''$'') then bindR (expand_var e rc (drop 1 lh)) (\<lambda>(c, _). Inr c) else Inr lh) (\<lambda>c.
            Inr (if condition then c = rh else c \<noteq> rh))))))))"
  by pat_completeness auto
termination
  by (relation "measure (\<lambda>(_, _, cond). length cond)") (auto split: option.splits if_splits)

declare expand_condition.simps [simp del]

section \<open>Loading\<close>

definition include_syntax :: exn where
  "include_syntax = KeyException (''Invalid include syntax. Use .include '' @ [CHR 0x22] @ ''filename'' @ [CHR 0x22])"

text \<open>The name between the quotes, from the character after the first one.\<close>

function include_loop :: "rc_env \<Rightarrow> dsApprc \<Rightarrow> string \<Rightarrow> string \<Rightarrow> string res" where
  "include_loop e rc s tmp =
     (case s of
        [] \<Rightarrow> Inl include_syntax
      | c # t \<Rightarrow>
          if c = CHR 0x22 then (if tmp = [] then Inl include_syntax else Inr tmp)
          else if c = CHR ''$'' then bindR (expand_var e rc t) (\<lambda>(res, n). include_loop e rc (drop n s) (tmp @ res))
          else include_loop e rc t (tmp @ [c]))"
  by pat_completeness auto
termination
  by (relation "measure (\<lambda>(_, _, s, _). length s)") (auto dest: expand_var_advances)

declare include_loop.simps [simp del]

definition include_name :: "rc_env \<Rightarrow> dsApprc \<Rightarrow> string \<Rightarrow> string res" where
  "include_name e rc s =
     (case dropWhile (\<lambda>c. c \<noteq> CHR 0x22) s of [] \<Rightarrow> Inl include_syntax | _ # t \<Rightarrow> include_loop e rc t [])"

text \<open>The lines that \<open>getline\<close> delivers before the end of the file: an unterminated last line is
  delivered only if it is too long for the buffer.\<close>

function stream_lines :: "string \<Rightarrow> string list" where
  "stream_lines s =
     (let l = takeWhile (\<lambda>c. c \<noteq> CHR 0x0A) s in
      if length l = length s then (if length l > MAX_RC_LINE - 2 then [l] else [])
      else l # stream_lines (drop (length l + 1) s))"
  by pat_completeness auto
termination
proof (relation "measure length")
  show "(drop (length l + 1) s, s) \<in> measure length"
    if "l = takeWhile (\<lambda>c. c \<noteq> CHR 0x0A) s" "length l \<noteq> length s" for s l :: string
    using that by (cases s) auto
qed simp

declare stream_lines.simps [simp del]

text \<open>The handler of \<open>load\<close>: \<open>keyException\<close> and the derived \<open>INIException\<close> get the line number.\<close>

fun at_line :: "nat \<Rightarrow> 'a res \<Rightarrow> 'a res" where
  "at_line line (Inl (KeyException m)) = Inl (KeyException (''Error: '' @ show_nat line @ '': '' @ m))"
| "at_line line (Inl (INIException m)) = Inl (KeyException (''Error: '' @ show_nat line @ '': '' @ m))"
| "at_line line r = r"

abbreviation starts :: "string \<Rightarrow> string \<Rightarrow> bool" where
  "starts p s \<equiv> take (length p) s = p"

text \<open>
  The loop of \<open>load\<close> over the lines. \<open>ign\<close> is \<open>ignore[0..lev]\<close>, innermost first, of at most 30
  entries. \<open>fuel\<close> bounds the depth of included files; 11 is enough (lemma \<open>ends_load_lines\<close>). A
  line that does not fit the buffer sets the fail bit of the stream: its start is processed, and
  from then on every \<open>getline\<close> delivers an empty line without reaching the end.
\<close>

function load_lines :: "nat \<Rightarrow> rc_env \<Rightarrow> dsApprc \<Rightarrow> nat \<Rightarrow> bool list \<Rightarrow> string list \<Rightarrow> dsApprc res" where
  "load_lines fuel e rc line ign [] =
     at_line line (if length ign \<noteq> 1 then Inl (KeyException ''Unexpected end of file (unclosed .if)'') else Inr rc)"
| "load_lines fuel e rc line ign (l # ls) =
     (let line = line + 1;
          buf = dropWhile is_gap (take (MAX_RC_LINE - 2) l);
          continue = (\<lambda>rc ign. if length l > MAX_RC_LINE - 2 then Inl Diverges else load_lines fuel e rc line ign ls) in
      if buf = [] \<or> hd buf = CHR ''#'' \<or> hd buf = CHR '';'' then continue rc ign
      else if starts ''.include'' buf then
        bindR (at_line line
          (if recursion_cnt rc > MAX_INCLUDE_LEVEL then Inl (KeyException ''Too many nested includes.'')
           else
             let rc = rc\<lparr>recursion_cnt := recursion_cnt rc + 1\<rparr> in
             bindR (include_name e rc (drop 8 buf)) (\<lambda>fname.
             if fuel = 0 then Inl Diverges
             else (case file_text e fname of
                     Inl err \<Rightarrow> Inl (KeyException (''Can't open file '' @ quoted fname @ '' ('' @ err @ '')''))
                   | Inr text \<Rightarrow>
                       bindR (rc_add e rc ''.file-[]'' fname) (\<lambda>rc.
                       load_lines (fuel - 1) e rc 0 [False] (stream_lines text)))))) (\<lambda>rc.
        continue rc ign)
      else if starts ''.if'' buf then
        bindR (at_line line (expand_condition e rc (drop 3 buf))) (\<lambda>c.
        if length ign \<ge> 30 then Inl MemFault else continue rc ((\<not> c) # ign))
      else if starts ''.endif'' buf then
        if length ign \<le> 1 then at_line line (Inl (KeyException ''unmaptched .endif'')) else continue rc (tl ign)
      else if starts ''.else'' buf then continue rc ((\<not> hd ign) # tl ign)
      else if starts ''.end'' buf then
        at_line line (if length ign \<noteq> 1 then Inl (KeyException ''Unexpected end of file (unclosed .if)'') else Inr rc)
      else if list_ex id ign then continue rc ign
      else bindR (at_line line (rc_add_line e rc buf)) (\<lambda>rc. continue rc ign))"
  by pat_completeness auto
termination
  by (relation "inv_image (less_than <*lex*> less_than) (\<lambda>(fuel, _, _, _, _, ls). (fuel, length ls))") auto

declare load_lines.simps [simp del]

definition load_stream :: "rc_env \<Rightarrow> dsApprc \<Rightarrow> string \<Rightarrow> dsApprc res" where
  "load_stream e rc text = load_lines 11 e rc 0 [False] (stream_lines text)"

definition load_file :: "rc_env \<Rightarrow> dsApprc \<Rightarrow> string \<Rightarrow> dsApprc res" where
  "load_file e rc fname =
     (case file_text e fname of
        Inl err \<Rightarrow> Inl (KeyException (''Can't open file '' @ quoted fname @ '' ('' @ err @ '')''))
      | Inr text \<Rightarrow> bindR (rc_add e rc ''.file-[]'' fname) (\<lambda>rc. load_stream e rc text))"

definition dsApprc_file :: "rc_env \<Rightarrow> string \<Rightarrow> dsApprc res" where
  "dsApprc_file e fname = load_file e dsApprc_new fname"

definition dsApprc_stream :: "rc_env \<Rightarrow> string \<Rightarrow> dsApprc res" where
  "dsApprc_stream e text = load_stream e dsApprc_new text"

section \<open>Dump\<close>

definition braced :: "string \<Rightarrow> string" where
  "braced s = (if strchr s (CHR '' '') \<noteq> None then ''{'' @ s @ ''}'' else s)"

definition dump_item :: "string dsHashTableItem \<Rightarrow> string res" where
  "dump_item tmp = bindR (deref (item_body tmp)) (\<lambda>body. Inr (braced (item_key tmp) @ ''='' @ braced body))"

fun dump_slots :: "string tableType \<Rightarrow> string list res" where
  "dump_slots [] = Inr []"
| "dump_slots (None # t) = dump_slots t"
| "dump_slots (Some it # t) = bindR (dump_item it) (\<lambda>l. bindR (dump_slots t) (\<lambda>ls. Inr (l # ls)))"

definition rc_dump :: "dsApprc \<Rightarrow> string list res" where
  "rc_dump rc = dump_slots (rc_h rc)"

end
