(* ===== verification/Getopt.thy ===== *)
theory Getopt
  imports Apprc
begin

text \<open>
  \<open>src/src/share/dsGetopt.h\<close> and \<open>dsGetopt.cxx\<close>: the scanner of short options, and the class that
  puts long options into the configuration. The pointer into the argument that is being scanned is
  the rest of that argument; \<open>argc\<close> is the length of \<open>argv\<close>. What \<open>usage\<close> prints is a list of lines.
\<close>

section \<open>Short options\<close>

record dsGetopt =
  go_argv :: "string list"
  go_optarg :: "string option"
  go_optind :: nat
  go_optopt :: char
  go_optreset :: bool
  go_place :: string

definition dsGetopt_new :: "string list \<Rightarrow> dsGetopt" where
  "dsGetopt_new argv = \<lparr>go_argv = argv, go_optarg = None, go_optind = 1, go_optopt = CHR 0x00, go_optreset = False, go_place = []\<rparr>"

text \<open>The next argument to scan: \<open>None\<close> at the end of the options.\<close>

definition go_update :: "dsGetopt \<Rightarrow> bool \<times> dsGetopt" where
  "go_update g =
     (if go_optreset g \<or> go_place g = [] then
        let g = g\<lparr>go_optreset := False\<rparr> in
        if go_optind g \<ge> length (go_argv g) \<or> char_at (go_argv g ! go_optind g) 0 \<noteq> Some (CHR ''-'') then
          (False, g\<lparr>go_place := []\<rparr>)
        else
          let place = go_argv g ! go_optind g in
          if length place > 1 then
            if place ! 1 = CHR ''-'' then (False, g\<lparr>go_optind := go_optind g + 1, go_place := []\<rparr>)
            else (True, g\<lparr>go_place := tl place\<rparr>)
          else (True, g\<lparr>go_place := place\<rparr>)
      else (True, g))"

text \<open>\<open>++_optind\<close> at the end of an argument.\<close>

definition go_advance :: "dsGetopt \<Rightarrow> dsGetopt" where
  "go_advance g = (if go_place g = [] then g\<lparr>go_optind := go_optind g + 1\<rparr> else g)"

text \<open>The argument of an option: the rest of the word or the next one.\<close>

definition go_argument :: "dsGetopt \<Rightarrow> dsGetopt res" where
  "go_argument g =
     (if go_place g \<noteq> [] then
        Inr (g\<lparr>go_optarg := Some (go_place g), go_place := [], go_optind := go_optind g + 1\<rparr>)
      else
        let g = g\<lparr>go_optind := go_optind g + 1\<rparr> in
        if length (go_argv g) \<le> go_optind g then
          Inl (GetoptException (''Not enough argument given for '' @ quoted [go_optopt g]))
        else Inr (g\<lparr>go_optarg := Some (go_argv g ! go_optind g), go_place := [], go_optind := go_optind g + 1\<rparr>))"

text \<open>\<open>next\<close>: \<open>None\<close> is \<open>EOF\<close>. \<open>oli\<close> is the place of the option in \<open>ostr\<close>, its start for a colon,
  and null for an unknown option.\<close>

definition go_next :: "dsGetopt \<Rightarrow> string \<Rightarrow> (char option \<times> dsGetopt) res" where
  "go_next g ostr =
     (let (found, g) = go_update g in
      if \<not> found then Inr (None, g)
      else
        case go_place g of
          [] \<Rightarrow> Inl MemFault
        | c # place \<Rightarrow>
            let g = g\<lparr>go_optopt := c, go_place := place\<rparr>;
                oli = (if c = CHR '':'' then Some 0 else strchr ostr c);
                illegal = (c = CHR '':'' \<or> oli = None) in
            if illegal \<and> c = CHR ''-'' then Inr (None, g)
            else
              let g = (if illegal then go_advance g else g) in
              if illegal \<and> char_at ostr 0 \<noteq> Some (CHR '':'') then Inl (GetoptException (''Illegal option '' @ quoted [c]))
              else if oli \<noteq> None \<and> char_at ostr (the oli + 1) \<noteq> Some (CHR '':'') then
                Inr (Some c, go_advance (g\<lparr>go_optarg := None\<rparr>))
              else bindR (go_argument g) (\<lambda>g. Inr (Some c, g)))"

section \<open>Long options\<close>

record dsGetoptMore =
  gm_ht :: "string tableType"
  gm_ap :: dsApprc
  gm_argv :: "string list"
  gm_optind :: nat

text \<open>The index of the last option is unset until \<open>execute\<close> has run; nothing reads it before.\<close>

definition dsGetoptMore_new :: "dsApprc \<Rightarrow> string list \<Rightarrow> dsGetoptMore" where
  "dsGetoptMore_new ap argv = \<lparr>gm_ht = ht_new 10, gm_ap = ap, gm_argv = argv, gm_optind = 0\<rparr>"

definition setArg :: "dsGetoptMore \<Rightarrow> string \<Rightarrow> string option \<Rightarrow> dsGetoptMore res" where
  "setArg gm xarg xdescr =
     (let key = (if take 2 xarg = ''--'' then drop 2 xarg else xarg);
          descr = (case xdescr of None \<Rightarrow> ''undescribed'' | Some d \<Rightarrow> d) in
      bindR (ht_insert_copy (gm_ht gm) key descr False) (\<lambda>(t, _). Inr (gm\<lparr>gm_ht := t\<rparr>)))"

fun usage_lines :: "string tableType \<Rightarrow> string list res" where
  "usage_lines [] = Inr []"
| "usage_lines (None # t) = usage_lines t"
| "usage_lines (Some it # t) =
     bindR (deref (item_body it)) (\<lambda>body. bindR (usage_lines t) (\<lambda>ls. Inr ((item_key it @ '' - '' @ body) # ls)))"

definition gm_usage :: "dsGetoptMore \<Rightarrow> string list res" where
  "gm_usage gm = bindR (usage_lines (gm_ht gm)) (\<lambda>ls. Inr (''Valid options for this program: '' # ls))"

definition unknown_option :: "string \<Rightarrow> 'a res" where
  "unknown_option arg = Inl (GetoptException (''Unknown option: '' @ quoted arg @ '' (try -h for help)''))"

text \<open>One option: with a value it is looked up by its name and its line is added to the configuration,
  without one it is looked up with its dashes.\<close>

definition execute_option :: "rc_env \<Rightarrow> dsGetoptMore \<Rightarrow> string \<Rightarrow> dsApprc \<Rightarrow> dsApprc res" where
  "execute_option e gm arg ap =
     (if arg = ''--help'' then bindR (gm_usage gm) (\<lambda>_. Inl (GetoptException ''Help was requested''))
      else
        case strchr arg (CHR ''='') of
          Some s \<Rightarrow>
            bindR (ht_seek (gm_ht gm) (drop 2 (take s arg))) (\<lambda>found.
            if found = None then unknown_option arg else rc_add_line e ap (drop 2 arg))
        | None \<Rightarrow>
            bindR (ht_seek (gm_ht gm) arg) (\<lambda>found.
            if found = None then unknown_option arg else rc_add e ap (drop 2 arg) ''yes''))"

fun execute_args :: "rc_env \<Rightarrow> dsGetoptMore \<Rightarrow> dsApprc \<Rightarrow> nat \<Rightarrow> string list \<Rightarrow> (nat \<times> dsApprc) res" where
  "execute_args e gm ap i [] = Inr (i, ap)"
| "execute_args e gm ap i (arg # args) =
     (if take 2 arg \<noteq> ''--'' then Inr (i, ap)
      else bindR (execute_option e gm arg ap) (\<lambda>ap. execute_args e gm ap (i + 1) args))"

definition gm_execute :: "rc_env \<Rightarrow> dsGetoptMore \<Rightarrow> dsGetoptMore res" where
  "gm_execute e gm =
     bindR (execute_args e gm (gm_ap gm) 1 (drop 1 (gm_argv gm))) (\<lambda>(i, ap). Inr (gm\<lparr>gm_optind := i, gm_ap := ap\<rparr>))"

section \<open>Scanning ends\<close>

text \<open>The characters that are left, with one more for the end of each argument.\<close>

definition words_left :: "string list \<Rightarrow> nat" where
  "words_left ws = sum_list (map (\<lambda>w. length w + 1) ws)"

definition go_left :: "dsGetopt \<Rightarrow> nat" where
  "go_left g = (if go_place g = [] then words_left (drop (go_optind g) (go_argv g))
                else length (go_place g) + 1 + words_left (drop (go_optind g + 1) (go_argv g)))"

lemma words_left_drop: "i \<le> j \<Longrightarrow> words_left (drop j ws) \<le> words_left (drop i ws)"
proof -
  assume "i \<le> j"
  then have "drop i ws = take (j - i) (drop i ws) @ drop j ws" by (metis append_take_drop_id drop_drop le_add_diff_inverse2)
  then show ?thesis by (metis words_left_def le_add2 map_append sum_list_append)
qed

lemma words_left_nth: "i < length ws \<Longrightarrow> words_left (drop i ws) = length (ws ! i) + 1 + words_left (drop (i + 1) ws)"
  by (simp add: words_left_def Cons_nth_drop_Suc [symmetric])

lemma go_update_found:
  assumes "go_update g = (True, g')"
  shows "go_place g' \<noteq> []" and "\<not> go_optreset g'" and "go_argv g' = go_argv g"
    and "\<not> go_optreset g \<Longrightarrow> length (go_place g') + 1 + words_left (drop (go_optind g' + 1) (go_argv g')) \<le> go_left g"
proof -
  have tl: "length w > 1 \<Longrightarrow> tl w \<noteq> []" for w :: string by (cases w) auto
  show "go_place g' \<noteq> []" "\<not> go_optreset g'" "go_argv g' = go_argv g"
    using assms tl by (auto simp: go_update_def Let_def char_at_def split: if_splits)
  show "length (go_place g') + 1 + words_left (drop (go_optind g' + 1) (go_argv g')) \<le> go_left g" if "\<not> go_optreset g"
    using assms that by (auto simp: go_update_def go_left_def Let_def words_left_nth split: if_splits)
qed

lemma go_argument_left:
  assumes "go_argument g = Inr g'"
  shows "go_left g' \<le> words_left (drop (go_optind g + 1) (go_argv g))" and "go_optreset g' = go_optreset g"
  using assms words_left_drop [of "go_optind g + 1" "go_optind g + 2" "go_argv g"]
  by (auto simp: go_argument_def go_left_def Let_def split: if_splits)

lemma go_advance_left:
  "go_left (go_advance g) \<le> length (go_place g) + 1 + words_left (drop (go_optind g + 1) (go_argv g))"
  "go_optreset (go_advance g) = go_optreset g" "go_argv (go_advance g) = go_argv g" "go_optind g \<le> go_optind (go_advance g)"
  by (auto simp: go_advance_def go_left_def)

lemma go_next_left:
  assumes "go_next g ostr = Inr (Some c, g')"
  shows "\<not> go_optreset g' \<and> (\<not> go_optreset g \<longrightarrow> go_left g' < go_left g)"
proof -
  obtain g1 where g1: "go_update g = (True, g1)" using assms by (cases "go_update g") (auto simp: go_next_def split: if_splits)
  note u = go_update_found [OF g1]
  obtain place where place: "go_place g1 = c # place"
    using assms g1 u(1) by (auto simp: go_next_def Let_def split: list.splits if_splits)
  define g2 where "g2 = g1\<lparr>go_optopt := c, go_place := place\<rparr>"
  have g2: "go_place g2 = place" "go_optind g2 = go_optind g1" "go_argv g2 = go_argv g1" "\<not> go_optreset g2"
    using u(2) by (simp_all add: g2_def)
  have bound: "length place + 1 + words_left (drop (go_optind g2 + 1) (go_argv g2)) < go_left g" if "\<not> go_optreset g"
    using u(4) [OF that] place g2 by simp
  have arg: "\<not> go_optreset g' \<and> (\<not> go_optreset g \<longrightarrow> go_left g' < go_left g)"
    if "go_argument h = Inr g'" "\<not> go_optreset h" "go_argv h = go_argv g2" "go_optind g2 \<le> go_optind h" for h
    using go_argument_left [OF that(1)] words_left_drop [of "go_optind g2 + 1" "go_optind h + 1" "go_argv g2"] bound that by fastforce
  consider "g' = go_advance (g2\<lparr>go_optarg := None\<rparr>)" | "go_argument g2 = Inr g'" | "go_argument (go_advance g2) = Inr g'"
    | "g' = go_advance ((go_advance g2)\<lparr>go_optarg := None\<rparr>)"
    using assms g1 place by (auto simp: go_next_def Let_def g2_def split: if_splits)
  then show ?thesis
  proof cases
    case 1
    then show ?thesis using go_advance_left [of "g2\<lparr>go_optarg := None\<rparr>"] g2 bound by auto
  next
    case 2
    then show ?thesis using arg g2 by simp
  next
    case 3
    then show ?thesis using arg g2 go_advance_left [of g2] by simp
  next
    case 4
    then show ?thesis
      using go_advance_left [of "(go_advance g2)\<lparr>go_optarg := None\<rparr>"] go_advance_left [of g2] g2 bound
        words_left_drop [of "go_optind g2 + 1" "go_optind (go_advance g2) + 1" "go_argv g2"]
      by (auto simp: go_advance_def split: if_splits)
  qed
qed


section \<open>Long options and the table of options\<close>

text \<open>An option with a value that was announced by \<open>setArg\<close> is a line of the configuration; an option
  without a value is looked up with its dashes and so never found.\<close>

definition announced :: "dsGetoptMore \<Rightarrow> string set" where
  "announced gm = dom (ht_contents (gm_ht gm))"

lemma dsGetoptMore_new_ok: "ht_inv (gm_ht (dsGetoptMore_new ap argv))" "announced (dsGetoptMore_new ap argv) = {}"
  by (simp_all add: dsGetoptMore_new_def ht_new_inv announced_def) (simp add: ht_new_def ht_contents_def fun_eq_iff)

lemma option_with_value:
  assumes "ht_inv (gm_ht gm)" and "good_key key" and "CHR ''='' \<notin> set key" and "key \<noteq> ''help''"
  shows "execute_option e gm (''--'' @ key @ ''='' @ v) ap =
    (if key \<in> announced gm then rc_add_line e ap (key @ ''='' @ v) else unknown_option (''--'' @ key @ ''='' @ v))"
proof -
  have pos: "strchr (key @ CHR ''='' # v) (CHR ''='') = Some (length key)"
    using assms(3) by (induction key) auto
  have "CHR ''='' \<in> set (key @ CHR ''='' # v)" "CHR ''='' \<notin> set ''help''" by simp_all
  then have no_help: "key @ CHR ''='' # v \<noteq> ''help''" by metis
  show ?thesis
    using ht_seek_contents [OF assms(1,2)] assms(4)
    by (auto simp: execute_option_def pos no_help announced_def domIff)
qed

lemma flag_never_found:
  assumes "ht_inv (gm_ht gm)" and "good_key (''--'' @ key)" and "CHR ''='' \<notin> set key" and "key \<noteq> ''help''" and "''--'' @ key \<notin> announced gm"
  shows "execute_option e gm (''--'' @ key) ap = unknown_option (''--'' @ key)"
proof -
  have "strchr key (CHR ''='') = None" using assms(3) by (induction key) auto
  then show ?thesis
    using ht_seek_contents [OF assms(1,2)] assms(4,5)
    by (auto simp: execute_option_def announced_def domIff)
qed

end
