(* ===== verification/Clock.thy ===== *)
theory Clock
  imports Prelude
begin

text \<open>
  The process as the operating system keeps it, the result discipline of code that may also exit or
  never return, and \<open>safe_sleep\<close> of \<open>src/src/tools/clock_tools.h\<close>.

  The answers of system calls are parameters, indexed by the number of calls made before
  (\<open>os_env\<close>): whether a signal reaches a process, how a sleep ends, what \<open>fork\<close> returns. So every
  behaviour of the other processes over time is covered. The clock itself (\<open>get_clock\<close>) is in
  theory \<open>IpAllocator\<close>.
\<close>

section \<open>Code that may exit or not return\<close>

text \<open>\<open>None\<close> stands for code that never returns.\<close>

datatype 'a outcome = Returned 'a | Threw exn | Exited int

type_synonym ('s, 'a) prog = "'s \<Rightarrow> ('a outcome \<times> 's) option"

definition retG :: "'a \<Rightarrow> ('s, 'a) prog" where
  "retG x = (\<lambda>s. Some (Returned x, s))"

definition throwG :: "exn \<Rightarrow> ('s, 'a) prog" where
  "throwG e = (\<lambda>s. Some (Threw e, s))"

definition exitG :: "int \<Rightarrow> ('s, 'a) prog" where
  "exitG code = (\<lambda>s. Some (Exited code, s))"

definition getG :: "('s \<Rightarrow> 'a) \<Rightarrow> ('s, 'a) prog" where
  "getG f = (\<lambda>s. Some (Returned (f s), s))"

definition modifyG :: "('s \<Rightarrow> 's) \<Rightarrow> ('s, unit) prog" where
  "modifyG f = (\<lambda>s. Some (Returned (), f s))"

definition liftG :: "'a res \<Rightarrow> ('s, 'a) prog" where
  "liftG r = (\<lambda>s. Some (case r of Inl e \<Rightarrow> Threw e | Inr x \<Rightarrow> Returned x, s))"

definition bindG :: "('s, 'a) prog \<Rightarrow> ('a \<Rightarrow> ('s, 'b) prog) \<Rightarrow> ('s, 'b) prog" where
  "bindG m f = (\<lambda>s.
     case m s of
       None \<Rightarrow> None
     | Some (Returned x, s') \<Rightarrow> f x s'
     | Some (Threw e, s') \<Rightarrow> Some (Threw e, s')
     | Some (Exited code, s') \<Rightarrow> Some (Exited code, s'))"

text \<open>\<open>try { m } catch(...) { h }\<close> for the exceptions of the program; undefined behaviour is not caught.\<close>

definition catchG :: "('s, 'a) prog \<Rightarrow> (exn \<Rightarrow> ('s, 'a) prog) \<Rightarrow> ('s, 'a) prog" where
  "catchG m h = (\<lambda>s.
     case m s of
       Some (Threw e, s') \<Rightarrow> if e \<in> {MemFault, UninitRead, Diverges} then Some (Threw e, s') else h e s'
     | r \<Rightarrow> r)"

lemmas prog_defs = retG_def throwG_def exitG_def getG_def modifyG_def liftG_def

lemma bindG_run [simp]:
  "bindG (retG x) f = f x"
  "bindG (throwG e) f = throwG e"
  "bindG (exitG c) f = exitG c"
  "bindG (getG g) f s = f (g s) s"
  "bindG (modifyG h) f' s = f' () (h s)"
  "bindG (liftG (Inr x)) f = f x"
  "bindG (liftG (Inl e)) f = throwG e"
  by (simp_all add: bindG_def prog_defs fun_eq_iff)

lemma prog_run [simp]:
  "retG x s = Some (r, t) \<longleftrightarrow> r = Returned x \<and> t = s"
  "throwG e s = Some (r, t) \<longleftrightarrow> r = Threw e \<and> t = s"
  "exitG c s = Some (r, t) \<longleftrightarrow> r = Exited c \<and> t = s"
  "modifyG f s = Some (r', t) \<longleftrightarrow> r' = Returned () \<and> t = f s"
  by (auto simp: prog_defs)

lemma bindG_step:
  "m s = Some (Returned x, s') \<Longrightarrow> bindG m f s = f x s'"
  "m s = Some (Threw e, s') \<Longrightarrow> bindG m f s = Some (Threw e, s')"
  "m s = Some (Exited c, s') \<Longrightarrow> bindG m f s = Some (Exited c, s')"
  "m s = None \<Longrightarrow> bindG m f s = None"
  by (simp_all add: bindG_def)

lemma bindG_assoc: "bindG (bindG m f) g = bindG m (\<lambda>x. bindG (f x) g)"
  by (auto simp: bindG_def fun_eq_iff split: option.split outcome.split)

lemma bindG_if [simp]: "bindG (if b then m else n) f = (if b then bindG m f else bindG n f)"
  by simp

section \<open>The process\<close>

datatype signal = SIGHUP | SIGINT | SIGILL | SIGTRAP | SIGABRT | SIGBUS | SIGFPE | SIGSEGV | SIGALRM | SIGTERM
  | SIGTSTP | SIGTTIN | SIGTTOU

datatype handler = SIG_DFL | SIG_IGN | SIG_ERR | SIGINT_handler | CRASH_handler

record sigact =
  sa_handler :: handler
  sa_restart :: bool

datatype nap = Nap_full | Nap_cut int int | Nap_failed

record os_env =
  os_kill :: "nat \<Rightarrow> int \<Rightarrow> bool"
  os_nap :: "nat \<Rightarrow> int \<Rightarrow> int \<Rightarrow> nap"
  os_fork :: "nat \<Rightarrow> int"
  os_pid :: int
  os_readable :: "string \<Rightarrow> bool"
  os_creatable :: "string \<Rightarrow> bool"
  os_sigaction :: "signal \<Rightarrow> bool"
  os_chdir :: "string \<Rightarrow> bool"
  os_strerror :: string

record process =
  os_calls :: nat
  slept :: int
  files :: "string \<rightharpoonup> string"
  signals :: "(int \<times> signal option) list"
  actions :: "signal \<Rightarrow> sigact"
  open_fds :: "int set"
  cwd :: string
  session_leader :: bool
  dm_flags :: u32

definition tick :: "process \<Rightarrow> process" where
  "tick u = u\<lparr>os_calls := Suc (os_calls u)\<rparr>"

section \<open>Sleeping\<close>

definition nanos :: "int \<Rightarrow> int \<Rightarrow> int" where
  "nanos secs nsecs = secs * 1000000000 + nsecs"

partial_function (option) safe_sleep_ns :: "os_env \<Rightarrow> int \<Rightarrow> int \<Rightarrow> process \<Rightarrow> process option" where
  "safe_sleep_ns env secs nsecs u =
     (case os_nap env (os_calls u) secs nsecs of
        Nap_full \<Rightarrow> Some (tick (u\<lparr>slept := slept u + nanos secs nsecs\<rparr>))
      | Nap_failed \<Rightarrow> Some (tick u)
      | Nap_cut rem_s rem_ns \<Rightarrow>
          if rem_s = 0 \<and> rem_ns = 0 then Some (tick (u\<lparr>slept := slept u + nanos secs nsecs\<rparr>))
          else safe_sleep_ns env rem_s rem_ns
                 (tick (u\<lparr>slept := slept u + (nanos secs nsecs - nanos rem_s rem_ns)\<rparr>)))"

definition safe_sleep :: "os_env \<Rightarrow> int \<Rightarrow> process \<Rightarrow> process option" where
  "safe_sleep env secs u = safe_sleep_ns env secs 0 u"

text \<open>What the system promises: a sleep of a valid length ends or is cut by a signal with less time left.\<close>

definition naps_end :: "os_env \<Rightarrow> bool" where
  "naps_end env \<longleftrightarrow>
     (\<forall>c s n. 0 \<le> nanos s n \<longrightarrow>
        (case os_nap env c s n of
           Nap_full \<Rightarrow> True
         | Nap_cut s' n' \<Rightarrow> 0 \<le> nanos s' n' \<and> nanos s' n' < nanos s n
         | Nap_failed \<Rightarrow> False))"

lemma safe_sleep_ns_ends:
  assumes "naps_end env" and "0 \<le> nanos s n"
  shows "\<exists>c. safe_sleep_ns env s n u = Some (u\<lparr>slept := slept u + nanos s n, os_calls := c\<rparr>) \<and> os_calls u < c"
  using assms(2)
proof (induction "nat (nanos s n)" arbitrary: s n u rule: less_induct)
  case less
  have ok: "case os_nap env (os_calls u) s n of
      Nap_full \<Rightarrow> True
    | Nap_cut s' n' \<Rightarrow> 0 \<le> nanos s' n' \<and> nanos s' n' < nanos s n
    | Nap_failed \<Rightarrow> False"
    using assms(1) less.prems unfolding naps_end_def by blast
  show ?case
  proof (cases "os_nap env (os_calls u) s n")
    case Nap_full
    then show ?thesis by (subst safe_sleep_ns.simps) (auto simp: tick_def intro!: exI [of _ "Suc (os_calls u)"])
  next
    case Nap_failed
    then show ?thesis using ok by simp
  next
    case (Nap_cut s' n')
    have r: "0 \<le> nanos s' n'" "nanos s' n' < nanos s n"
      using ok Nap_cut by simp_all
    show ?thesis
    proof (cases "s' = 0 \<and> n' = 0")
      case True
      then show ?thesis using Nap_cut
        by (subst safe_sleep_ns.simps) (auto simp: tick_def nanos_def intro!: exI [of _ "Suc (os_calls u)"])
    next
      case False
      let ?u = "tick (u\<lparr>slept := slept u + (nanos s n - nanos s' n')\<rparr>)"
      from less.hyps [of s' n' ?u] r obtain c where
        "safe_sleep_ns env s' n' ?u = Some (?u\<lparr>slept := slept ?u + nanos s' n', os_calls := c\<rparr>)" "os_calls ?u < c" by auto
      then show ?thesis using Nap_cut False
        by (subst safe_sleep_ns.simps) (auto simp: tick_def intro!: exI [of _ c])
    qed
  qed
qed

text \<open>However often signals cut it, \<open>safe_sleep\<close> returns after exactly the requested time, with
  nothing else of the process changed.\<close>

theorem safe_sleep_exact:
  assumes "naps_end env" and "0 \<le> secs"
  shows "\<exists>c. safe_sleep env secs u = Some (u\<lparr>slept := slept u + secs * 1000000000, os_calls := c\<rparr>) \<and> os_calls u < c"
  using safe_sleep_ns_ends [OF assms(1), of secs 0 u] assms(2) by (simp add: safe_sleep_def nanos_def)

text \<open>The first two sleeps are cut after a quarter and after half of a second.\<close>

definition ex_os_env :: os_env where
  "ex_os_env = \<lparr>os_kill = (\<lambda>c p. c < 6 \<and> p = 42),
     os_nap = (\<lambda>c s n. if c = 1 \<and> nanos s n > 750000000 then Nap_cut 0 750000000
                         else if c = 2 \<and> nanos s n > 250000000 then Nap_cut 0 250000000 else Nap_full),
     os_fork = (\<lambda>_. 0), os_pid = 77, os_readable = (\<lambda>_. True), os_creatable = (\<lambda>_. True), os_sigaction = (\<lambda>_. True),
     os_chdir = (\<lambda>_. True), os_strerror = ''Permission denied''\<rparr>"

definition ex_process :: process where
  "ex_process = \<lparr>os_calls = 0, slept = 0, files = [''/var/run/s3dhcpd_eth0.pid'' \<mapsto> ''42''], signals = [],
     actions = (\<lambda>_. \<lparr>sa_handler = SIG_DFL, sa_restart = False\<rparr>), open_fds = {0, 1, 2, 3}, cwd = ''/'', session_leader = False, dm_flags = 0\<rparr>"

lemma ex_naps_end: "naps_end ex_os_env"
  by (auto simp: naps_end_def ex_os_env_def nanos_def)

theorem safe_sleep_exact_witness:
  "\<exists>c. safe_sleep ex_os_env 1 (tick ex_process) = Some ((tick ex_process)\<lparr>slept := 1000000000, os_calls := c\<rparr>) \<and> 1 < c"
  using safe_sleep_exact [OF ex_naps_end, of 1 "tick ex_process"] by (simp add: tick_def ex_process_def)

end
