(* ===== verification/CommandLine.thy ===== *)
theory CommandLine
  imports Getopt Clock
begin

text \<open>
  The command line of \<open>src/src/main.cxx\<close>: the loop over \<open>dsGetopt::next\<close>, which picks the
  configuration file, the interface and whether to go to the background. \<open>usage\<close> prints and exits
  with 7; \<open>-k\<close> falls through to it.
\<close>

section \<open>The loop\<close>

record main_options =
  opt_config :: "string option"
  opt_interface :: "string option"
  opt_daemonise :: bool

definition no_options :: main_options where
  "no_options = \<lparr>opt_config = None, opt_interface = None, opt_daemonise = False\<rparr>"

definition option_string :: string where
  "option_string = ''hc:di:k''"

text \<open>\<open>usage\<close> and the handler of \<open>dsGetoptException\<close>; undefined behaviour is not caught.\<close>

definition usage :: "'a outcome" where
  "usage = Exited 7"

definition bad_option :: "exn \<Rightarrow> 'a outcome" where
  "bad_option e = (case e of GetoptException _ \<Rightarrow> usage | _ \<Rightarrow> Threw e)"

function read_options :: "dsGetopt \<Rightarrow> main_options \<Rightarrow> main_options outcome" where
  "read_options gto opts =
     (case go_next gto option_string of
        Inl e \<Rightarrow> bad_option e
      | Inr (None, gto) \<Rightarrow> Returned opts
      | Inr (Some c, gto) \<Rightarrow>
          if c = CHR ''c'' then
            (case go_optarg gto of None \<Rightarrow> Threw MemFault | Some a \<Rightarrow> read_options gto (opts\<lparr>opt_config := Some a\<rparr>))
          else if c = CHR ''i'' then
            (case go_optarg gto of None \<Rightarrow> Threw MemFault | Some a \<Rightarrow> read_options gto (opts\<lparr>opt_interface := Some a\<rparr>))
          else if c = CHR ''d'' then read_options gto (opts\<lparr>opt_daemonise := True\<rparr>)
          else usage)"
  by pat_completeness auto
termination
  by (relation "measures [\<lambda>(gto, _). if go_optreset gto then 1 else 0, \<lambda>(gto, _). go_left gto]")
    (auto dest!: go_next_left)

declare read_options.simps [simp del]

definition command_line :: "string list \<Rightarrow> main_options outcome" where
  "command_line argv = read_options (dsGetopt_new argv) no_options"

section \<open>Steps of the scanner\<close>

text \<open>The scanner between two arguments, with the words before and behind.\<close>

definition at_word :: "string list \<Rightarrow> string list \<Rightarrow> dsGetopt \<Rightarrow> bool" where
  "at_word past rest g \<longleftrightarrow> go_argv g = past @ rest \<and> go_optind g = length past \<and> go_place g = [] \<and> \<not> go_optreset g"

lemma at_word_update:
  assumes "at_word past ((CHR ''-'' # c # w) # rest) g" and "c \<noteq> CHR ''-''"
  shows "go_update g = (True, g\<lparr>go_place := c # w\<rparr>)"
  using assms by (simp add: at_word_def go_update_def char_at_def Let_def nth_append)

lemma at_word_new [simp]: "at_word [p] ws (dsGetopt_new (p # ws))"
  by (simp add: at_word_def dsGetopt_new_def)

text \<open>The letters of the program's options.\<close>

lemma option_letters [simp]:
  "strchr option_string (CHR ''h'') = Some 0" "strchr option_string (CHR ''c'') = Some 1" "strchr option_string (CHR ''d'') = Some 3"
  "strchr option_string (CHR ''i'') = Some 4" "strchr option_string (CHR ''k'') = Some 6"
  "char_at option_string (Suc 0) = Some (CHR ''c'')" "char_at option_string 2 = Some (CHR '':'')" "char_at option_string 4 = Some (CHR ''i'')"
  "char_at option_string (Suc (Suc 0)) = Some (CHR '':'')" "char_at option_string (Suc (Suc (Suc (Suc 0)))) = Some (CHR ''i'')"
  "char_at option_string (Suc (Suc (Suc (Suc (Suc 0))))) = Some (CHR '':'')" "char_at option_string 5 = Some (CHR '':'')" "char_at option_string 7 = None" "char_at option_string 0 = Some (CHR ''h'')"
  by (simp_all add: option_string_def char_at_def)

lemma next_separate:
  assumes "at_word past ([CHR ''-'', c] # a # rest) g" and "c \<in> {CHR ''c'', CHR ''i''}"
  shows "\<exists>g'. go_next g option_string = Inr (Some c, g') \<and> go_optarg g' = Some a \<and> at_word (past @ [[CHR ''-'', c], a]) rest g'"
proof -
  from assms have "go_update g = (True, g\<lparr>go_place := [c]\<rparr>)" by (intro at_word_update) auto
  with assms show ?thesis
    by (auto simp: go_next_def Let_def go_argument_def at_word_def nth_append numeral_eq_Suc)
qed

lemma next_attached:
  assumes "at_word past ((CHR ''-'' # c # a) # rest) g" and "c \<in> {CHR ''c'', CHR ''i''}" and "a \<noteq> []"
  shows "\<exists>g'. go_next g option_string = Inr (Some c, g') \<and> go_optarg g' = Some a \<and> at_word (past @ [CHR ''-'' # c # a]) rest g'"
proof -
  from assms have "go_update g = (True, g\<lparr>go_place := c # a\<rparr>)" by (intro at_word_update) auto
  with assms show ?thesis
    by (auto simp: go_next_def Let_def go_argument_def at_word_def numeral_eq_Suc)
qed

lemma next_flag:
  assumes "at_word past (''-d'' # rest) g"
  shows "\<exists>g'. go_next g option_string = Inr (Some (CHR ''d''), g') \<and> at_word (past @ [''-d'']) rest g'"
proof -
  from assms have "go_update g = (True, g\<lparr>go_place := ''d''\<rparr>)" by (intro at_word_update) auto
  with assms show ?thesis
    by (auto simp: go_next_def Let_def go_advance_def at_word_def numeral_eq_Suc)
qed

text \<open>The end of the options: no word, a word without a hyphen, or \<open>--\<close>.\<close>

definition ends_options :: "string list \<Rightarrow> bool" where
  "ends_options ws \<longleftrightarrow> (case ws of [] \<Rightarrow> True | w # _ \<Rightarrow> char_at w 0 \<noteq> Some (CHR ''-'') \<or> take 2 w = ''--'')"

lemma next_end:
  assumes "at_word past rest g" and "ends_options rest"
  shows "\<exists>g'. go_next g option_string = Inr (None, g')"
proof (cases rest)
  case Nil
  with assms show ?thesis by (simp add: go_next_def go_update_def at_word_def Let_def)
next
  case (Cons w ws)
  show ?thesis
  proof (cases "char_at w 0 = Some (CHR ''-'')")
    case True
    with assms Cons obtain t where "w = CHR ''-'' # CHR ''-'' # t"
      by (cases w; cases "tl w") (auto simp: ends_options_def char_at_def numeral_eq_Suc)
    with assms Cons show ?thesis by (simp add: go_next_def go_update_def at_word_def Let_def nth_append char_at_def)
  next
    case False
    with assms Cons show ?thesis by (simp add: go_next_def go_update_def at_word_def Let_def nth_append)
  qed
qed

section \<open>Command lines\<close>

text \<open>The options that the program understands, with their argument as a word of its own or attached.\<close>

datatype cmd_option = Config bool string | Interface bool string | Daemonise

fun option_words :: "cmd_option \<Rightarrow> string list" where
  "option_words (Config attached a) = (if attached \<and> a \<noteq> [] then [''-c'' @ a] else [''-c'', a])"
| "option_words (Interface attached a) = (if attached \<and> a \<noteq> [] then [''-i'' @ a] else [''-i'', a])"
| "option_words Daemonise = [''-d'']"

fun set_option :: "cmd_option \<Rightarrow> main_options \<Rightarrow> main_options" where
  "set_option (Config _ a) opts = opts\<lparr>opt_config := Some a\<rparr>"
| "set_option (Interface _ a) opts = opts\<lparr>opt_interface := Some a\<rparr>"
| "set_option Daemonise opts = opts\<lparr>opt_daemonise := True\<rparr>"

lemma read_option:
  assumes "at_word past (option_words op @ rest) g"
  shows "\<exists>g' past'. read_options g opts = read_options g' (set_option op opts) \<and> at_word past' rest g'"
proof (cases op)
  case (Config attached a)
  have "\<exists>g' past'. go_next g option_string = Inr (Some (CHR ''c''), g') \<and> go_optarg g' = Some a \<and> at_word past' rest g'"
  proof (cases "attached \<and> a \<noteq> []")
    case True
    with next_attached [of past "CHR ''c''" a rest g] assms Config show ?thesis by auto
  next
    case False
    with next_separate [of past "CHR ''c''" a rest g] assms Config show ?thesis by auto
  qed
  then show ?thesis using Config by (subst read_options.simps) auto
next
  case (Interface attached a)
  have "\<exists>g' past'. go_next g option_string = Inr (Some (CHR ''i''), g') \<and> go_optarg g' = Some a \<and> at_word past' rest g'"
  proof (cases "attached \<and> a \<noteq> []")
    case True
    with next_attached [of past "CHR ''i''" a rest g] assms Interface show ?thesis by auto
  next
    case False
    with next_separate [of past "CHR ''i''" a rest g] assms Interface show ?thesis by auto
  qed
  then show ?thesis using Interface by (subst read_options.simps) auto
next
  case Daemonise
  with next_flag [of past rest g] assms show ?thesis by (subst read_options.simps) auto
qed

lemma read_options_all:
  assumes "at_word past (concat (map option_words ops) @ rest) g" and "ends_options rest"
  shows "read_options g opts = Returned (fold set_option ops opts)"
  using assms(1)
proof (induction ops arbitrary: past g opts)
  case Nil
  with next_end [of past rest g] assms(2) show ?case by (subst read_options.simps) auto
next
  case (Cons op ops)
  then have "at_word past (option_words op @ concat (map option_words ops) @ rest) g" by simp
  from read_option [OF this, of opts] obtain g' past' where
    "read_options g opts = read_options g' (set_option op opts)" "at_word past' (concat (map option_words ops) @ rest) g'" by blast
  with Cons.IH show ?case by simp
qed

text \<open>C37 The program reads its command line as intended: options with their arguments attached or as
  words of their own, in any order and number, up to the end of the options, of which the last one
  of a kind counts.\<close>

theorem command_line_read:
  assumes "ends_options rest"
  shows "command_line (prog # concat (map option_words ops) @ rest) = Returned (fold set_option ops no_options)"
  using read_options_all [OF at_word_new assms] by (simp add: command_line_def)

theorem command_line_read_witness:
  "command_line [''s3dhcpd'', ''-i'', ''eth0'', ''-d'', ''-c/etc/s3dhcpd.rc'', ''-i'', ''-'', ''--'', ''-k''] =
     Returned \<lparr>opt_config = Some ''/etc/s3dhcpd.rc'', opt_interface = Some ''-'', opt_daemonise = True\<rparr>"
proof -
  have "ends_options [''--'', ''-k'']" by (simp add: ends_options_def)
  from command_line_read [OF this, of "''s3dhcpd''" "[Interface False ''eth0'', Daemonise, Config True ''/etc/s3dhcpd.rc'', Interface False ''-'']"]
  show ?thesis by (simp add: no_options_def)
qed

section \<open>No other outcome\<close>

lemma go_next_raises: "go_next g ostr = Inl e \<Longrightarrow> \<exists>m. e = GetoptException m"
proof -
  assume e: "go_next g ostr = Inl e"
  then obtain g1 where g1: "go_update g = (True, g1)" by (cases "go_update g") (auto simp: go_next_def split: if_splits)
  obtain c place where "go_place g1 = c # place" using go_update_found(1) [OF g1] by (cases "go_place g1") auto
  with e g1 show ?thesis by (auto simp: go_next_def go_argument_def Let_def bindR_eq_Inl split: if_splits)
qed

lemma go_next_argument:
  assumes "go_next g option_string = Inr (Some c, g')" and "c \<in> {CHR ''c'', CHR ''i''}"
  shows "go_optarg g' \<noteq> None"
proof -
  obtain g1 where g1: "go_update g = (True, g1)" using assms by (cases "go_update g") (auto simp: go_next_def split: if_splits)
  obtain d place where d: "go_place g1 = d # place" using go_update_found(1) [OF g1] by (cases "go_place g1") auto
  have "d = c" using assms(1) g1 d by (auto simp: go_next_def Let_def split: if_splits)
  with assms g1 d show ?thesis
    by (auto simp: go_next_def go_argument_def Let_def numeral_eq_Suc split: if_splits)
qed

lemma read_options_outcome: "read_options g opts = Exited 7 \<or> (\<exists>opts'. read_options g opts = Returned opts')"
proof (induction g opts rule: read_options.induct)
  case (1 g opts)
  show ?case
  proof (cases "go_next g option_string")
    case (Inl e)
    then show ?thesis using go_next_raises [OF Inl] by (subst read_options.simps) (auto simp: bad_option_def usage_def)
  next
    case (Inr p)
    obtain oc g' where p: "p = (oc, g')" by (cases p)
    show ?thesis
    proof (cases oc)
      case None
      with Inr p show ?thesis by (subst (2) read_options.simps) simp
    next
      case (Some c)
      then show ?thesis using Inr p go_next_argument [of g c g'] "1.IH"
        by (subst (1 2) read_options.simps) (auto simp: usage_def split: option.splits)
    qed
  qed
qed

lemma command_line_outcome: "command_line argv = Exited 7 \<or> (\<exists>opts. command_line argv = Returned opts)"
  unfolding command_line_def by (rule read_options_outcome)

end
