(* ===== verification/Daemon.thy ===== *)
theory Daemon
  imports Clock Apprc
begin

text \<open>
  \<open>src/src/tools/daemon.h\<close> and \<open>daemon.cxx\<close>: the process id file, waiting for the process that it
  names, signal handlers and going to the background. The loops that wait for another process may
  run for ever, so the operations are programs of theory \<open>Clock\<close>; \<open>%m\<close> is the text of the
  environment. The crash handler is modelled up to its \<open>abort\<close>, with the stack frames as an argument.
\<close>

section \<open>The process id file\<close>

abbreviation (input) DAEMON_NOPARENTSIG :: u32 where "DAEMON_NOPARENTSIG \<equiv> 0x01"
abbreviation (input) DAEMON_NODETACH :: u32 where "DAEMON_NODETACH \<equiv> 0x04"
abbreviation (input) DAEMON_NOCHDIR :: u32 where "DAEMON_NOCHDIR \<equiv> 0x08"
abbreviation (input) DAEMON_KILLPREV :: u32 where "DAEMON_KILLPREV \<equiv> 0x10"
abbreviation (input) DAEMON_NOCRASHHANDLER :: u32 where "DAEMON_NOCRASHHANDLER \<equiv> 0x20"
abbreviation (input) PATH_MAX :: nat where "PATH_MAX \<equiv> 4096"

definition pid_name :: "string \<Rightarrow> string res" where
  "pid_name prog_name =
     (let pidname = ''/var/run/'' @ prog_name @ ''.pid'' in
      if length pidname + 1 \<le> PATH_MAX then Inr pidname else Inl MemFault)"

text \<open>\<open>fscanf\<close> with \<open>%ld\<close>: without digits the variable keeps its indeterminate value.\<close>

definition scan_ld :: "string \<Rightarrow> int option" where
  "scan_ld text =
     (let s = dropWhile c_isspace text;
          digits = (case s of [] \<Rightarrow> [] | c # t \<Rightarrow> if c = CHR ''-'' \<or> c = CHR ''+'' then t else s) in
      if takeWhile is_digit digits = [] then None else Some (atol text))"

definition read_pid :: "os_env \<Rightarrow> string \<Rightarrow> (process, int) prog" where
  "read_pid env pidname =
     (if \<not> os_readable env pidname
      then throwG (DaemonException (''Can'' @ [CHR 0x27] @ ''t read PID file '' @ quoted pidname @ '' ('' @ os_strerror env @ '')''))
      else
        bindG (getG (\<lambda>u. files u pidname)) (\<lambda>text.
        liftG (bindR (deref text) (\<lambda>text. read_init (scan_ld text)))))"

text \<open>\<open>kill\<close>: whether the signal, or the test with 0, reaches a process.\<close>

definition sys_kill :: "os_env \<Rightarrow> int \<Rightarrow> signal option \<Rightarrow> process \<Rightarrow> bool \<times> process" where
  "sys_kill env pid sig u =
     (let ok = os_kill env (os_calls u) pid in
      (ok, tick (if ok then u\<lparr>signals := signals u @ [(pid, sig)]\<rparr> else u)))"

definition kill_test :: "os_env \<Rightarrow> int \<Rightarrow> (process, bool) prog" where
  "kill_test env pid = (\<lambda>u. case sys_kill env pid None u of (ok, u) \<Rightarrow> Some (Returned ok, u))"

text \<open>\<open>while (kill(pid, SIGTERM) != -1) safe_sleep(1)\<close>.\<close>

partial_function (option) kill_wait :: "os_env \<Rightarrow> int \<Rightarrow> process \<Rightarrow> process option" where
  "kill_wait env pid u =
     (case sys_kill env pid (Some SIGTERM) u of (ok, u) \<Rightarrow>
      if ok then Option.bind (safe_sleep env 1 u) (\<lambda>u. kill_wait env pid u) else Some u)"

definition kill_loop :: "os_env \<Rightarrow> int \<Rightarrow> (process, unit) prog" where
  "kill_loop env pid = (\<lambda>u. map_option (\<lambda>u. (Returned (), u)) (kill_wait env pid u))"

definition kill_running :: "os_env \<Rightarrow> string \<Rightarrow> (process, unit) prog" where
  "kill_running env prog_name =
     bindG (liftG (pid_name prog_name)) (\<lambda>pidname.
     bindG (getG (\<lambda>u. files u pidname)) (\<lambda>pidf.
     if pidf = None then retG ()
     else
       bindG (read_pid env pidname) (\<lambda>pid.
       bindG (if pid > 1 then kill_loop env pid else retG ()) (\<lambda>_.
       bindG (kill_test env pid) (\<lambda>alive.
       if alive
       then throwG (DaemonException (''Can'' @ [CHR 0x27] @ ''t kill '' @ prog_name @ '' pid:'' @ show_int pid @ '', ('' @ os_strerror env @ '')''))
       else retG ())))))"

definition refuse_running :: "os_env \<Rightarrow> string \<Rightarrow> int \<Rightarrow> (process, unit) prog" where
  "refuse_running env prog_name pid =
     bindG (kill_test env pid) (\<lambda>alive.
     if alive then throwG (DaemonException (prog_name @ '' alredy run with pid '' @ quoted (show_int pid)))
     else retG ())"

definition check_previous :: "os_env \<Rightarrow> string \<Rightarrow> string \<Rightarrow> (process, unit) prog" where
  "check_previous env prog_name pidname =
     bindG (read_pid env pidname) (\<lambda>pid.
     bindG (getG dm_flags) (\<lambda>flags.
     bindG (if flags AND DAEMON_KILLPREV \<noteq> 0 \<and> pid > 1 then kill_loop env pid else retG ()) (\<lambda>_.
     refuse_running env prog_name pid)))"

definition write_pid_file :: "os_env \<Rightarrow> string \<Rightarrow> (process, unit) prog" where
  "write_pid_file env prog_name =
     bindG (liftG (pid_name prog_name)) (\<lambda>pidname.
     bindG (getG (\<lambda>u. files u pidname)) (\<lambda>pidf.
     bindG (if pidf = None then retG () else check_previous env prog_name pidname) (\<lambda>_.
     if \<not> os_creatable env pidname
     then throwG (DaemonException (''Can'' @ [CHR 0x27] @ ''t create PID file '' @ quoted pidname @ '' ('' @ os_strerror env @ '')''))
     else modifyG (\<lambda>u. u\<lparr>files := (files u)(pidname \<mapsto> show_int (os_pid env))\<rparr>))))"

section \<open>Signals\<close>

text \<open>On systems with \<open>SA_RESTART\<close> and without \<open>SA_INTERRUPT\<close>.\<close>

definition set_signal :: "os_env \<Rightarrow> signal \<Rightarrow> handler \<Rightarrow> process \<Rightarrow> handler \<times> process" where
  "set_signal env signo func u =
     (if \<not> os_sigaction env signo then (SIG_ERR, u)
      else (sa_handler (actions u signo),
            u\<lparr>actions := (actions u)(signo := \<lparr>sa_handler = func, sa_restart = (signo \<noteq> SIGALRM)\<rparr>)\<rparr>))"

definition SIGINT_hdl :: "signal \<Rightarrow> (process, unit) prog" where
  "SIGINT_hdl sig = (if sig \<noteq> SIGHUP then exitG (-1) else retG ())"

definition set_signals :: "os_env \<Rightarrow> handler \<Rightarrow> signal list \<Rightarrow> process \<Rightarrow> process" where
  "set_signals env func sigs = fold (\<lambda>signo u. snd (set_signal env signo func u)) sigs"

text \<open>The walk over the stack frames: \<open>dladdr\<close> names the object of an address and \<open>word\<close> reads a pointer. The lines are the
  number, the frame pointer, the name of the object and the instruction pointer.\<close>

function crash_frames :: "(u64 \<Rightarrow> (string \<times> string option) option) \<Rightarrow> (u64 \<Rightarrow> u64) \<Rightarrow> nat \<Rightarrow> u64 \<Rightarrow> u64 \<Rightarrow> (nat \<times> u64 \<times> string \<times> u64) list" where
  "crash_frames dladdr word cnt bp ip =
     (if bp = 0 \<or> ip = 0 \<or> cnt \<ge> 100 then []
      else
        case dladdr ip of
          None \<Rightarrow> []
        | Some (fname, sname) \<Rightarrow>
            (cnt + 1, bp, fname, ip) #
            (if sname = Some ''main'' then [] else crash_frames dladdr word (cnt + 1) (word bp) (word (bp + 8))))"
  by pat_completeness auto
termination
  by (relation "measure (\<lambda>(_, _, cnt, _, _). 100 - cnt)") auto

declare crash_frames.simps [simp del]

text \<open>Without a context only the default action is restored before \<open>abort\<close>.\<close>

definition CRASH_hdl ::
    "os_env \<Rightarrow> (u64 \<Rightarrow> (string \<times> string option) option) \<Rightarrow> (u64 \<Rightarrow> u64) \<Rightarrow> (u64 \<times> u64) option \<Rightarrow> process
     \<Rightarrow> (nat \<times> u64 \<times> string \<times> u64) list \<times> process" where
  "CRASH_hdl env dladdr word uc u =
     (let u = snd (set_signal env SIGABRT SIG_DFL u) in
      case uc of
        None \<Rightarrow> ([], u)
      | Some (ip, bp) \<Rightarrow> (crash_frames dladdr word 0 bp ip, u))"

section \<open>Going to the background\<close>

definition install_handlers :: "os_env \<Rightarrow> u32 \<Rightarrow> process \<Rightarrow> process" where
  "install_handlers env options u =
     (let u = (if options AND DAEMON_NOPARENTSIG = 0
               then set_signals env SIGINT_handler [SIGTERM, SIGINT, SIGHUP]
                      (set_signals env SIG_IGN [SIGTTOU, SIGTTIN, SIGTSTP, SIGTRAP] u)
               else u) in
      if options AND DAEMON_NOCRASHHANDLER = 0
      then set_signals env CRASH_handler [SIGILL, SIGSEGV, SIGBUS, SIGFPE] u
      else u)"

definition close_fds :: "process \<Rightarrow> process" where
  "close_fds u = u\<lparr>open_fds := fold (\<lambda>i fds. fds - {i}) [0..63] (open_fds u)\<rparr>"

definition go_background :: "os_env \<Rightarrow> string \<Rightarrow> u32 \<Rightarrow> (process, unit) prog" where
  "go_background env prog_name options =
     bindG (getG os_calls) (\<lambda>c.
     bindG (modifyG tick) (\<lambda>_.
     if os_fork env c < 0 then throwG (DaemonException (''Fork error ('' @ os_strerror env @ '')''))
     else if os_fork env c > 0 then exitG 0
     else
       bindG (write_pid_file env prog_name) (\<lambda>_.
       bindG (modifyG (\<lambda>u. close_fds (u\<lparr>session_leader := True\<rparr>))) (\<lambda>_.
       modifyG (\<lambda>u. if options AND DAEMON_NOCHDIR = 0 \<and> os_chdir env ''/var/tmp'' then u\<lparr>cwd := ''/var/tmp''\<rparr> else u)))))"

definition daemonize :: "os_env \<Rightarrow> string \<Rightarrow> u32 \<Rightarrow> (process, unit) prog" where
  "daemonize env prog_name options =
     bindG (modifyG (\<lambda>u. install_handlers env options (u\<lparr>dm_flags := options\<rparr>))) (\<lambda>_.
     if options AND DAEMON_NODETACH = 0 then go_background env prog_name options else retG ())"

end
