(* ===== verification/ApprcProps.thy ===== *)
theory ApprcProps
  imports Apprc
begin

text \<open>
  The configuration: the key stack, adding single and array keys, conditions, and the end of
  loading.
\<close>

section \<open>The key stack\<close>

definition stack_ok :: "dsApprc \<Rightarrow> bool" where
  "stack_ok rc \<longleftrightarrow> (case keyst rc of None \<Rightarrow> True | Some (ks, alloc) \<Rightarrow> length ks < alloc \<and> kslen rc \<le> alloc)"

lemma strchr_None: "strchr s c = None \<longleftrightarrow> c \<notin> set s"
  by (induction s) auto

lemma strchr_append: "c \<notin> set xs \<Longrightarrow> strchr (xs @ c # ys) c = Some (length xs)"
  by (induction xs) auto

lemma strchr_append_not: "c \<notin> set xs \<Longrightarrow> strchr (xs @ ys) c = map_option ((+) (length xs)) (strchr ys c)"
  by (induction xs; cases "strchr ys c") auto

text \<open>C26: The key stack. Pushing never writes outside the allocation of the prefix, and pop
  undoes push for keys without hyphen: the prefix is the one before, the table is untouched, and
  in between keys that start with the delimiter are searched below the pushed key.\<close>

theorem key_stack_roundtrip:
  assumes "stack_ok rc" and "key_delim rc = CHR ''-''" and "CHR ''-'' \<notin> set key" and "key \<noteq> [] \<or> keyst rc \<noteq> None"
  shows "\<exists>rc1 rc2. rc_push rc key = Inr rc1 \<and> stack_ok rc1 \<and> rc_pop rc1 = Inr rc2 \<and> stack_ok rc2
    \<and> map_option fst (keyst rc2) = map_option fst (keyst rc) \<and> rc_h rc2 = rc_h rc \<and> key_delim rc2 = key_delim rc
    \<and> (\<forall>k. rc_seek rc1 (CHR ''-'' # k)
          = ht_seek (rc_h rc) ((case keyst rc of None \<Rightarrow> [] | Some (ks, _) \<Rightarrow> ks @ ''-'') @ key @ CHR ''-'' # k))"
proof (cases "keyst rc")
  case None
  moreover have "strchr (rev key) (CHR ''-'') = None" using assms(3) by (simp add: strchr_None)
  ultimately show ?thesis
    using assms(2-4) by (auto simp: rc_push_def rc_pop_def stack_ok_def rc_seek_def char_at_def)
next
  case (Some p)
  obtain ks alloc where p: "p = (ks, alloc)" by (cases p)
  have "strchr (rev (ks @ CHR ''-'' # key)) (CHR ''-'') = Some (length key)"
    using strchr_append [of "CHR ''-''" "rev key" "rev ks"] assms(3) by simp
  then show ?thesis
    using assms(1,2) Some p
    by (auto simp: rc_push_def rc_pop_def stack_ok_def rc_seek_def char_at_def Let_def)
qed

theorem key_stack_roundtrip_witness:
  "\<exists>rc1 rc2. rc_push (dsApprc_new\<lparr>keyst := Some (''subnet'', 7), kslen := 6\<rparr>) ''00'' = Inr rc1 \<and> rc_pop rc1 = Inr rc2
     \<and> map_option fst (keyst rc2) = Some ''subnet''"
  using key_stack_roundtrip [of "dsApprc_new\<lparr>keyst := Some (''subnet'', 7), kslen := 6\<rparr>" "''00''"]
  by (auto simp: stack_ok_def dsApprc_new_def)

section \<open>Conditions\<close>

definition word_ok :: "string \<Rightarrow> bool" where
  "word_ok w \<longleftrightarrow> w \<noteq> [] \<and> set w \<inter> {CHR ''='', CHR ''!'', CHR ''&'', CHR ''|'', CHR ''$'', CHR '' '', CHR 0x09, CHR 0x0A} = {}"

lemma trim_word:
  assumes "word_ok w" and "list_all is_blank xs" and "list_all is_blank ys"
  shows "trim (xs @ w @ ys) = Inr w"
proof -
  have nb: "\<not> is_blank c" if "c \<in> set w" for c using that assms(1) by (auto simp: word_ok_def is_blank_def)
  have 1: "dropWhile is_blank (xs @ w @ ys) = w @ ys"
    using assms(1,2) nb by (subst dropWhile_append2) (cases w; auto simp: list_all_iff word_ok_def)+
  have 2: "dropWhile is_blank (rev (w @ ys)) = rev w"
  proof -
    have "dropWhile is_blank (rev ys @ rev w) = dropWhile is_blank (rev w)"
      using assms(3) by (subst dropWhile_append2) (auto simp: list_all_iff)
    also have "\<dots> = rev w" using nb by (cases "rev w") (auto simp: dropWhile_eq_self_iff rev_eq_Cons_iff)
    finally show ?thesis by simp
  qed
  show ?thesis using 1 2 assms(1) by (simp add: trim_def Let_def word_ok_def)
qed

lemma char_at_append: "char_at (xs @ ys) (length xs + i) = char_at ys i"
  by (simp add: char_at_def)

text \<open>The operator is found, the sides are the texts around it, and the right-hand side is cut at
  the connectives.\<close>

definition and_stage :: "rc_env \<Rightarrow> dsApprc \<Rightarrow> bool \<Rightarrow> string \<Rightarrow> (bool \<times> string) res" where
  "and_stage e rc condition rh =
     (case strchr rh (CHR ''&'') of
        None \<Rightarrow> Inr (condition, rh)
      | Some i \<Rightarrow>
          if char_at rh (i + 1) = Some (CHR ''&'')
          then bindR (expand_condition e rc (drop (i + 2) rh)) (\<lambda>r. Inr (condition \<and> r, take i rh))
          else Inr (condition, rh))"

definition or_stage :: "rc_env \<Rightarrow> dsApprc \<Rightarrow> bool \<Rightarrow> string \<Rightarrow> (bool \<times> string) res" where
  "or_stage e rc condition rh =
     (case strchr rh (CHR ''|'') of
        None \<Rightarrow> Inr (condition, rh)
      | Some i \<Rightarrow>
          if char_at rh (i + 1) = Some (CHR ''|'')
          then bindR (expand_condition e rc (drop (i + 2) rh)) (\<lambda>r. Inr (condition \<or> r, take i rh))
          else Inr (condition, rh))"

lemma condition_result:
  assumes "CHR ''='' \<notin> set lh" and "lh = [] \<or> last lh \<noteq> CHR ''!''"
    and cond_def: "cond = lh @ (if eq then ''== '' else ''!= '') @ rh"
    and "and_stage e rc eq rh = Inr (c1, rh1)" and "or_stage e rc c1 rh1 = Inr (c2, rh2)"
    and "trim lh = Inr l" and "trim rh2 = Inr r" and "char_at l 0 \<noteq> Some (CHR ''$'')"
  shows "expand_condition e rc cond = Inr (if c2 then l = r else l \<noteq> r)"
proof -
  let ?q = "if eq then length lh else length lh + 1"
  have q: "strchr cond (CHR ''='') = Some ?q"
  proof (cases eq)
    case True
    then show ?thesis using strchr_append [OF assms(1), of "CHR ''='' # CHR '' '' # rh"] by (simp add: cond_def)
  next
    case False
    then show ?thesis
      using strchr_append [of "CHR ''=''" "lh @ ''!''" "CHR '' '' # rh"] assms(1) by (simp add: cond_def)
  qed
  have "\<not> (0 < length lh \<and> char_at cond (length lh - 1) = Some (CHR ''!''))"
    using assms(2) by (cases lh rule: rev_cases) (auto simp: cond_def char_at_def nth_append)
  moreover have "char_at cond (length lh + 1) = Some (CHR ''='')" unfolding cond_def char_at_append by (simp add: char_at_def)
  moreover have "\<not> eq \<Longrightarrow> char_at cond (length lh) = Some (CHR ''!'')"
    using char_at_append [of lh "''!= '' @ rh" 0] by (simp add: cond_def) (simp add: char_at_def)
  ultimately have "(if 0 < ?q \<and> char_at cond (?q - 1) = Some (CHR ''!'') then Inr (False, ?q - 1)
       else if char_at cond (?q + 1) = Some (CHR ''='') then Inr (True, ?q)
       else Inl (KeyException ''invalid condition format'')) = Inr (eq, length lh)" by auto
  moreover have "take (length lh) cond = lh" "drop (length lh + 3) cond = rh" "(length cond < length lh + 3) = False"
    by (auto simp: cond_def)
  ultimately show ?thesis
    using q by (subst expand_condition.simps)
      (simp only: option.case bindR.simps prod.case Let_def if_False assms(4) [unfolded and_stage_def]
        assms(5) [unfolded or_stage_def] assms(6-8))
qed

lemma and_stage_none: "CHR ''&'' \<notin> set rh \<Longrightarrow> and_stage e rc c rh = Inr (c, rh)"
  by (simp add: and_stage_def strchr_None flip: strchr_None)

lemma or_stage_none: "CHR ''|'' \<notin> set rh \<Longrightarrow> or_stage e rc c rh = Inr (c, rh)"
  by (simp add: or_stage_def flip: strchr_None)

lemma and_stage_some:
  "CHR ''&'' \<notin> set r \<Longrightarrow> expand_condition e rc rest = Inr b \<Longrightarrow> and_stage e rc c (r @ ''&&'' @ rest) = Inr (c \<and> b, r)"
  by (simp add: and_stage_def strchr_append char_at_def nth_append)

lemma or_stage_some:
  "CHR ''|'' \<notin> set r \<Longrightarrow> expand_condition e rc rest = Inr b \<Longrightarrow> or_stage e rc c (r @ ''||'' @ rest) = Inr (c \<or> b, r)"
  by (simp add: or_stage_def strchr_append char_at_def nth_append)

lemma word_sides:
  assumes "word_ok l" and "word_ok r" and "list_all (\<lambda>c. c = CHR '' '') xs"
  shows "CHR ''='' \<notin> set (xs @ l @ '' '')" "last (xs @ l @ '' '') \<noteq> CHR ''!''" "trim (xs @ l @ '' '') = Inr l"
    "trim r = Inr r" "trim (r @ '' '') = Inr r" "char_at l 0 \<noteq> Some (CHR ''$'')"
    "CHR ''&'' \<notin> set r" "CHR ''|'' \<notin> set r"
proof -
  show "trim (xs @ l @ '' '') = Inr l" "trim r = Inr r" "trim (r @ '' '') = Inr r"
    using trim_word [OF assms(1), of xs "'' ''"] trim_word [OF assms(2), of "[]" "[]"] trim_word [OF assms(2), of "[]" "'' ''"] assms(3)
    by (simp_all add: is_blank_def list_all_iff)
  show "CHR ''='' \<notin> set (xs @ l @ '' '')" "last (xs @ l @ '' '') \<noteq> CHR ''!''"
    using assms(1,3) by (auto simp: word_ok_def list_all_iff)
  show "char_at l 0 \<noteq> Some (CHR ''$'')" using assms(1) by (cases l) (auto simp: word_ok_def char_at_def)
  show "CHR ''&'' \<notin> set r" "CHR ''|'' \<notin> set r" using assms(2) by (auto simp: word_ok_def)
qed

lemma condition_simple:
  assumes "word_ok l" and "word_ok r" and "list_all (\<lambda>c. c = CHR '' '') xs"
  shows "expand_condition e rc (xs @ l @ '' == '' @ r) = Inr (l = r)"
    and "expand_condition e rc (xs @ l @ '' != '' @ r) = Inr (l \<noteq> r)"
proof -
  note w = word_sides [OF assms]
  note res = condition_result [OF w(1) disjI2 [OF w(2)] _ and_stage_none [OF w(7)] or_stage_none [OF w(8)] w(3,4,6)]
  show "expand_condition e rc (xs @ l @ '' == '' @ r) = Inr (l = r)" using res [of _ True] by simp
  show "expand_condition e rc (xs @ l @ '' != '' @ r) = Inr (l \<noteq> r)" using res [of _ False] by simp
qed

text \<open>Conditions on texts without variables: \<open>==\<close> and \<open>!=\<close> compare as they say. With \<open>&&\<close> the
  result is the comparison if the second condition holds and its negation if it does not, and
  with \<open>||\<close> the second condition is ignored.\<close>

theorem condition_truth:
  assumes "word_ok l1" and "word_ok r1" and "word_ok l2" and "word_ok r2"
  shows "expand_condition e rc ('' '' @ l1 @ '' == '' @ r1) = Inr (l1 = r1)
    \<and> expand_condition e rc ('' '' @ l1 @ '' != '' @ r1) = Inr (l1 \<noteq> r1)
    \<and> expand_condition e rc ('' '' @ l1 @ '' == '' @ r1 @ '' && '' @ l2 @ '' == '' @ r2) = Inr ((l1 = r1) = (l2 = r2))
    \<and> expand_condition e rc ('' '' @ l1 @ '' == '' @ r1 @ '' || '' @ l2 @ '' == '' @ r2) = Inr (l1 = r1)"
proof -
  have sp: "list_all (\<lambda>c. c = CHR '' '') '' ''" by simp
  note w = word_sides [OF assms(1,2) sp]
  note rec = condition_simple(1) [OF assms(3,4) sp, of e rc]
  have r: "CHR ''&'' \<notin> set (r1 @ '' '')" "CHR ''|'' \<notin> set (r1 @ '' '')" using w(7,8) by auto
  have nv: "CHR ''&'' \<notin> set ((r1 @ '' '') @ ''||'' @ '' '' @ l2 @ '' == '' @ r2)"
    using r(1) assms(3,4) by (auto simp: word_ok_def)
  note res = condition_result [OF w(1) disjI2 [OF w(2)], where eq = True and l = l1 and r = r1 and rc = rc and e = e]
  have "expand_condition e rc ('' '' @ l1 @ '' == '' @ r1 @ '' && '' @ l2 @ '' == '' @ r2) = Inr (if True \<and> l2 = r2 then l1 = r1 else l1 \<noteq> r1)"
    by (rule res [OF _ and_stage_some [OF r(1) rec] or_stage_none [OF r(2)] w(3,5,6)]) simp
  moreover have "expand_condition e rc ('' '' @ l1 @ '' == '' @ r1 @ '' || '' @ l2 @ '' == '' @ r2) = Inr (if True \<or> l2 = r2 then l1 = r1 else l1 \<noteq> r1)"
    by (rule res [OF _ and_stage_none [OF nv] or_stage_some [OF r(2) rec] w(3,5,6)]) simp
  ultimately show ?thesis using condition_simple [OF assms(1,2) sp, of e rc] by auto
qed

theorem condition_truth_witness:
  "expand_condition \<lparr>getenv = Map.empty, file_text = Inl\<rparr> dsApprc_new '' Yes == No && a == b'' = Inr True"
  using condition_truth [of "''Yes''" "''No''" "''a''" "''b''" "\<lparr>getenv = Map.empty, file_text = Inl\<rparr>" dsApprc_new]
  by (simp add: word_ok_def)

section \<open>Adding a key\<close>

definition plain_key :: "string \<Rightarrow> bool" where
  "plain_key key \<longleftrightarrow> good_key key \<and> 3 \<le> length key
     \<and> set key \<inter> {CHR 0x5C, CHR ''{'', CHR ''}'', CHR '' '', CHR 0x09, CHR ''$'', CHR ''=''} = {}"

text \<open>The way to write any value without dollar sign into a line.\<close>

definition escape_char :: "char \<Rightarrow> string" where
  "escape_char c = (if c \<in> {CHR 0x5C, CHR ''{'', CHR ''}''} then [CHR 0x5C, c] else [c])"

definition literal :: "string \<Rightarrow> string" where
  "literal v = ''{'' @ concat (map escape_char v) @ ''}''"

lemma add_loop_key:
  assumes "set k \<inter> {CHR 0x5C, CHR ''{'', CHR ''}'', CHR '' '', CHR 0x09, CHR ''$'', CHR ''=''} = {}"
  shows "add_loop e rc line 0 (k @ s) 0 key None = add_loop e rc line 0 s 0 (key @ k) None"
  using assms
proof (induction k arbitrary: key)
  case (Cons c k)
  then show ?case by (auto simp: is_gap_def add_loop.simps [of e rc line 0 "c # k @ s"])
qed simp

lemma add_loop_char:
  "CHR ''$'' \<noteq> c \<Longrightarrow> add_loop e rc line 0 (escape_char c @ s) 1 key (Some v) = add_loop e rc line 0 s 1 key (Some (v @ [c]))"
  by (auto simp: escape_char_def escaped_def char_at_def is_gap_def add_loop.simps [of e rc line 0 "x # t" for x t] numeral_2_eq_2)

lemma add_loop_literal:
  "CHR ''$'' \<notin> set w \<Longrightarrow>
     add_loop e rc line 0 (concat (map escape_char w) @ s) 1 key (Some v) = add_loop e rc line 0 s 1 key (Some (v @ w))"
  by (induction w arbitrary: v) (simp_all add: add_loop_char)

lemma rc_add_line_literal:
  assumes "plain_key key" and "CHR ''$'' \<notin> set v"
  shows "rc_add_line e rc (key @ ''='' @ literal v) = rc_add2 rc key v"
proof -
  let ?line = "key @ ''='' @ literal v"
  have t: "takeWhile is_blank (rev ?line) = []" by (simp add: literal_def is_blank_def)
  have "add_loop e rc ?line 0 ?line 0 [] None = add_loop e rc ?line 0 (''='' @ literal v) 0 key None"
    using add_loop_key [of key e rc ?line "''='' @ literal v" "[]"] assms(1) by (simp add: plain_key_def)
  also have "\<dots> = add_loop e rc ?line 0 (literal v) 0 key (Some [])"
    by (simp add: add_loop.simps [of e rc _ 0 "CHR ''='' # t" for t] is_gap_def literal_def)
  also have "\<dots> = add_loop e rc ?line 0 (concat (map escape_char v) @ ''}'') 1 key (Some [])"
    by (simp add: literal_def add_loop.simps [of e rc _ 0 "CHR ''{'' # t" for t])
  also have "\<dots> = add_loop e rc ?line 0 ''}'' 1 key (Some v)" using add_loop_literal [OF assms(2)] by simp
  also have "\<dots> = Inr (0, key, Some v)" by (simp add: add_loop.simps)
  finally have l: "add_loop e rc ?line 0 ?line 0 [] None = Inr (0, key, Some v)" .
  show ?thesis unfolding rc_add_line_def t Let_def list.size l by simp
qed

lemma rc_add2_plain:
  assumes "3 \<le> length key" and "drop (length key - 3) key \<noteq> [key_delim rc, CHR ''['', CHR '']'']"
  shows "rc_add2 rc key v = bindR (ht_put (rc_h rc) key v) (\<lambda>h. Inr (rc\<lparr>rc_h := h\<rparr>))"
proof -
  have "\<not> (key ! (length key - 3) = key_delim rc \<and> key ! (length key - 2) = CHR ''['' \<and> key ! (length key - 1) = CHR '']'')"
  proof
    assume "key ! (length key - 3) = key_delim rc \<and> key ! (length key - 2) = CHR ''['' \<and> key ! (length key - 1) = CHR '']''"
    moreover have "length (drop (length key - 3) key) = Suc (Suc (Suc 0))" using assms(1) by simp
    then obtain a b c where "drop (length key - 3) key = [a, b, c]" unfolding length_Suc_conv by auto
    then obtain xs where "key = xs @ [a, b, c]" by (metis append_take_drop_id)
    ultimately show False using assms(2) by (simp add: nth_append)
  qed
  then show ?thesis using assms(1) by (auto simp: rc_add2_def ht_put_def Let_def bindR_assoc split_def)
qed

text \<open>C25: Adding a line that writes a value as a literal, with backslashes before braces and
  backslashes, stores exactly that value under the key: every value without dollar sign can be
  written. All other keys keep their values. The addition returns if the key is present or the
  table has a free slot and the second hash of the key is prime to its size.\<close>

theorem config_literal_roundtrip:
  assumes "ht_inv (rc_h rc)" and "plain_key key" and "CHR ''$'' \<notin> set v"
    and "drop (length key - 3) key \<noteq> [key_delim rc, CHR ''['', CHR '']'']"
    and "ht_map (rc_h rc) key \<noteq> None \<or> None \<in> set (rc_h rc) \<and> coprime (HFuncHorner (HSize (rc_h rc)) key) (HSize (rc_h rc))"
  shows "\<exists>h. rc_add_line e rc (key @ ''='' @ literal v) = Inr (rc\<lparr>rc_h := h\<rparr>) \<and> ht_inv h
    \<and> (\<forall>k. good_key k \<longrightarrow> ht_seek h k = (if k = key then Inr (Some v) else ht_seek (rc_h rc) k))"
proof -
  have k: "good_key key" "3 \<le> length key" using assms(2) by (simp_all add: plain_key_def)
  obtain h where h: "ht_put (rc_h rc) key v = Inr h"
    using ht_insert_room [OF assms(1), of "\<lparr>item_key = key, item_body = Some v, purge_body = False\<rparr>" True] k(1) assms(5)
    by (auto simp: ht_put_def ht_insert_ptr_def)
  then show ?thesis
    using rc_add_line_literal [OF assms(2,3), of e rc] rc_add2_plain [OF k(2) assms(4)] ht.seek_put [OF assms(1) k(1) _ h]
      ht.put_contents [OF assms(1) k(1) h] by auto
qed

theorem config_literal_roundtrip_witness:
  "\<exists>h. rc_add_line \<lparr>getenv = Map.empty, file_text = Inl\<rparr> dsApprc_new (''mykey='' @ literal '' a{b = '') = Inr (dsApprc_new\<lparr>rc_h := h\<rparr>)
     \<and> ht_seek h ''mykey'' = Inr (Some '' a{b = '')"
proof -
  have h: "rc_h dsApprc_new = replicate 256 None" by (simp add: dsApprc_new_def ht_new_def)
  have "coprime (HFuncHorner 256 ''mykey'') 256" by code_simp
  moreover have k: "plain_key ''mykey''" "good_key ''mykey''" by (simp_all add: plain_key_def good_key_def)
  moreover have "ht_inv (rc_h dsApprc_new)" unfolding h by (rule ht_inv_empty) simp_all
  ultimately obtain h' where "rc_add_line \<lparr>getenv = Map.empty, file_text = Inl\<rparr> dsApprc_new (''mykey'' @ ''='' @ literal '' a{b = '') = Inr (dsApprc_new\<lparr>rc_h := h'\<rparr>)"
      "\<forall>k. good_key k \<longrightarrow> ht_seek h' k = (if k = ''mykey'' then Inr (Some '' a{b = '') else ht_seek (rc_h dsApprc_new) k)"
    using config_literal_roundtrip [of dsApprc_new "''mykey''" "'' a{b = ''" "\<lparr>getenv = Map.empty, file_text = Inl\<rparr>"]
    by (auto simp: h HSize_def)
  then show ?thesis using k(2) by auto
qed

section \<open>Array keys\<close>

lemma show_base_digits: "list_all is_digit (show_base u 10 n)"
proof (induction n rule: less_induct)
  case (less n)
  show ?case
    using less [of "n div 10"] by (cases "n < 10") (simp_all add: show_base.simps [of u 10 n] is_digit_digit_char)
qed

lemma show_base_value: "foldl (\<lambda>n c. 10 * n + digit_value c) 0 (show_base u 10 n) = int n"
proof (induction n rule: less_induct)
  case (less n)
  have "10 * int (n div 10) + int (n mod 10) = int n" by presburger
  then show ?case
    using less [of "n div 10"] by (cases "n < 10") (simp_all add: show_base.simps [of u 10 n] is_digit_digit_char)
qed

lemma show_base_length: "n < 10 ^ Suc k \<Longrightarrow> length (show_base u 10 n) \<le> Suc k"
proof (induction k arbitrary: n)
  case 0
  then show ?case by (simp add: show_base.simps [of u 10 n])
next
  case (Suc k)
  then have "n div 10 < 10 ^ Suc k" by (simp add: less_mult_imp_div_less)
  from Suc.IH [OF this] show ?case by (simp add: show_base.simps [of u 10 n])
qed

lemma show_02d_nat:
  "list_all is_digit (show_02d (int n))" "show_02d (int n) \<noteq> []"
  "foldl (\<lambda>n c. 10 * n + digit_value c) 0 (show_02d (int n)) = int n"
  "n < 10 ^ 7 \<Longrightarrow> length (show_02d (int n)) \<le> 7"
proof -
  have d: "is_digit (CHR ''0'')" "digit_value (CHR ''0'') = 0" by (simp_all add: is_digit_def digit_value_def)
  show "list_all is_digit (show_02d (int n))" "show_02d (int n) \<noteq> []"
    "foldl (\<lambda>n c. 10 * n + digit_value c) 0 (show_02d (int n)) = int n"
    using show_base_digits [of False n] show_base_value [of False n] d
    by (simp_all add: show_02d_def show_int_def show_nat_def Let_def)
  show "n < 10 ^ 7 \<Longrightarrow> length (show_02d (int n)) \<le> 7"
    using show_base_length [of n 6 False] by (simp add: show_02d_def show_int_def show_nat_def Let_def)
qed

lemma show_02d_inj: "show_02d (int i) = show_02d (int j) \<longleftrightarrow> i = j"
  using show_02d_nat(3) [of i] show_02d_nat(3) [of j] by (metis of_nat_eq_iff)

lemma show_02d_not_count: "show_02d (int i) \<noteq> ''count''"
  using show_02d_nat(1) [of i] by (auto simp: is_digit_def)

lemma atol_show: "n < 2 ^ 63 \<Longrightarrow> atol (show_int (int n)) = int n"
proof -
  assume n: "n < 2 ^ 63"
  let ?s = "show_base False 10 n"
  obtain c t where s: "?s = c # t" by (cases ?s) auto
  have dig: "is_digit c" "takeWhile is_digit ?s = ?s"
    using show_base_digits [of False n] by (auto simp: s list_all_iff takeWhile_eq_all_conv)
  have "\<not> c_isspace c" "c \<noteq> CHR ''-''" "c \<noteq> CHR ''+''" using dig(1) by (auto simp: is_digit_def c_isspace_def)
  then have "dropWhile c_isspace ?s = ?s" by (simp add: s)
  moreover have "atol_digits ?s = int n" unfolding atol_digits_def dig(2) by (rule show_base_value)
  ultimately show ?thesis
    using n \<open>c \<noteq> CHR ''-''\<close> \<open>c \<noteq> CHR ''+''\<close> s by (simp add: atol_def show_int_def show_nat_def Let_def)
qed

text \<open>The keys of an array.\<close>

definition array_name :: "string \<Rightarrow> bool" where
  "array_name name \<longleftrightarrow> list_all (\<lambda>c. (of_char c :: nat) < 128) name \<and> length name < 2 ^ 20"

abbreviation elem_key :: "string \<Rightarrow> nat \<Rightarrow> string" where
  "elem_key name i \<equiv> name @ ''-'' @ show_02d (int i)"

definition array_is :: "string tableType \<Rightarrow> string \<Rightarrow> string list \<Rightarrow> bool" where
  "array_is h name vs \<longleftrightarrow> (\<forall>i<length vs. ht_contents h (elem_key name i) = Some (vs ! i))
     \<and> (case ht_contents h (name @ ''-count'') of None \<Rightarrow> vs = [] | Some s \<Rightarrow> atol s = int (length vs))"

lemma array_keys_good:
  assumes "array_name name" and "i < 10 ^ 7"
  shows "good_key (elem_key name i)" and "good_key (name @ ''-count'')"
proof -
  have "list_all (\<lambda>c. (of_char c :: nat) < 128) (show_02d (int i))"
    using show_02d_nat(1) [of i] by (auto simp: list_all_iff is_digit_def)
  then show "good_key (elem_key name i)" "good_key (name @ ''-count'')"
    using assms show_02d_nat(4) [OF assms(2)] by (simp_all add: array_name_def good_key_def)
qed

lemma add_array_step:
  assumes "ht_inv (rc_h rc)" and "keyst rc = None" and "key_delim rc = CHR ''-''" and "array_name name"
    and "array_is (rc_h rc) name vs" and "length vs < 10 ^ 6"
  shows "case rc_add2 rc (name @ ''-[]'') v of
      Inr rc' \<Rightarrow> \<exists>h. rc' = rc\<lparr>rc_h := h\<rparr> \<and> ht_inv h \<and> array_is h name (vs @ [v])
    | Inl err \<Rightarrow> err = MemFault \<or> err = HashTableException ''Table full and can't grow more''"
proof -
  let ?c = "name @ ''-count''" and ?n = "length vs"
  have g: "good_key (elem_key name ?n)" "good_key ?c" using array_keys_good [OF assms(4), of ?n] assms(6) by simp_all
  have "getlong_default rc ?c 0 = Inr (int ?n)"
    using ht_seek_contents [OF assms(1) g(2)] assms(2,5)
    by (auto simp: getlong_default_def rc_seek_def array_is_def split: option.splits)
  moreover have s: "s32 (int ?n) = int ?n" "s32 (int ?n + 1) = int (Suc ?n)" using assms(6) by simp_all
  ultimately have run: "rc_add2 rc (name @ ''-[]'') v =
      bindR (ht_insert_ptr (rc_h rc) (elem_key name ?n) (Some v) True) (\<lambda>(h, _).
      bindR (ht_insert_copy h ?c (show_int (int (Suc ?n))) True) (\<lambda>(h, _). Inr (rc\<lparr>rc_h := h\<rparr>)))"
    using assms(3) by (simp add: rc_add2_def nth_append Let_def del: of_nat_Suc)
  let ?it1 = "\<lparr>item_key = elem_key name ?n, item_body = Some v, purge_body = False\<rparr>"
    and ?it2 = "\<lparr>item_key = ?c, item_body = Some (show_int (int (Suc ?n))), purge_body = True\<rparr>"
  show ?thesis
  proof (cases "ht_insert (rc_h rc) ?it1 True")
    case (Inl err)
    then show ?thesis using ht_insert_outcome [OF assms(1), of ?it1 True] g by (auto simp: run ht_insert_ptr_def)
  next
    case (Inr p1)
    obtain h1 r1 where p1: "p1 = (h1, r1)" by (cases p1)
    then have h1: "ht_inv h1" "ht_contents h1 = (ht_contents (rc_h rc))(elem_key name ?n \<mapsto> v)"
      using ht_insert_contents [OF assms(1) _ Inr [unfolded p1]] g by simp_all
    show ?thesis
    proof (cases "ht_insert h1 ?it2 True")
      case (Inl err)
      then show ?thesis using ht_insert_outcome [OF h1(1), of ?it2 True] g \<open>ht_insert (rc_h rc) ?it1 True = Inr p1\<close> p1
        by (auto simp: run ht_insert_ptr_def ht_insert_copy_def)
    next
      case (Inr p2)
      obtain h2 r2 where p2: "p2 = (h2, r2)" by (cases p2)
      then have h2: "ht_inv h2" "ht_contents h2 = (ht_contents h1)(?c \<mapsto> show_int (int (Suc ?n)))"
        using ht_insert_contents [OF h1(1) _ Inr [unfolded p2]] g by simp_all
      have "array_is h2 name (vs @ [v])"
        using assms(5,6) atol_show [of "Suc ?n"] show_02d_not_count
        by (auto simp: array_is_def h1(2) h2(2) show_02d_inj nth_append less_Suc_eq simp del: of_nat_Suc)
      then show ?thesis
        using h2(1) \<open>ht_insert (rc_h rc) ?it1 True = Inr p1\<close> Inr p1 p2
        by (auto simp: run ht_insert_ptr_def ht_insert_copy_def)
    qed
  qed
qed

text \<open>Array keys. Adding values one after the other under \<open>name-[]\<close>, from a configuration
  without counter for the name, gives a list: the counter is the number of values and the
  element with index \<open>i\<close> is the \<open>i\<close>th of them; an addition that does not return is a failure of the
  hash table.\<close>

theorem config_array_is_list:
  assumes "ht_inv (rc_h rc)" and "keyst rc = None" and "key_delim rc = CHR ''-''" and "array_name name"
    and "ht_contents (rc_h rc) (name @ ''-count'') = None" and "length vs < 10 ^ 6"
  shows "case foldl (\<lambda>r v. bindR r (\<lambda>rc. rc_add2 rc (name @ ''-[]'') v)) (Inr rc) vs of
      Inr rc' \<Rightarrow> getlong_default rc' (name @ ''-count'') 0 = Inr (int (length vs))
        \<and> (\<forall>i<length vs. getstring_idx rc' name (int i) = Inr (vs ! i))
    | Inl err \<Rightarrow> err = MemFault \<or> err = HashTableException ''Table full and can't grow more''"
proof -
  have run: "case foldl (\<lambda>r v. bindR r (\<lambda>rc. rc_add2 rc (name @ ''-[]'') v)) (Inr rc) vs of
      Inr rc' \<Rightarrow> \<exists>h. rc' = rc\<lparr>rc_h := h\<rparr> \<and> ht_inv h \<and> array_is h name vs
    | Inl err \<Rightarrow> err = MemFault \<or> err = HashTableException ''Table full and can't grow more''"
    using assms(6)
  proof (induction vs rule: rev_induct)
    case Nil
    have "array_is (rc_h rc) name []" using assms(5) by (simp add: array_is_def)
    then show ?case using assms(1) by (auto intro!: exI [of _ "rc_h rc"])
  next
    case (snoc v vs)
    show ?case
    proof (cases "foldl (\<lambda>r v. bindR r (\<lambda>rc. rc_add2 rc (name @ ''-[]'') v)) (Inr rc) vs")
      case (Inr rc1)
      then obtain h where "rc1 = rc\<lparr>rc_h := h\<rparr>" "ht_inv h" "array_is h name vs" using snoc by auto
      then show ?thesis using add_array_step [of rc1 name vs v] assms(2-4) snoc.prems Inr by (auto split: sum.splits)
    qed (use snoc in auto)
  qed
  show ?thesis
  proof (cases "foldl (\<lambda>r v. bindR r (\<lambda>rc. rc_add2 rc (name @ ''-[]'') v)) (Inr rc) vs")
    case (Inr rc')
    then obtain h where h: "rc' = rc\<lparr>rc_h := h\<rparr>" "ht_inv h" "array_is h name vs" using run by auto
    have "getlong_default rc' (name @ ''-count'') 0 = Inr (int (length vs))"
      using h assms(2) ht_seek_contents [OF h(2) array_keys_good(2) [OF assms(4), of 0]]
      by (auto simp: getlong_default_def rc_seek_def array_is_def split: option.splits)
    moreover have "getstring_idx rc' name (int i) = Inr (vs ! i)" if i: "i < length vs" for i
    proof -
      have "i < 10 ^ 7" using i assms(6) by simp
      note k = array_keys_good(1) [OF assms(4) this] show_02d_nat(4) [OF this]
      show ?thesis
        using h assms(2) ht_seek_contents [OF h(2) k(1)] k(2) i
        by (simp add: getstring_idx_def rc_seek_idx_def rc_seek_def array_is_def)
    qed
    ultimately show ?thesis using Inr by simp
  qed (use run in auto)
qed

theorem config_array_is_list_witness:
  "\<exists>rc'. foldl (\<lambda>r v. bindR r (\<lambda>rc. rc_add2 rc (''dns'' @ ''-[]'') v)) (Inr dsApprc_new) [''a'', ''b''] = Inr rc'
     \<and> getlong_default rc' (''dns'' @ ''-count'') 0 = Inr 2 \<and> getstring_idx rc' ''dns'' 1 = Inr ''b''"
proof -
  let ?r = "foldl (\<lambda>r v. bindR r (\<lambda>rc. rc_add2 rc (''dns'' @ ''-[]'') v)) (Inr dsApprc_new) [''a'', ''b'']"
  have h: "rc_h dsApprc_new = replicate 256 None" by (simp add: dsApprc_new_def ht_new_def)
  have "ht_inv (rc_h dsApprc_new)" unfolding h by (rule ht_inv_empty) simp_all
  then have r: "case ?r of Inr rc' \<Rightarrow> getlong_default rc' (''dns'' @ ''-count'') 0 = Inr (int (length [''a'', ''b'']))
        \<and> (\<forall>i<length [''a'', ''b'']. getstring_idx rc' ''dns'' (int i) = Inr ([''a'', ''b''] ! i))
      | Inl err \<Rightarrow> err = MemFault \<or> err = HashTableException ''Table full and can't grow more''"
    by (intro config_array_is_list) (simp_all add: h ht_contents_def array_name_def, simp_all add: dsApprc_new_def)
  have "isl ?r = False" by code_simp
  with r obtain rc' where "?r = Inr rc'" "getlong_default rc' (''dns'' @ ''-count'') 0 = Inr 2"
      "\<forall>i<2. getstring_idx rc' ''dns'' (int i) = Inr ([''a'', ''b''] ! i)"
    by (cases ?r) auto
  moreover from this(3) [rule_format, of 1] have "getstring_idx rc' ''dns'' 1 = Inr ''b''" by simp
  ultimately show ?thesis by blast
qed

section \<open>Loading ends\<close>

text \<open>Results other than divergence, with what holds of the value.\<close>

definition ends :: "('a \<Rightarrow> bool) \<Rightarrow> 'a res \<Rightarrow> bool" where
  "ends P r \<longleftrightarrow> (case r of Inl err \<Rightarrow> err \<noteq> Diverges | Inr x \<Rightarrow> P x)"

lemma ends_simps [simp]: "ends P (Inr x) = P x" "ends P (Inl err) = (err \<noteq> Diverges)"
  by (simp_all add: ends_def)

lemma ends_bind: "ends Q m \<Longrightarrow> (\<And>x. Q x \<Longrightarrow> ends P (f x)) \<Longrightarrow> ends P (bindR m f)"
  by (cases m) auto

lemma ends_at_line [simp]: "ends P (at_line n r) = ends P r"
  by (induction n r rule: at_line.induct) auto

lemma ends_seek: "size_ok t \<Longrightarrow> ends (\<lambda>_. True) (ht_seek t key)"
  using ht_seek_ends [of t key] by (cases "ht_seek t key") auto

lemma ends_insert: "size_ok t \<Longrightarrow> ends (\<lambda>(t', _). size_ok t') (ht_insert t it replace)"
  using ht_insert_ends [of t it replace] ht_insert_size [of t it replace] by (cases "ht_insert t it replace") auto

lemma ends_rc_seek: "size_ok (rc_h rc) \<Longrightarrow> ends (\<lambda>_. True) (rc_seek rc key)"
  by (auto simp: rc_seek_def ends_seek split: option.splits)

lemma ends_expand_var: "size_ok (rc_h rc) \<Longrightarrow> ends (\<lambda>_. True) (expand_var e rc name)"
  unfolding expand_var_def Let_def
  by (auto intro!: ends_bind [OF ends_rc_seek] split: option.splits)

text \<open>Adding keys keeps the size within bounds and does not touch the counter of includes.\<close>

definition same_count :: "dsApprc \<Rightarrow> dsApprc \<Rightarrow> bool" where
  "same_count rc rc' \<longleftrightarrow> size_ok (rc_h rc') \<and> recursion_cnt rc' = recursion_cnt rc"

lemma ends_add2: "size_ok (rc_h rc) \<Longrightarrow> ends (same_count rc) (rc_add2 rc key val)"
  unfolding rc_add2_def Let_def ht_insert_ptr_def ht_insert_copy_def getlong_default_def
  by (auto intro!: ends_bind [OF ends_insert] ends_bind [OF ends_rc_seek] simp: same_count_def bindR_assoc)

lemma ends_add_loop:
  assumes "size_ok (rc_h rc)" shows "ends (\<lambda>_. True) (add_loop e rc line trail s lit key val)"
proof (induction s arbitrary: lit key val rule: length_induct)
  case (1 s)
  then have IH: "ends (\<lambda>_. True) (add_loop e rc line trail s' l k v)" if "length s' < length s" for s' l k v
    using that by blast
  show ?case
  proof (cases s)
    case (Cons c t)
    have "ends (\<lambda>(_, n). 0 < n) (expand_var e rc t)"
      using ends_expand_var [OF assms, of e t] expand_var_advances [of e rc t] by (cases "expand_var e rc t") auto
    then have var: "ends (\<lambda>_. True) (bindR (expand_var e rc t) (\<lambda>p. add_loop e rc line trail (drop (snd p) (x # t)) l (k p) (v p)))" for x l k v
      by (rule ends_bind) (use Cons in \<open>auto intro!: IH\<close>)
    have "length (dropWhile is_gap t) < length s" using Cons by (simp add: le_imp_less_Suc length_dropWhile_le)
    then show ?thesis
      by (subst add_loop.simps) (simp add: Cons IH var Let_def split_def)
  qed (simp add: add_loop.simps)
qed

lemma ends_add_line: "size_ok (rc_h rc) \<Longrightarrow> ends (same_count rc) (rc_add_line e rc line)"
  unfolding rc_add_line_def Let_def
  by (auto intro!: ends_bind [OF ends_add_loop] ends_add2 split: option.splits)

lemma ends_condition:
  assumes "size_ok (rc_h rc)" shows "ends (\<lambda>_. True) (expand_condition e rc cond)"
proof (induction cond rule: length_induct)
  case (1 cond)
  then have IH: "ends (\<lambda>_. True) (expand_condition e rc c)" if "length c < length cond" for c using that by blast
  have trim: "ends (\<lambda>_. True) (trim t)" for t by (simp add: trim_def Let_def)
  have cut: "ends (\<lambda>(_, r). length r < length cond)
      (case strchr rh c of None \<Rightarrow> Inr (b, rh)
       | Some i \<Rightarrow> if char_at rh (i + 1) = Some c then bindR (expand_condition e rc (drop (i + 2) rh)) (\<lambda>r. Inr (f r, take i rh))
                  else Inr (b, rh))" if "length rh < length cond" for rh b c f
    using that by (auto split: option.splits intro!: ends_bind [OF IH])
  have sides: "ends (\<lambda>_. True) (bindR (trim lh) (\<lambda>lh. bindR (trim rh) (\<lambda>rh.
      bindR (if char_at lh 0 = Some (CHR ''$'') then bindR (expand_var e rc (drop 1 lh)) (\<lambda>(c, _). Inr c) else Inr lh) (\<lambda>c. Inr (f c rh)))))" for lh rh f
    by (rule ends_bind [OF trim], rule ends_bind [OF trim], rule ends_bind [of "\<lambda>_. True"])
      (auto intro!: ends_bind [OF ends_expand_var [OF assms]])
  have stages: "ends (\<lambda>_. True) (bindR (and_stage e rc b rh) (\<lambda>(b, rh). bindR (or_stage e rc b rh) (\<lambda>(b, rh). g b rh)))"
    if "length rh < length cond" and "\<And>b rh. ends (\<lambda>_. True) (g b rh)" for b rh g
    unfolding and_stage_def or_stage_def
    by (rule ends_bind [OF cut [OF that(1)]], clarify, rule ends_bind [OF cut], assumption, clarify, rule that(2))
  show ?case
  proof (cases "strchr cond (CHR ''='')")
    case (Some q)
    have "ends (\<lambda>_. True) (if length cond < p + 3 then Inl MemFault
        else let lh = take p cond; rh = drop (p + 3) cond in
          bindR (and_stage e rc b rh) (\<lambda>(b, rh). bindR (or_stage e rc b rh) (\<lambda>(b, rh).
          bindR (trim lh) (\<lambda>lh. bindR (trim rh) (\<lambda>rh.
          bindR (if char_at lh 0 = Some (CHR ''$'') then bindR (expand_var e rc (drop 1 lh)) (\<lambda>(c, _). Inr c) else Inr lh) (\<lambda>c.
          Inr (if b then c = rh else c \<noteq> rh)))))))" for b p
      unfolding Let_def by (cases "length cond < p + 3") (simp_all only: if_True if_False ends_simps, simp, rule stages [OF _ sides], simp)
    then show ?thesis
      unfolding and_stage_def or_stage_def
      by (subst expand_condition.simps) (simp only: Some option.case, rule ends_bind [of "\<lambda>_. True"], simp, clarify, assumption)
  qed (simp add: expand_condition.simps)
qed

lemma ends_include_name:
  assumes "size_ok (rc_h rc)" shows "ends (\<lambda>_. True) (include_name e rc s)"
proof -
  have "ends (\<lambda>_. True) (include_loop e rc s tmp)" for s tmp
  proof (induction s arbitrary: tmp rule: length_induct)
    case (1 s)
    then have IH: "ends (\<lambda>_. True) (include_loop e rc s' tmp')" if "length s' < length s" for s' tmp' using that by blast
    show ?case
    proof (cases s)
      case (Cons c t)
      have "ends (\<lambda>(_, n). 0 < n) (expand_var e rc t)"
        using ends_expand_var [OF assms, of e t] expand_var_advances [of e rc t] by (cases "expand_var e rc t") auto
      then have "ends (\<lambda>_. True) (bindR (expand_var e rc t) (\<lambda>(res, n). include_loop e rc (drop n s) (tmp @ res)))"
        by (rule ends_bind) (use Cons in \<open>auto intro!: IH\<close>)
      then show ?thesis by (subst include_loop.simps) (auto simp: Cons IH include_syntax_def)
    qed (simp add: include_loop.simps include_syntax_def)
  qed
  then show ?thesis by (simp add: include_name_def include_syntax_def split: list.splits)
qed

text \<open>The lines of the texts fit the buffer.\<close>

definition short_lines :: "string \<Rightarrow> bool" where
  "short_lines text \<longleftrightarrow> list_all (\<lambda>l. length l \<le> MAX_RC_LINE - 2) (stream_lines text)"

definition counted_from :: "dsApprc \<Rightarrow> dsApprc \<Rightarrow> bool" where
  "counted_from rc rc' \<longleftrightarrow> size_ok (rc_h rc') \<and> recursion_cnt rc \<le> recursion_cnt rc'"

lemma ends_if: "(c \<Longrightarrow> ends P a) \<Longrightarrow> (\<not> c \<Longrightarrow> ends P b) \<Longrightarrow> ends P (if c then a else b)"
  by simp

lemma ends_mono: "ends P r \<Longrightarrow> (\<And>x. P x \<Longrightarrow> Q x) \<Longrightarrow> ends Q r"
  by (cases r) auto

definition include_part :: "nat \<Rightarrow> rc_env \<Rightarrow> dsApprc \<Rightarrow> string \<Rightarrow> dsApprc res" where
  "include_part fuel e rc s =
     (if recursion_cnt rc > MAX_INCLUDE_LEVEL then Inl (KeyException ''Too many nested includes.'')
      else
        let rc = rc\<lparr>recursion_cnt := recursion_cnt rc + 1\<rparr> in
        bindR (include_name e rc s) (\<lambda>fname.
        if fuel = 0 then Inl Diverges
        else (case file_text e fname of
                Inl err \<Rightarrow> Inl (KeyException (''Can't open file '' @ quoted fname @ '' ('' @ err @ '')''))
              | Inr text \<Rightarrow>
                  bindR (rc_add e rc ''.file-[]'' fname) (\<lambda>rc.
                  load_lines (fuel - 1) e rc 0 [False] (stream_lines text)))))"

lemma ends_include_part:
  assumes "size_ok (rc_h rc)" and "11 \<le> fuel + recursion_cnt rc" and files: "\<And>f content. file_text e f = Inr content \<Longrightarrow> short_lines content"
    and IH: "\<And>rc ls. fuel \<noteq> 0 \<Longrightarrow> size_ok (rc_h rc) \<Longrightarrow> 11 \<le> fuel - 1 + recursion_cnt rc \<Longrightarrow>
          list_all (\<lambda>l. length l \<le> MAX_RC_LINE - 2) ls \<Longrightarrow> ends (counted_from rc) (load_lines (fuel - 1) e rc 0 [False] ls)"
  shows "ends (counted_from rc) (include_part fuel e rc s)"
proof (cases "recursion_cnt rc > MAX_INCLUDE_LEVEL")
  case False
  let ?rc = "rc\<lparr>recursion_cnt := recursion_cnt rc + 1\<rparr>"
  have ok: "size_ok (rc_h ?rc)" using assms(1) by simp
  have f: "fuel \<noteq> 0" using False assms(2) by auto
  have "ends (counted_from rc) (bindR (rc_add e ?rc ''.file-[]'' fname) (\<lambda>rc. load_lines (fuel - 1) e rc 0 [False] (stream_lines content)))"
    if "file_text e fname = Inr content" for fname content
    unfolding rc_add_def
  proof (rule ends_bind [OF ends_add_line [OF ok]])
    fix rc1 assume rc1: "same_count ?rc rc1"
    then have "ends (counted_from rc1) (load_lines (fuel - 1) e rc1 0 [False] (stream_lines content))"
      using IH [OF f, of rc1 "stream_lines content"] files [OF that] assms(2) f by (simp add: same_count_def short_lines_def)
    then show "ends (counted_from rc) (load_lines (fuel - 1) e rc1 0 [False] (stream_lines content))"
      by (rule ends_mono) (use rc1 in \<open>auto simp: counted_from_def same_count_def\<close>)
  qed
  then show ?thesis
    unfolding include_part_def using False f assms(1)
    by (auto simp: Let_def intro!: ends_bind [OF ends_include_name] ok split: sum.splits)
qed (simp add: include_part_def)

lemma ends_load_lines:
  assumes files: "\<And>f text. file_text e f = Inr text \<Longrightarrow> short_lines text"
    and "size_ok (rc_h rc)" and "11 \<le> fuel + recursion_cnt rc" and "list_all (\<lambda>l. length l \<le> MAX_RC_LINE - 2) ls"
  shows "ends (counted_from rc) (load_lines fuel e rc line ign ls)"
  using assms(2-4)
proof (induction fuel arbitrary: rc line ign ls rule: less_induct)
  case (less fuel)
  have inc: "ends (counted_from rc) (include_part fuel e rc s)" if "size_ok (rc_h rc)" "11 \<le> fuel + recursion_cnt rc" for rc s
    by (rule ends_include_part [OF that files], assumption) (rule less.IH; simp)
  show ?case
    using less.prems
  proof (induction ls arbitrary: rc line ign)
    case Nil
    then show ?case by (simp add: load_lines.simps counted_from_def)
  next
    case (Cons l ls)
    let ?buf = "dropWhile is_gap (take (MAX_RC_LINE - 2) l)"
    let ?cont = "\<lambda>rc ign. if length l > MAX_RC_LINE - 2 then Inl Diverges else load_lines fuel e rc (line + 1) ign ls"
    have cont: "ends (counted_from rc) (?cont rc1 ign1)" if "counted_from rc rc1" for rc1 ign1
    proof -
      have "ends (counted_from rc1) (load_lines fuel e rc1 (line + 1) ign1 ls)"
        using that Cons.prems by (intro Cons.IH) (auto simp: counted_from_def)
      then show ?thesis
        using that Cons.prems(3) by (auto elim!: ends_mono simp: counted_from_def)
    qed
    have self: "counted_from rc rc" using Cons.prems by (simp add: counted_from_def)
    have incl: "ends (counted_from rc) (bindR (at_line (line + 1) (include_part fuel e rc s)) (\<lambda>rc. ?cont rc ign))" for s
      by (rule ends_bind [of "counted_from rc"]) (use inc Cons.prems cont in auto)
    have cond: "ends (counted_from rc) (bindR (at_line (line + 1) (expand_condition e rc s)) (\<lambda>c.
        if length ign \<ge> 30 then Inl MemFault else ?cont rc ((\<not> c) # ign)))" for s
      by (rule ends_bind [of "\<lambda>_. True"]) (use ends_condition Cons.prems cont [OF self] in auto)
    have add: "ends (counted_from rc) (bindR (at_line (line + 1) (rc_add_line e rc ?buf)) (\<lambda>rc. ?cont rc ign))"
      by (rule ends_bind [of "same_count rc"]) (use ends_add_line Cons.prems cont in \<open>auto simp: same_count_def counted_from_def\<close>)
    have stop: "ends (counted_from rc) (at_line n (if b then Inl (KeyException m) else Inr rc))" for n b m using self by simp
    show ?case
      unfolding load_lines.simps(2) Let_def include_part_def [unfolded Let_def, symmetric]
      by (intro ends_if cont [OF self] incl cond add stop) simp
  qed
qed

text \<open>C24: Loading ends: if no line of the files is longer than 1022 characters, then loading a file,
  with all it includes, comes to a result or an exception, whatever the includes, conditions and
  variables.\<close>

theorem config_load_ends:
  assumes "\<forall>f content. file_text e f = Inr content \<longrightarrow> short_lines content" and "size_ok (rc_h rc)"
  shows "load_file e rc fname \<noteq> Inl Diverges"
proof -
  have "ends (\<lambda>_. True) (load_file e rc fname)"
  proof (cases "file_text e fname")
    case (Inr content)
    have "ends (\<lambda>_. True) (load_stream e rc1 content)" if "same_count rc rc1" for rc1
      unfolding load_stream_def
      by (rule ends_mono [OF ends_load_lines [of e rc1 11]])
        (use assms(1) that Inr in \<open>auto simp: short_lines_def same_count_def\<close>)
    then show ?thesis
      unfolding load_file_def Inr rc_add_def sum.case by (rule ends_bind [OF ends_add_line [OF assms(2)]])
  qed (simp add: load_file_def)
  then show ?thesis by auto
qed

theorem config_load_ends_witness:
  "load_file \<lparr>getenv = Map.empty, file_text = (\<lambda>f. if f = ''a.rc'' then Inr (''.include '' @ [CHR 0x22] @ ''a.rc'' @ [CHR 0x22, CHR 0x0A]) else Inl ''none'')\<rparr>
     dsApprc_new ''a.rc'' \<noteq> Inl Diverges"
proof (rule config_load_ends)
  have "stream_lines (''.include '' @ [CHR 0x22] @ ''a.rc'' @ [CHR 0x22, CHR 0x0A]) = [''.include '' @ [CHR 0x22] @ ''a.rc'' @ [CHR 0x22]]"
    by (simp add: stream_lines.simps)
  then show "\<forall>f content. file_text \<lparr>getenv = Map.empty, file_text = (\<lambda>f. if f = ''a.rc'' then Inr (''.include '' @ [CHR 0x22] @ ''a.rc'' @ [CHR 0x22, CHR 0x0A]) else Inl ''none'')\<rparr> f = Inr content \<longrightarrow> short_lines content"
    by (auto simp: short_lines_def split: if_splits)
qed (simp add: dsApprc_new_def ht_new_def size_ok_def)

text \<open>A longer line makes loading run forever, even in a comment: the stream stays in its
  failed state and never reports the end of the file.\<close>

theorem long_line_hangs:
  assumes "CHR 0x0A \<notin> set l" and "1022 \<le> length l"
  shows "load_stream e rc (''#'' @ l @ CHR 0x0A # rest) = Inl Diverges"
proof -
  have "takeWhile (\<lambda>c. c \<noteq> CHR 0x0A) (l @ CHR 0x0A # rest) = l"
    using assms(1) by (subst takeWhile_append2) auto
  then have "stream_lines (''#'' @ l @ CHR 0x0A # rest) = (CHR ''#'' # l) # stream_lines rest"
    by (subst stream_lines.simps) (simp add: Let_def)
  moreover have "dropWhile is_gap (take 1022 (CHR ''#'' # l)) = CHR ''#'' # take 1021 l"
    by (simp add: is_gap_def take_Cons')
  ultimately show ?thesis using assms(2) by (simp add: load_stream_def load_lines.simps(2) Let_def)
qed

theorem long_line_hangs_witness:
  "load_stream \<lparr>getenv = Map.empty, file_text = Inl\<rparr> dsApprc_new (''#'' @ replicate 1022 (CHR ''x'') @ CHR 0x0A # []) = Inl Diverges"
  by (rule long_line_hangs) simp_all

end
