(* ===== verification/DaemonProps.thy ===== *)
theory DaemonProps
  imports Daemon ApprcProps
begin

text \<open>
  What the process id file achieves: it names a running process, it is never taken from one, and a
  start that waits for its predecessor succeeds as soon as that one has gone.
\<close>

lemma ex2I: "P x y \<Longrightarrow> \<exists>x y. P x y"
  by blast

section \<open>Waiting\<close>

text \<open>A process that has gone does not come back under its number.\<close>

definition stays_dead :: "os_env \<Rightarrow> int \<Rightarrow> bool" where
  "stays_dead env pid \<longleftrightarrow> (\<forall>c d. c \<le> d \<longrightarrow> \<not> os_kill env c pid \<longrightarrow> \<not> os_kill env d pid)"

text \<open>What waiting for a number of seconds does to the process.\<close>

definition waited :: "int \<Rightarrow> nat \<Rightarrow> nat \<Rightarrow> process \<Rightarrow> process" where
  "waited pid k c u = u\<lparr>signals := signals u @ replicate k (pid, Some SIGTERM), slept := slept u + int k * 1000000000, os_calls := c\<rparr>"

lemma waited_sel [simp]:
  "files (waited pid k c u) = files u" "os_calls (waited pid k c u) = c" "dm_flags (waited pid k c u) = dm_flags u"
  "signals (waited pid k c u) = signals u @ replicate k (pid, Some SIGTERM)" "open_fds (waited pid k c u) = open_fds u"
  "cwd (waited pid k c u) = cwd u" "session_leader (waited pid k c u) = session_leader u" "actions (waited pid k c u) = actions u"
  by (simp_all add: waited_def)

lemma kill_wait_dead: "\<not> os_kill env (os_calls u) pid \<Longrightarrow> kill_wait env pid u = Some (waited pid 0 (Suc (os_calls u)) u)"
  by (subst kill_wait.simps) (simp add: sys_kill_def tick_def waited_def)

lemma kill_wait_alive:
  assumes "naps_end env" and "os_kill env (os_calls u) pid"
  shows "\<exists>c. kill_wait env pid u = kill_wait env pid (waited pid 1 c u) \<and> Suc (os_calls u) < c"
proof -
  let ?u = "tick (u\<lparr>signals := signals u @ [(pid, Some SIGTERM)]\<rparr>)"
  from safe_sleep_ns_ends [OF assms(1), of 1 0 ?u] obtain c where
    "safe_sleep env 1 ?u = Some (?u\<lparr>slept := slept ?u + nanos 1 0, os_calls := c\<rparr>)" "os_calls ?u < c"
    by (auto simp: safe_sleep_def nanos_def)
  then show ?thesis using assms(2)
    by (subst kill_wait.simps) (auto simp: sys_kill_def tick_def waited_def nanos_def intro!: exI [of _ c])
qed

lemma waited_waited: "waited pid k d (waited pid (Suc 0) c u) = waited pid (Suc k) d u"
  by (simp add: waited_def replicate_append_same algebra_simps)

lemma kill_wait_ends:
  assumes "naps_end env" and "stays_dead env pid" and "os_calls u \<le> n" and "\<not> os_kill env n pid"
  shows "\<exists>k c. kill_wait env pid u = Some (waited pid k c u) \<and> \<not> os_kill env c pid \<and> os_calls u \<le> c"
  using assms(3)
proof (induction "n - os_calls u" arbitrary: u rule: less_induct)
  case less
  show ?case
  proof (cases "os_kill env (os_calls u) pid")
    case False
    then have "\<not> os_kill env (Suc (os_calls u)) pid" using assms(2) unfolding stays_dead_def by (meson le_SucI order_refl)
    with kill_wait_dead [OF False] show ?thesis
      by (intro ex2I [where x = 0 and y = "Suc (os_calls u)"]) simp
  next
    case True
    from kill_wait_alive [OF assms(1) True] obtain c where
      c: "kill_wait env pid u = kill_wait env pid (waited pid 1 c u)" "Suc (os_calls u) < c" by blast
    show ?thesis
    proof (cases "c \<le> n")
      case True
      with c have "n - c < n - os_calls u" by arith
      with True c less.hyps [of "waited pid 1 c u"] obtain k d where
        "kill_wait env pid (waited pid 1 c u) = Some (waited pid k d (waited pid 1 c u))" "\<not> os_kill env d pid" "c \<le> d" by auto
      with c show ?thesis by (intro ex2I [where x = "Suc k" and y = d]) (simp add: waited_waited)
    next
      case False
      then have "\<not> os_kill env c pid" "\<not> os_kill env (Suc c) pid" using assms(2,4) unfolding stays_dead_def by (meson le_SucI nat_le_linear)+
      with kill_wait_dead [of env "waited pid 1 c u" pid] c show ?thesis
        by (intro ex2I [where x = "Suc 0" and y = "Suc c"]) (simp add: waited_waited)
    qed
  qed
qed

lemma safe_sleep_ns_frame:
  assumes "safe_sleep_ns env s n u = Some u'"
  shows "files u' = files u \<and> signals u' = signals u \<and> os_calls u < os_calls u' \<and> actions u' = actions u"
proof (rule safe_sleep_ns.raw_induct [where P = "\<lambda>env s n u u'. files u' = files u \<and> signals u' = signals u
    \<and> os_calls u < os_calls u' \<and> actions u' = actions u", OF _ assms])
  fix g env s n u r
  assume IH: "\<And>env s n u r. g env s n u = Some r \<Longrightarrow>
      files r = files u \<and> signals r = signals u \<and> os_calls u < os_calls r \<and> actions r = actions u"
    and eq: "(case os_nap env (os_calls u) s n of
        Nap_full \<Rightarrow> Some (tick (u\<lparr>slept := slept u + nanos s n\<rparr>))
      | Nap_cut rem_s rem_ns \<Rightarrow>
          if rem_s = 0 \<and> rem_ns = 0 then Some (tick (u\<lparr>slept := slept u + nanos s n\<rparr>))
          else g env rem_s rem_ns (tick (u\<lparr>slept := slept u + (nanos s n - nanos rem_s rem_ns)\<rparr>))
      | Nap_failed \<Rightarrow> Some (tick u)) = Some r"
  show "files r = files u \<and> signals r = signals u \<and> os_calls u < os_calls r \<and> actions r = actions u"
    using eq by (auto simp: tick_def split: nap.splits if_splits dest!: IH)
qed

text \<open>If waiting returns, the last call found nobody.\<close>

lemma kill_wait_frame:
  assumes "kill_wait env pid u = Some u'"
  shows "files u' = files u \<and> os_calls u < os_calls u' \<and> actions u' = actions u
    \<and> (\<exists>c. os_calls u \<le> c \<and> c < os_calls u' \<and> \<not> os_kill env c pid)"
proof (rule kill_wait.raw_induct [where P = "\<lambda>env pid u u'. files u' = files u \<and> os_calls u < os_calls u' \<and> actions u' = actions u
    \<and> (\<exists>c. os_calls u \<le> c \<and> c < os_calls u' \<and> \<not> os_kill env c pid)", OF _ assms])
  fix g env pid u r
  assume IH: "\<And>env pid u r. g env pid u = Some r \<Longrightarrow>
      files r = files u \<and> os_calls u < os_calls r \<and> actions r = actions u
      \<and> (\<exists>c. os_calls u \<le> c \<and> c < os_calls r \<and> \<not> os_kill env c pid)"
    and eq: "(case sys_kill env pid (Some SIGTERM) u of (ok, u) \<Rightarrow>
      if ok then Option.bind (safe_sleep env 1 u) (\<lambda>u. g env pid u) else Some u) = Some r"
  show "files r = files u \<and> os_calls u < os_calls r \<and> actions r = actions u
      \<and> (\<exists>c. os_calls u \<le> c \<and> c < os_calls r \<and> \<not> os_kill env c pid)"
  proof (cases "os_kill env (os_calls u) pid")
    case False
    with eq have "r = tick u" by (simp add: sys_kill_def)
    with False show ?thesis by (intro conjI exI [of _ "os_calls u"]) (simp_all add: tick_def)
  next
    case True
    let ?u = "tick (u\<lparr>signals := signals u @ [(pid, Some SIGTERM)]\<rparr>)"
    from eq True obtain v where v: "safe_sleep_ns env 1 0 ?u = Some v" "g env pid v = Some r"
      by (auto simp: sys_kill_def safe_sleep_def bind_eq_Some_conv)
    from IH [OF v(2)] obtain c where "os_calls v \<le> c" "c < os_calls r" "\<not> os_kill env c pid" by blast
    then show ?thesis using IH [OF v(2)] safe_sleep_ns_frame [OF v(1)]
      by (intro conjI exI [of _ c]) (simp_all add: tick_def)
  qed
qed

lemma kill_wait_forever: "\<forall>c \<ge> os_calls u. os_kill env c pid \<Longrightarrow> kill_wait env pid u = None"
  using kill_wait_frame [of env pid u] by (cases "kill_wait env pid u") auto

section \<open>The process id file\<close>

lemma scan_ld_show: "n < 2 ^ 63 \<Longrightarrow> scan_ld (show_int (int n)) = Some (int n)"
proof -
  assume n: "n < 2 ^ 63"
  obtain c t where s: "show_base False 10 n = c # t" by (cases "show_base False 10 n") auto
  have "is_digit c" using show_base_digits [of False n] by (auto simp: s list_all_iff)
  then have "\<not> c_isspace c" "c \<noteq> CHR ''-''" "c \<noteq> CHR ''+''" "is_digit c" by (auto simp: is_digit_def c_isspace_def)
  with atol_show [OF n] s show ?thesis by (simp add: scan_ld_def show_int_def show_nat_def)
qed

lemma read_pid_run:
  "read_pid env name u =
     (if os_readable env name \<and> files u name \<noteq> None
      then (case scan_ld (the (files u name)) of Some p \<Rightarrow> Some (Returned p, u) | None \<Rightarrow> Some (Threw UninitRead, u))
      else read_pid env name u)"
  by (auto simp: read_pid_def prog_defs bindG_def split: option.splits)

lemma read_pid_frame: "read_pid env name u = Some (r, u') \<Longrightarrow>
  u' = u \<and> (\<forall>c. r \<noteq> Exited c) \<and> (\<forall>p. r = Returned p \<longrightarrow> (\<exists>text. files u name = Some text \<and> scan_ld text = Some p))"
  by (auto simp: read_pid_def prog_defs bindG_def split: if_splits option.splits sum.splits)

lemma kill_test_run: "kill_test env pid u = Some (Returned (os_kill env (os_calls u) pid), snd (sys_kill env pid None u))"
  by (simp add: kill_test_def sys_kill_def Let_def)

lemma sys_kill_frame [simp]:
  "files (snd (sys_kill env pid sig u)) = files u" "actions (snd (sys_kill env pid sig u)) = actions u" "os_calls (snd (sys_kill env pid sig u)) = Suc (os_calls u)"
  "\<not> os_kill env (os_calls u) pid \<Longrightarrow> snd (sys_kill env pid sig u) = u\<lparr>os_calls := Suc (os_calls u)\<rparr>"
  by (simp_all add: sys_kill_def tick_def Let_def)

lemma kill_loop_frame: "kill_loop env pid u = Some (r, u') \<Longrightarrow> r = Returned () \<and> files u' = files u \<and> actions u' = actions u \<and> os_calls u < os_calls u'"
  using kill_wait_frame by (fastforce simp: kill_loop_def)

lemma bindG_cases:
  assumes "bindG m f s = Some (r, t)"
  obtains x s' where "m s = Some (Returned x, s')" "f x s' = Some (r, t)"
    | e where "m s = Some (Threw e, t)" "r = Threw e"
    | c where "m s = Some (Exited c, t)" "r = Exited c"
  using assms by (auto simp: bindG_def split: option.splits outcome.splits)

lemma refuse_running_frame:
  assumes "refuse_running env prog_name pid u = Some (r, u')"
  shows "files u' = files u \<and> actions u' = actions u \<and> os_calls u' = Suc (os_calls u) \<and> (\<forall>c. r \<noteq> Exited c) \<and> (r = Returned () \<longrightarrow> \<not> os_kill env (os_calls u) pid)"
  using assms by (auto simp: refuse_running_def kill_test_run bindG_step(1) [OF kill_test_run] prog_defs split: if_splits)

lemma check_previous_frame:
  assumes "check_previous env prog_name name u = Some (r, u')"
  shows "files u' = files u \<and> actions u' = actions u \<and> (\<forall>c. r \<noteq> Exited c) \<and> (r = Returned () \<longrightarrow>
    (\<exists>p c. scan_ld (the (files u name)) = Some p \<and> os_calls u \<le> c \<and> c < os_calls u' \<and> \<not> os_kill env c p))"
proof -
  from assms show ?thesis unfolding check_previous_def
  proof (rule bindG_cases)
    fix p s'
    assume p: "read_pid env name u = Some (Returned p, s')"
      and cont: "bindG (getG dm_flags) (\<lambda>flags.
        bindG (if flags AND 16 \<noteq> 0 \<and> p > 1 then kill_loop env p else retG ()) (\<lambda>_. refuse_running env prog_name p)) s' = Some (r, u')"
    from read_pid_frame [OF p] have tx: "s' = u" "scan_ld (the (files u name)) = Some p" by auto
    from cont obtain x v where v: "(if dm_flags u AND 16 \<noteq> 0 \<and> p > 1 then kill_loop env p else retG ()) u = Some (x, v)"
      "x = Returned ()" "refuse_running env prog_name p v = Some (r, u')"
      unfolding tx(1) bindG_run(4)
      by (rule bindG_cases) (auto simp: retG_def dest: kill_loop_frame split: if_splits)
    have "files v = files u" "actions v = actions u" "os_calls u \<le> os_calls v"
      using v(1) kill_loop_frame [of env p u x v] by (auto simp: retG_def split: if_splits)
    with refuse_running_frame [OF v(3)] tx(2) show ?thesis by (auto intro: exI [of _ "os_calls v"])
  qed (use read_pid_frame in blast)+
qed

lemma write_pid_file_frame:
  assumes "write_pid_file env prog_name u = Some (r, u')"
  shows "actions u' = actions u \<and> (case r of
      Returned _ \<Rightarrow> \<exists>name. pid_name prog_name = Inr name \<and> files u' = (files u)(name \<mapsto> show_int (os_pid env))
        \<and> (files u name \<noteq> None \<longrightarrow> (\<exists>p c. scan_ld (the (files u name)) = Some p
              \<and> os_calls u \<le> c \<and> c < os_calls u' \<and> \<not> os_kill env c p))
    | Threw _ \<Rightarrow> files u' = files u
    | Exited _ \<Rightarrow> False)"
proof (cases "pid_name prog_name")
  case (Inl e)
  with assms show ?thesis by (auto simp: write_pid_file_def)
next
  case (Inr name)
  note run = assms [unfolded write_pid_file_def Inr bindG_run(6) bindG_run(4)]
  from run show ?thesis
  proof (rule bindG_cases)
    fix x s'
    assume check: "(if files u name = None then retG () else check_previous env prog_name name) u = Some (Returned x, s')"
      and rest: "(if \<not> os_creatable env name
        then throwG (DaemonException (''Can'' @ [CHR 0x27] @ ''t create PID file '' @ quoted name @ '' ('' @ os_strerror env @ '')''))
        else modifyG (\<lambda>u. u\<lparr>files := (files u)(name \<mapsto> show_int (os_pid env))\<rparr>)) s' = Some (r, u')"
    have "files s' = files u" "actions s' = actions u" "files u name \<noteq> None \<longrightarrow> (\<exists>p c. scan_ld (the (files u name)) = Some p
        \<and> os_calls u \<le> c \<and> c < os_calls s' \<and> \<not> os_kill env c p)"
      using check check_previous_frame [of env prog_name name u "Returned x" s'] by (auto simp: retG_def split: if_splits)
    then show ?thesis using rest Inr by (auto simp: prog_defs split: if_splits)
  qed (use check_previous_frame in \<open>fastforce simp: retG_def split: if_splits\<close>)+
qed

text \<open>C38 The process id file is never taken from a running process: when \<open>write_pid_file\<close> succeeds,
  the file holds the own process id and nothing else has changed in the file system, and a process
  that the file named before was found dead in between. When it fails, no file has changed.\<close>

theorem pid_file_guarded:
  assumes "write_pid_file env prog_name u = Some (r, u')"
  shows "(case r of
      Returned _ \<Rightarrow> \<exists>name. pid_name prog_name = Inr name \<and> files u' = (files u)(name \<mapsto> show_int (os_pid env))
        \<and> (files u name \<noteq> None \<longrightarrow> (\<exists>p c. scan_ld (the (files u name)) = Some p
              \<and> os_calls u \<le> c \<and> c < os_calls u' \<and> \<not> os_kill env c p))
    | Threw _ \<Rightarrow> files u' = files u
    | Exited _ \<Rightarrow> False)"
  by (rule conjunct2 [OF write_pid_file_frame [OF assms]])

text \<open>A file with a number, in an environment where nobody has to be killed.\<close>

lemma ex_scan: "scan_ld ''42'' = Some 42" by code_simp

lemma ex_pid_name: "pid_name ''s3dhcpd_eth0'' = Inr ''/var/run/s3dhcpd_eth0.pid''"
  by (simp add: pid_name_def)

lemma ex_stays_dead: "stays_dead ex_os_env 42"
  by (simp add: stays_dead_def ex_os_env_def)

lemma ex_env_files: "os_readable ex_os_env f" "os_creatable ex_os_env f" "os_pid ex_os_env = 77"
  by (simp_all add: ex_os_env_def)

theorem pid_file_guarded_witness:
  "\<exists>r u'. write_pid_file ex_os_env ''s3dhcpd_eth0'' ex_process = Some (Threw r, u') \<and> files u' = files ex_process"
proof -
  have run: "write_pid_file ex_os_env ''s3dhcpd_eth0'' ex_process =
      Some (Threw (DaemonException (''s3dhcpd_eth0'' @ '' alredy run with pid '' @ quoted (show_int 42))), snd (sys_kill ex_os_env 42 None ex_process))"
    by (simp add: write_pid_file_def ex_pid_name check_previous_def refuse_running_def read_pid_def ex_scan bindG_def prog_defs
        kill_test_run sys_kill_def ex_process_def ex_os_env_def)
  from pid_file_guarded [OF run] run show ?thesis by auto
qed

lemma write_pid_file_dead:
  assumes "pid_name prog_name = Inr name" and "files u name = Some content" and "scan_ld content = Some pid"
    and "os_readable env name" and "os_creatable env name"
    and "kill_loop env pid u = Some (Returned (), v)" and "dm_flags u AND DAEMON_KILLPREV \<noteq> 0" and "1 < pid"
    and "\<not> os_kill env (os_calls v) pid"
  shows "write_pid_file env prog_name u =
    Some (Returned (), v\<lparr>os_calls := Suc (os_calls v), files := (files v)(name \<mapsto> show_int (os_pid env))\<rparr>)"
proof -
  have rd: "read_pid env name u = Some (Returned pid, u)" using read_pid_run [of env name u] assms(2-4) by simp
  have refuse: "refuse_running env prog_name pid v = Some (Returned (), v\<lparr>os_calls := Suc (os_calls v)\<rparr>)"
    using assms(9) by (simp add: refuse_running_def bindG_step(1) [OF kill_test_run])
  have "check_previous env prog_name name u = Some (Returned (), v\<lparr>os_calls := Suc (os_calls v)\<rparr>)"
    using assms(7,8) refuse by (simp add: check_previous_def bindG_def rd assms(6) getG_def)
  with assms(1,2,5) show ?thesis by (simp add: write_pid_file_def) (simp add: bindG_def modifyG_def)
qed

text \<open>C39 A start that kills its predecessor: the process named by the file gets one \<open>SIGTERM\<close> each
  second; \<open>write_pid_file\<close> waits for ever exactly if that process never ends, and otherwise
  succeeds with the own process id in the file.\<close>

theorem old_process_awaited:
  assumes "pid_name prog_name = Inr name" and "files u name = Some content" and "scan_ld content = Some pid" and "1 < pid"
    and "os_readable env name" and "os_creatable env name" and "dm_flags u AND DAEMON_KILLPREV \<noteq> 0"
    and "naps_end env" and "stays_dead env pid"
  shows "if \<forall>c \<ge> os_calls u. os_kill env c pid then write_pid_file env prog_name u = None
    else \<exists>k c. write_pid_file env prog_name u =
      Some (Returned (), (waited pid k c u)\<lparr>files := (files u)(name \<mapsto> show_int (os_pid env))\<rparr>)"
proof (cases "\<forall>c \<ge> os_calls u. os_kill env c pid")
  case True
  have rd: "read_pid env name u = Some (Returned pid, u)" using read_pid_run [of env name u] assms(2,3,5) by simp
  have "kill_loop env pid u = None" using kill_wait_forever [OF True] by (simp add: kill_loop_def)
  then have "check_previous env prog_name name u = None"
    using assms(4,7) by (simp add: check_previous_def bindG_def rd getG_def)
  with True assms(1,2) show ?thesis by (simp add: write_pid_file_def bindG_step(4))
next
  case False
  then obtain n where "os_calls u \<le> n" "\<not> os_kill env n pid" by blast
  from kill_wait_ends [OF assms(8,9) this] obtain k c where
    w: "kill_loop env pid u = Some (Returned (), waited pid k c u)" "\<not> os_kill env c pid" by (auto simp: kill_loop_def)
  have "(waited pid k c u)\<lparr>os_calls := Suc c, files := (files u)(name \<mapsto> show_int (os_pid env))\<rparr>
      = (waited pid k (Suc c) u)\<lparr>files := (files u)(name \<mapsto> show_int (os_pid env))\<rparr>" by (simp add: waited_def)
  with write_pid_file_dead [OF assms(1-3,5,6) w(1) assms(7,4)] w(2)
  have "write_pid_file env prog_name u =
      Some (Returned (), (waited pid k (Suc c) u)\<lparr>files := (files u)(name \<mapsto> show_int (os_pid env))\<rparr>)" by simp
  with False show ?thesis by auto
qed

theorem old_process_awaited_witness:
  "\<exists>k c. write_pid_file ex_os_env ''s3dhcpd_eth0'' (ex_process\<lparr>dm_flags := 0x10\<rparr>) =
      Some (Returned (), (waited 42 k c (ex_process\<lparr>dm_flags := 0x10\<rparr>))\<lparr>files := [''/var/run/s3dhcpd_eth0.pid'' \<mapsto> show_int 77]\<rparr>)"
proof -
  let ?u = "ex_process\<lparr>dm_flags := 0x10\<rparr>"
  have alive: "(\<forall>c \<ge> os_calls ?u. os_kill ex_os_env c 42) = False"
    by (auto simp: ex_os_env_def ex_process_def intro!: exI [of _ 6])
  have f: "files ?u ''/var/run/s3dhcpd_eth0.pid'' = Some ''42''" "dm_flags ?u AND 0x10 \<noteq> 0" by (simp_all add: ex_process_def)
  have g: "(files ?u)(''/var/run/s3dhcpd_eth0.pid'' \<mapsto> show_int 77) = [''/var/run/s3dhcpd_eth0.pid'' \<mapsto> show_int 77]"
    by (simp add: ex_process_def)
  have one: "(1::int) < 42" by simp
  from old_process_awaited [OF ex_pid_name f(1) ex_scan one ex_env_files(1,2) f(2) ex_naps_end ex_stays_dead]
  show ?thesis unfolding alive if_False ex_env_files(3) g .
qed

section \<open>The background process\<close>

lemma set_signals_frame:
  "files (set_signals env h sigs u) = files u" "os_calls (set_signals env h sigs u) = os_calls u"
  "dm_flags (set_signals env h sigs u) = dm_flags u"
  by (induction sigs arbitrary: u) (simp_all add: set_signals_def set_signal_def)

lemma set_signals_actions:
  assumes "\<forall>sig. os_sigaction env sig"
  shows "sa_handler (actions (set_signals env h sigs u) sig) = (if sig \<in> set sigs then h else sa_handler (actions u sig))"
  using assms by (induction sigs arbitrary: u) (simp_all add: set_signals_def set_signal_def)

lemma closed_fds: "open_fds (close_fds u) \<inter> {0..63} = {}"
proof -
  have "fold (\<lambda>i fds. fds - {i}) is A = A - set is" for "is" :: "int list" and A
    by (induction "is" arbitrary: A) auto
  then show ?thesis by (auto simp: close_fds_def)
qed

lemma install_handlers_frame:
  "files (install_handlers env options u) = files u" "os_calls (install_handlers env options u) = os_calls u"
  "dm_flags (install_handlers env options u) = dm_flags u"
  by (simp_all add: install_handlers_def set_signals_frame Let_def)

text \<open>C40 What \<open>daemonize\<close> with no options, as \<open>main\<close> calls it, comes to: the parent exits with 0 and
  touches no file; if the fork fails or the process id file is refused, an exception leaves the files
  as they are; a child that returns leads a session of its own with the first 64 descriptors closed,
  ends on \<open>SIGTERM\<close>, and the process id file, read back, gives its number.\<close>

theorem daemonize_outcome:
  assumes "daemonize env prog_name 0 u = Some (r, u')" and "0 \<le> os_pid env" and "os_pid env < 2 ^ 63" and "\<forall>sig. os_sigaction env sig"
  shows "(case r of
      Returned _ \<Rightarrow> os_fork env (os_calls u) = 0
        \<and> (\<exists>name. pid_name prog_name = Inr name
             \<and> read_pid (env\<lparr>os_readable := (\<lambda>_. True)\<rparr>) name u' = Some (Returned (os_pid env), u'))
        \<and> session_leader u' \<and> open_fds u' \<inter> {0..63} = {}
        \<and> sa_handler (actions u' SIGTERM) = SIGINT_handler \<and> sa_handler (actions u' SIGSEGV) = CRASH_handler
        \<and> sa_handler (actions u' SIGTTOU) = SIG_IGN
    | Threw _ \<Rightarrow> os_fork env (os_calls u) \<le> 0 \<and> files u' = files u
    | Exited code \<Rightarrow> code = 0 \<and> os_fork env (os_calls u) > 0 \<and> files u' = files u)"
proof -
  define u1 where "u1 = tick (install_handlers env 0 (u\<lparr>dm_flags := 0\<rparr>))"
  have f: "files u1 = files u" by (simp add: u1_def tick_def install_handlers_frame)
  have h: "sa_handler (actions u1 SIGTERM) = SIGINT_handler" "sa_handler (actions u1 SIGSEGV) = CRASH_handler"
    "sa_handler (actions u1 SIGTTOU) = SIG_IGN"
    by (simp_all add: u1_def tick_def install_handlers_def Let_def set_signals_actions [OF assms(4)])
  let ?c = "os_fork env (os_calls u)"
  have run: "(if ?c < 0 then throwG (DaemonException (''Fork error ('' @ os_strerror env @ '')''))
     else if ?c > 0 then exitG 0
     else
       bindG (write_pid_file env prog_name) (\<lambda>_.
       bindG (modifyG (\<lambda>u. close_fds (u\<lparr>session_leader := True\<rparr>))) (\<lambda>_.
       modifyG (\<lambda>u. if os_chdir env ''/var/tmp'' then u\<lparr>cwd := ''/var/tmp''\<rparr> else u)))) u1 = Some (r, u')"
    using assms(1) by (simp add: daemonize_def go_background_def u1_def install_handlers_frame cong: if_cong)
  consider "?c < 0" | "?c > 0" | "?c = 0" by linarith
  then show ?thesis
  proof cases
    case 3
    with run have "bindG (write_pid_file env prog_name) (\<lambda>_.
       bindG (modifyG (\<lambda>u. close_fds (u\<lparr>session_leader := True\<rparr>))) (\<lambda>_.
       modifyG (\<lambda>u. if os_chdir env ''/var/tmp'' then u\<lparr>cwd := ''/var/tmp''\<rparr> else u))) u1 = Some (r, u')" by simp
    then show ?thesis
    proof (rule bindG_cases)
      fix x s'
      assume w: "write_pid_file env prog_name u1 = Some (Returned x, s')"
        and rest: "bindG (modifyG (\<lambda>u. close_fds (u\<lparr>session_leader := True\<rparr>))) (\<lambda>_.
          modifyG (\<lambda>u. if os_chdir env ''/var/tmp'' then u\<lparr>cwd := ''/var/tmp''\<rparr> else u)) s' = Some (r, u')"
      from write_pid_file_frame [OF w] obtain name where
        wr: "pid_name prog_name = Inr name" "files s' = (files u1)(name \<mapsto> show_int (os_pid env))" "actions s' = actions u1" by auto
      from rest have u': "r = Returned ()" "files u' = files s'" "actions u' = actions s'" "session_leader u'" "open_fds u' = open_fds (close_fds s')"
        by (auto simp: close_fds_def split: if_splits)
      have "read_pid (env\<lparr>os_readable := (\<lambda>_. True)\<rparr>) name u' = Some (Returned (os_pid env), u')"
        using read_pid_run [of "env\<lparr>os_readable := (\<lambda>_. True)\<rparr>" name u'] u'(2) wr(2) scan_ld_show [of "nat (os_pid env)"] assms(2,3)
        by (simp add: nat_less_iff)
      then show ?thesis using 3 u' wr h closed_fds [of s'] by auto
    qed (use f 3 write_pid_file_frame [of env prog_name u1 r u'] in \<open>auto\<close>)
  qed (use run f in \<open>auto simp: throwG_def exitG_def\<close>)
qed

text \<open>A child whose predecessor has gone.\<close>

definition ex_stale :: process where
  "ex_stale = ex_process\<lparr>os_calls := 6\<rparr>"

theorem daemonize_outcome_witness:
  "\<exists>u'. daemonize ex_os_env ''s3dhcpd_eth0'' 0 ex_stale = Some (Returned (), u')
    \<and> read_pid (ex_os_env\<lparr>os_readable := (\<lambda>_. True)\<rparr>) ''/var/run/s3dhcpd_eth0.pid'' u' = Some (Returned 77, u')
    \<and> session_leader u' \<and> open_fds u' \<inter> {0..63} = {} \<and> sa_handler (actions u' SIGTERM) = SIGINT_handler"
proof -
  have "\<exists>u'. daemonize ex_os_env ''s3dhcpd_eth0'' 0 ex_stale = Some (Returned (), u')"
    by (simp add: daemonize_def go_background_def ex_stale_def write_pid_file_def ex_pid_name check_previous_def refuse_running_def
        read_pid_def ex_scan bindG_def prog_defs kill_test_run sys_kill_def ex_process_def ex_os_env_def install_handlers_frame tick_def Let_def)
  then obtain u' where run: "daemonize ex_os_env ''s3dhcpd_eth0'' 0 ex_stale = Some (Returned (), u')" by blast
  have pid: "0 \<le> os_pid ex_os_env" "os_pid ex_os_env < 2 ^ 63" "\<forall>sig. os_sigaction ex_os_env sig" by (simp_all add: ex_os_env_def)
  from daemonize_outcome [OF run pid] run show ?thesis by (simp add: ex_pid_name ex_env_files(3))
qed

end
