(* ===== verification/Form.thy ===== *)
theory Form
  imports Printf
begin

text \<open>
  \<open>src/src/share/dsForm.h\<close> and \<open>dsForm.cxx\<close>: the replacement of \<open>printf\<close> on output streams that
  formats every message of the log and of the exceptions. An output stream is its text with the
  formatting state that \<open>setw\<close>, \<open>setfill\<close> and the manipulators change; only the width is reset by
  an output. A variable argument carries its type: fetching one of another type with \<open>va_arg\<close>, or
  one more than were given, is undefined and \<open>MemFault\<close>. The text of \<open>strerror(errno)\<close> and the
  decimal notation of a \<open>double\<close> are parameters. The conversions \<open>%U\<close> and \<open>%B\<close> belong to libraries
  that the program is not built with.
\<close>

section \<open>Output streams\<close>

record ostream =
  os_out :: string
  os_width :: int
  os_fill :: char
  os_hex :: bool
  os_uppercase :: bool
  os_fixed :: bool
  os_precision :: int

definition ostream_new :: ostream where
  "ostream_new = \<lparr>os_out = [], os_width = 0, os_fill = CHR '' '', os_hex = False, os_uppercase = False,
     os_fixed = False, os_precision = 6\<rparr>"

text \<open>\<open>operator<<\<close> pads on the left and resets the width.\<close>

definition pad_left :: "int \<Rightarrow> char \<Rightarrow> string \<Rightarrow> string" where
  "pad_left width fill s = replicate (nat width - length s) fill @ s"

definition os_put :: "string \<Rightarrow> ostream \<Rightarrow> ostream" where
  "os_put s os = os\<lparr>os_out := os_out os @ pad_left (os_width os) (os_fill os) s, os_width := 0\<rparr>"

text \<open>An integer of \<open>w\<close> bits in the base of the stream; hexadecimal output is that of the unsigned type.\<close>

definition os_put_int :: "nat \<Rightarrow> int \<Rightarrow> ostream \<Rightarrow> ostream" where
  "os_put_int w i os =
     os_put (if os_hex os then show_base (os_uppercase os) 16 (nat (i mod 2 ^ w)) else show_int i) os"

section \<open>Arguments and conversions\<close>

datatype va_arg = VInt int | VLong int | VStr "string option" | VDouble u64
datatype va_type = TInt | TLong | TStr | TDouble

fun va_type_of :: "va_arg \<Rightarrow> va_type" where
  "va_type_of (VInt _) = TInt"
| "va_type_of (VLong _) = TLong"
| "va_type_of (VStr _) = TStr"
| "va_type_of (VDouble _) = TDouble"

record form_env =
  fe_strerror :: string
  fe_fixed :: "int \<Rightarrow> u64 \<Rightarrow> string"

fun va_int :: "va_arg list \<Rightarrow> (int \<times> va_arg list) res" where
  "va_int (VInt i # ap) = Inr (i, ap)"
| "va_int _ = Inl MemFault"

fun va_long :: "va_arg list \<Rightarrow> (int \<times> va_arg list) res" where
  "va_long (VLong i # ap) = Inr (i, ap)"
| "va_long _ = Inl MemFault"

fun va_str :: "va_arg list \<Rightarrow> (string option \<times> va_arg list) res" where
  "va_str (VStr s # ap) = Inr (s, ap)"
| "va_str _ = Inl MemFault"

fun va_double :: "va_arg list \<Rightarrow> (u64 \<times> va_arg list) res" where
  "va_double (VDouble d # ap) = Inr (d, ap)"
| "va_double _ = Inl MemFault"

text \<open>What stands between \<open>%\<close> and the conversion character.\<close>

record form_spec =
  sp_left :: bool
  sp_fill :: char
  sp_star :: bool
  sp_width :: int
  sp_long :: bool

fun digits_width :: "int \<Rightarrow> string \<Rightarrow> int \<times> string" where
  "digits_width width [] = (width, [])"
| "digits_width width (c # fptr) =
     (if is_digit c then digits_width (s32 ((if width < 0 then 0 else width) * 10 + digit_value c)) fptr
      else (width, c # fptr))"

definition skip_char :: "char \<Rightarrow> string \<Rightarrow> bool \<times> string" where
  "skip_char c fptr = (case fptr of [] \<Rightarrow> (False, []) | x # rest \<Rightarrow> if x = c then (True, rest) else (False, fptr))"

definition parse_spec :: "string \<Rightarrow> form_spec \<times> string" where
  "parse_spec fptr =
     (let (left, fptr) = skip_char (CHR ''-'') fptr;
          (zero, fptr) = skip_char (CHR ''0'') fptr;
          (dot, fptr) = skip_char (CHR ''.'') fptr;
          (star, fptr) = skip_char (CHR ''*'') fptr;
          (width, fptr) = (if star then (-1, fptr) else digits_width (-1) fptr);
          (lng, fptr) = skip_char (CHR ''l'') fptr in
      (\<lparr>sp_left = left, sp_fill = if zero \<or> dot then CHR ''0'' else CHR '' '', sp_star = star, sp_width = width, sp_long = lng\<rparr>, fptr))"

definition put_integer :: "bool \<Rightarrow> va_arg list \<Rightarrow> ostream \<Rightarrow> (ostream \<times> va_arg list) res" where
  "put_integer lng ap os =
     (if lng then bindR (va_long ap) (\<lambda>(ld, ap). Inr (os_put_int 64 ld os, ap))
      else bindR (va_int ap) (\<lambda>(i, ap). Inr (os_put_int 32 i os, ap)))"

definition vform_conv :: "form_env \<Rightarrow> char option \<Rightarrow> form_spec \<Rightarrow> int \<Rightarrow> va_arg list \<Rightarrow> ostream \<Rightarrow> (ostream \<times> va_arg list) res" where
  "vform_conv env conv sp width ap os =
     (if conv = Some (CHR ''c'') then
        bindR (va_int ap) (\<lambda>(c, ap). Inr (os_put [char_of (nat (c mod 256))] os, ap))
      else if conv = Some (CHR ''s'') then
        bindR (va_str ap) (\<lambda>(s, ap).
        let s = (case s of None \<Rightarrow> ''(null)'' | Some s \<Rightarrow> s);
            os = os_put s (if \<not> sp_left sp then os\<lparr>os_width := width\<rparr> else os) in
        Inr (if width > 0 \<and> sp_left sp then (os_put '' '' ^^ (nat width - length s)) os else os, ap))
      else if conv = Some (CHR ''d'') then
        put_integer (sp_long sp) ap (os\<lparr>os_width := width, os_fill := sp_fill sp, os_hex := False\<rparr>)
      else if conv \<in> {Some (CHR ''X''), Some (CHR ''p''), Some (CHR ''x'')} then
        put_integer (sp_long sp) ap
          (os\<lparr>os_uppercase := os_uppercase os \<or> conv = Some (CHR ''X''), os_width := width, os_fill := sp_fill sp, os_hex := True\<rparr>)
      else if conv = Some (CHR ''f'') then
        (let prec = (if width \<ge> 0 then width else 6) in
         bindR (va_double ap) (\<lambda>(ld, ap).
         Inr (os_put (fe_fixed env prec ld) (os\<lparr>os_fixed := True, os_precision := prec\<rparr>), ap)))
      else if conv = Some (CHR ''m'') then Inr (os_put (fe_strerror env) os, ap)
      else Inr (os, ap))"

text \<open>One conversion from behind the \<open>%\<close>. The character after the flags is skipped even where it is
  the terminator of the format.\<close>

definition vform_percent :: "form_env \<Rightarrow> string \<Rightarrow> va_arg list \<Rightarrow> ostream \<Rightarrow> (string \<times> va_arg list \<times> ostream) res" where
  "vform_percent env fptr ap os =
     (let os = os\<lparr>os_uppercase := False\<rparr>;
          (sp, fptr) = parse_spec fptr in
      bindR (if sp_star sp then va_int ap else Inr (sp_width sp, ap)) (\<lambda>(width, ap).
      bindR (vform_conv env (case fptr of [] \<Rightarrow> None | c # _ \<Rightarrow> Some c) sp width ap os) (\<lambda>(os, ap).
      case fptr of [] \<Rightarrow> Inl MemFault | _ # fptr \<Rightarrow> Inr (fptr, ap, os))))"

lemma digits_width_shorter: "length (snd (digits_width width fptr)) \<le> length fptr"
  by (induction fptr arbitrary: width) (auto intro: le_SucI)

lemma skip_char_shorter: "length (snd (skip_char c fptr)) \<le> length fptr"
  by (auto simp: skip_char_def split: list.splits)

lemma parse_spec_shorter: "length (snd (parse_spec fptr)) \<le> length fptr"
proof -
  have le: "skip_char c f = (b, g) \<Longrightarrow> length g \<le> length f" "digits_width w f = (v, g) \<Longrightarrow> length g \<le> length f" for c f b g w v
    using skip_char_shorter [of c f] digits_width_shorter [of w f] by simp_all
  show ?thesis
    unfolding parse_spec_def Let_def by (auto split: prod.split if_splits dest!: le)
qed

lemma vform_percent_shorter:
  assumes "vform_percent env fptr ap os = Inr (rest, ap', os')"
  shows "length rest < length fptr"
  using assms parse_spec_shorter [of fptr]
  by (auto simp: vform_percent_def Let_def split: prod.splits list.splits)

text \<open>The loop of \<open>vform\<close>: the character that follows a conversion is copied even if it is \<open>%\<close>.\<close>

function vform_loop :: "form_env \<Rightarrow> string \<Rightarrow> va_arg list \<Rightarrow> ostream \<Rightarrow> (ostream \<times> va_arg list) res" where
  "vform_loop env fptr ap os =
     bindR (case fptr of
              [] \<Rightarrow> Inr (fptr, ap, os)
            | c # rest \<Rightarrow> if c = CHR ''%'' then vform_percent env rest ap os else Inr (fptr, ap, os)) (\<lambda>(fptr, ap, os).
     case fptr of [] \<Rightarrow> Inr (os, ap) | c # fptr \<Rightarrow> vform_loop env fptr ap (os_put [c] os))"
  by pat_completeness auto
termination
  by (relation "measure (\<lambda>(_, fptr, _). length fptr)")
    (auto dest!: vform_percent_shorter split: list.splits if_splits)

declare vform_loop.simps [simp del]

definition vform :: "form_env \<Rightarrow> ostream \<Rightarrow> string \<Rightarrow> va_arg list \<Rightarrow> ostream res" where
  "vform env os format ap = bindR (vform_loop env format ap os) (\<lambda>(os, ap). Inr os)"

section \<open>Typing of formats\<close>

definition conv_type :: "char \<Rightarrow> form_spec \<Rightarrow> va_type list" where
  "conv_type conv sp =
     (if conv = CHR ''c'' then [TInt]
      else if conv = CHR ''s'' then [TStr]
      else if conv \<in> {CHR ''d'', CHR ''X'', CHR ''p'', CHR ''x''} then [if sp_long sp then TLong else TInt]
      else if conv = CHR ''f'' then [TDouble]
      else [])"

text \<open>The argument types that a format asks for, if it ends with its text.\<close>

function format_types :: "string \<Rightarrow> va_type list option" where
  "format_types [] = Some []"
| "format_types (c # f) =
     (if c = CHR ''%'' then
        (let (sp, f) = parse_spec f in
         case f of
           [] \<Rightarrow> None
         | conv # f \<Rightarrow> map_option (\<lambda>ts. (if sp_star sp then [TInt] else []) @ conv_type conv sp @ ts) (format_types (tl f)))
      else format_types f)"
  by pat_completeness auto
termination
proof (relation "measure length", goal_cases)
  case (2 c f x sp g conv h)
  then have "length (conv # h) \<le> length f" using parse_spec_shorter [of f] by (metis snd_conv)
  then show ?case by (cases h) simp_all
qed simp_all

fun fetch :: "va_type list \<Rightarrow> va_arg list \<Rightarrow> va_arg list option" where
  "fetch [] ap = Some ap"
| "fetch (t # ts) [] = None"
| "fetch (t # ts) (a # ap) = (if va_type_of a = t then fetch ts ap else None)"

lemma fetch_append: "fetch (ts @ us) ap = Option.bind (fetch ts ap) (fetch us)"
  by (induction ts ap rule: fetch.induct) auto

lemma fetch_iff: "fetch ts ap \<noteq> None \<longleftrightarrow> take (length ts) (map va_type_of ap) = ts"
  by (induction ts ap rule: fetch.induct) auto

lemma fetch_single: "fetch [t] ap = Some rest \<longleftrightarrow> (\<exists>a. ap = a # rest \<and> va_type_of a = t)"
  by (cases ap) auto

lemma va_type_of_iff:
  "va_type_of a = TInt \<longleftrightarrow> (\<exists>i. a = VInt i)" "va_type_of a = TLong \<longleftrightarrow> (\<exists>i. a = VLong i)"
  "va_type_of a = TStr \<longleftrightarrow> (\<exists>s. a = VStr s)" "va_type_of a = TDouble \<longleftrightarrow> (\<exists>d. a = VDouble d)"
  by (cases a; simp)+

lemma va_fetch [simp]:
  "va_int ap = Inr (i, rest) \<longleftrightarrow> ap = VInt i # rest" "va_long ap = Inr (i, rest) \<longleftrightarrow> ap = VLong i # rest"
  "va_str ap = Inr (s, rest) \<longleftrightarrow> ap = VStr s # rest" "va_double ap = Inr (d, rest) \<longleftrightarrow> ap = VDouble d # rest"
  by (cases ap rule: va_int.cases; auto; fail)
    (cases ap rule: va_long.cases; auto; fail | cases ap rule: va_str.cases; auto; fail | cases ap rule: va_double.cases; auto; fail)+

lemma put_integer_fetch:
  "(\<exists>os'. put_integer lng ap os = Inr (os', rest)) \<longleftrightarrow> fetch [if lng then TLong else TInt] ap = Some rest"
  by (cases lng) (auto simp: put_integer_def fetch_single va_type_of_iff)

lemma vform_conv_fetch:
  "(\<exists>os'. vform_conv env (Some conv) sp width ap os = Inr (os', rest)) \<longleftrightarrow> fetch (conv_type conv sp) ap = Some rest"
proof -
  consider "conv = CHR ''c''" | "conv = CHR ''s''" | "conv = CHR ''f''"
    | "conv \<in> {CHR ''d'', CHR ''X'', CHR ''p'', CHR ''x''}"
    | "conv \<notin> {CHR ''c'', CHR ''s'', CHR ''f'', CHR ''d'', CHR ''X'', CHR ''p'', CHR ''x''}" by blast
  then show ?thesis
  proof cases
    case 4
    then have "\<exists>os1. vform_conv env (Some conv) sp width ap os = put_integer (sp_long sp) ap os1"
      "conv_type conv sp = [if sp_long sp then TLong else TInt]" by (auto simp: vform_conv_def conv_type_def)
    then show ?thesis using put_integer_fetch by metis
  next
    case 5
    then show ?thesis by (auto simp: vform_conv_def conv_type_def)
  qed (auto simp: vform_conv_def conv_type_def Let_def fetch_single va_type_of_iff simp del: fetch.simps)
qed

lemma vform_percent_fetch:
  "(\<exists>os'. vform_percent env f ap os = Inr (g, rest, os')) \<longleftrightarrow>
     (\<exists>conv. snd (parse_spec f) = conv # g
        \<and> fetch ((if sp_star (fst (parse_spec f)) then [TInt] else []) @ conv_type conv (fst (parse_spec f))) ap = Some rest)"
proof -
  obtain sp h where p: "parse_spec f = (sp, h)" by fastforce
  show ?thesis
  proof (cases h)
    case Nil
    then show ?thesis using p by (auto simp: vform_percent_def)
  next
    case (Cons conv h')
    then show ?thesis using p vform_conv_fetch [of env conv sp _ _ _ rest]
      by (cases "sp_star sp"; cases ap rule: va_int.cases) (auto simp: vform_percent_def Let_def fetch_append)
  qed
qed

lemma vform_loop_typed:
  "(\<exists>os'. vform_loop env f ap os = Inr (os', rest)) \<longleftrightarrow> Option.bind (format_types f) (\<lambda>ts. fetch ts ap) = Some rest"
proof (induction f arbitrary: ap os rule: format_types.induct)
  case 1
  show ?case by (subst vform_loop.simps) simp
next
  case (2 c f)
  show ?case
  proof (cases "c = CHR ''%''")
    case False
    then show ?thesis using "2.IH"(2) by (subst vform_loop.simps) simp
  next
    case True
    obtain sp h where p: "parse_spec f = (sp, h)" by fastforce
    have loop: "vform_loop env (CHR ''%'' # f) ap os =
        bindR (vform_percent env f ap os) (\<lambda>(g, ap, os).
        case g of [] \<Rightarrow> Inr (os, ap) | c # g \<Rightarrow> vform_loop env g ap (os_put [c] os))" for ap os
      by (subst vform_loop.simps) simp
    show ?thesis
    proof (cases h)
      case Nil
      then have "\<not> (\<exists>g r os'. vform_percent env f ap os = Inr (g, r, os'))" using vform_percent_fetch p by auto
      then show ?thesis using Nil p True by (auto simp: loop)
    next
      case (Cons conv g)
      define ts where "ts = (if sp_star sp then [TInt] else []) @ conv_type conv sp"
      have IH: "(\<exists>os'. vform_loop env (tl g) ap os = Inr (os', rest)) \<longleftrightarrow> Option.bind (format_types (tl g)) (\<lambda>ts. fetch ts ap) = Some rest" for ap os
        using "2.IH"(1) [OF True p [symmetric] refl Cons] .
      have types: "format_types (c # f) = map_option (\<lambda>us. ts @ us) (format_types (tl g))"
        using True p Cons by (simp add: ts_def)
      have some: "(\<exists>os'. vform_percent env f ap os = Inr (g', r, os')) \<longleftrightarrow> g' = g \<and> fetch ts ap = Some r" for g' r
        unfolding vform_percent_fetch p Cons fst_conv snd_conv by (auto simp: ts_def split del: if_split simp del: fetch.simps)
      show ?thesis
      proof (cases "fetch ts ap")
        case None
        have "\<exists>e. vform_percent env f ap os = Inl e"
        proof (cases "vform_percent env f ap os")
          case (Inr y)
          then show ?thesis using some None by (cases y) auto
        qed simp
        then have "\<not> (\<exists>os'. vform_loop env (c # f) ap os = Inr (os', rest))" using True loop by auto
        with None types show ?thesis by (cases "format_types (tl g)") (simp_all add: fetch_append)
      next
        case (Some r)
        then obtain os1 where os1: "vform_percent env f ap os = Inr (g, r, os1)" using some by blast
        have "(\<exists>os'. vform_loop env (c # f) ap os = Inr (os', rest)) \<longleftrightarrow> Option.bind (format_types (tl g)) (\<lambda>ts. fetch ts r) = Some rest"
          using IH [of r] True os1 by (cases g) (simp_all add: loop)
        with Some types show ?thesis by (cases "format_types (tl g)") (simp_all add: fetch_append)
      qed
    qed
  qed
qed

text \<open>C32 Formatting succeeds exactly for arguments of the types that the format asks for, in that order;
  more arguments are ignored. With an argument of another type, with too few of them, or with a
  conversion cut off by the end of the format, \<open>vform\<close> leaves its arguments or the format.\<close>

theorem vform_well_typed:
  "(\<exists>os'. vform env os format ap = Inr os') \<longleftrightarrow>
     (\<exists>ts. format_types format = Some ts \<and> take (length ts) (map va_type_of ap) = ts)"
proof -
  have "(\<exists>os'. vform env os format ap = Inr os') \<longleftrightarrow> (\<exists>rest os'. vform_loop env format ap os = Inr (os', rest))"
    by (auto simp: vform_def)
  also have "\<dots> \<longleftrightarrow> (\<exists>ts. format_types format = Some ts \<and> fetch ts ap \<noteq> None)"
    by (auto simp: vform_loop_typed bind_eq_Some_conv)
  finally show ?thesis by (simp only: fetch_iff)
qed

section \<open>Agreement with C\<close>

text \<open>Formats as lists of pieces, and what \<open>printf\<close> of C prints for them.\<close>

datatype piece = PText string | PStr | PChar | PLong | PDec nat | PHex bool nat

definition zero_width :: "nat \<Rightarrow> string" where
  "zero_width n = (if n = 0 then [] else [CHR ''0'', digit_char False n])"

fun piece_format :: "piece \<Rightarrow> string" where
  "piece_format (PText s) = s"
| "piece_format PStr = ''%s''"
| "piece_format PChar = ''%c''"
| "piece_format PLong = ''%ld''"
| "piece_format (PDec n) = CHR ''%'' # zero_width n @ ''d''"
| "piece_format (PHex up n) = CHR ''%'' # zero_width n @ (if up then ''X'' else ''x'')"

definition zero_pad :: "nat \<Rightarrow> string \<Rightarrow> string" where
  "zero_pad n s = replicate (n - length s) (CHR ''0'') @ s"

fun print_conv :: "piece \<Rightarrow> va_arg \<Rightarrow> string option" where
  "print_conv PStr (VStr (Some s)) = Some s"
| "print_conv PChar (VInt c) = Some [char_of (nat (c mod 256))]"
| "print_conv PLong (VLong i) = Some (show_int i)"
| "print_conv (PDec n) (VInt i) =
     Some (if i < 0 then CHR ''-'' # zero_pad (n - 1) (show_nat (nat (- i))) else zero_pad n (show_nat (nat i)))"
| "print_conv (PHex up n) (VInt i) = Some (zero_pad n (show_base up 16 (nat (i mod 2 ^ 32))))"
| "print_conv _ _ = None"

fun print_pieces :: "piece list \<Rightarrow> va_arg list \<Rightarrow> string option" where
  "print_pieces [] ap = Some []"
| "print_pieces (PText s # ps) ap = map_option (\<lambda>t. s @ t) (print_pieces ps ap)"
| "print_pieces (p # ps) [] = None"
| "print_pieces (p # ps) (a # ap) =
     Option.bind (print_conv p a) (\<lambda>s. map_option (\<lambda>t. s @ t) (print_pieces ps ap))"

text \<open>Where \<open>vform\<close> differs: text or the end follows every conversion, a padding with zeros takes no
  sign, and widths have one digit.\<close>

fun is_text :: "piece \<Rightarrow> bool" where
  "is_text (PText s) \<longleftrightarrow> True"
| "is_text _ \<longleftrightarrow> False"

fun plain_piece :: "piece \<Rightarrow> bool" where
  "plain_piece (PText s) \<longleftrightarrow> s \<noteq> [] \<and> CHR ''%'' \<notin> set s"
| "plain_piece (PDec n) \<longleftrightarrow> n < 10"
| "plain_piece (PHex up n) \<longleftrightarrow> n < 10"
| "plain_piece _ \<longleftrightarrow> True"

fun separated :: "piece list \<Rightarrow> bool" where
  "separated [] \<longleftrightarrow> True"
| "separated [p] \<longleftrightarrow> plain_piece p"
| "separated (p # q # ps) \<longleftrightarrow> plain_piece p \<and> (is_text p \<or> is_text q) \<and> separated (q # ps)"

fun unsigned_pads :: "piece list \<Rightarrow> va_arg list \<Rightarrow> bool" where
  "unsigned_pads (PText s # ps) ap \<longleftrightarrow> unsigned_pads ps ap"
| "unsigned_pads (PDec n # ps) (VInt i # ap) \<longleftrightarrow> (n = 0 \<or> 0 \<le> i) \<and> unsigned_pads ps ap"
| "unsigned_pads (p # ps) (a # ap) \<longleftrightarrow> unsigned_pads ps ap"
| "unsigned_pads _ _ \<longleftrightarrow> True"

lemma vform_loop_char:
  "c \<noteq> CHR ''%'' \<Longrightarrow> vform_loop env (c # f) ap os = vform_loop env f ap (os_put [c] os)"
  by (subst vform_loop.simps) simp

lemma vform_loop_end: "vform_loop env [] ap os = Inr (os, ap)"
  by (subst vform_loop.simps) simp

lemma vform_loop_conv:
  assumes "vform_percent env f ap os = Inr (g, ap', os')" and "g = [] \<or> hd g \<noteq> CHR ''%''"
  shows "vform_loop env (CHR ''%'' # f) ap os = vform_loop env g ap' os'"
proof (cases g)
  case Nil
  with assms show ?thesis by (subst vform_loop.simps) (simp add: vform_loop_end)
next
  case (Cons c g')
  with assms have "c \<noteq> CHR ''%''" by simp
  from vform_loop_char [OF this] assms(1) Cons show ?thesis by (subst vform_loop.simps) simp
qed

text \<open>A conversion right behind another is copied as text.\<close>

lemma vform_loop_adjacent:
  assumes "vform_percent env f ap os = Inr (CHR ''%'' # g, ap', os')"
  shows "vform_loop env (CHR ''%'' # f) ap os = vform_loop env g ap' (os_put ''%'' os')"
  using assms by (subst vform_loop.simps) simp

lemma os_put_width [simp]: "os_width (os_put s os) = 0"
  by (simp add: os_put_def)

lemma os_put_out: "os_width os = 0 \<Longrightarrow> os_out (os_put s os) = os_out os @ s"
  by (simp add: os_put_def pad_left_def)

lemma vform_loop_text:
  assumes "CHR ''%'' \<notin> set s" and "os_width os = 0"
  shows "\<exists>os'. vform_loop env (s @ f) ap os = vform_loop env f ap os' \<and> os_out os' = os_out os @ s \<and> os_width os' = 0"
  using assms
proof (induction s arbitrary: os)
  case (Cons c s)
  from Cons.prems(1) have "CHR ''%'' \<notin> set s" by simp
  from Cons.IH [OF this os_put_width] obtain os' where "vform_loop env (s @ f) ap (os_put [c] os) = vform_loop env f ap os'"
    "os_out os' = os_out (os_put [c] os) @ s" "os_width os' = 0" by blast
  with Cons.prems show ?case by (auto simp: vform_loop_char os_put_out)
qed auto

lemma show_int_pad: "n = 0 \<or> 0 \<le> i \<Longrightarrow>
  pad_left (if n = 0 then -1 else int n) (if n = 0 then CHR '' '' else CHR ''0'') (show_int i) =
    (if i < 0 then CHR ''-'' # zero_pad (n - 1) (show_nat (nat (- i))) else zero_pad n (show_nat (nat i)))"
  by (auto simp: pad_left_def show_int_def zero_pad_def)

lemma parse_zero_width:
  assumes "n < 10" and "c \<in> {CHR ''d'', CHR ''x'', CHR ''X'', CHR ''s'', CHR ''c''}"
  shows "parse_spec (zero_width n @ c # g) =
    (\<lparr>sp_left = False, sp_fill = if n = 0 then CHR '' '' else CHR ''0'', sp_star = False,
      sp_width = if n = 0 then -1 else int n, sp_long = False\<rparr>, c # g)"
proof -
  have d: "is_digit (digit_char False n)" "digit_value (digit_char False n) = int n"
    using assms(1) by (simp_all add: is_digit_digit_char)
  have c: "c \<noteq> CHR ''l''" "\<not> is_digit c" "c \<noteq> CHR ''-''" "c \<noteq> CHR ''0''" "c \<noteq> CHR ''.''" "c \<noteq> CHR ''*''"
    using assms(2) by (auto simp: is_digit_def)
  have "\<not> is_digit (CHR ''.'')" "\<not> is_digit (CHR ''*'')" by (simp_all add: is_digit_def)
  with d have "digit_char False n \<noteq> CHR ''.''" "digit_char False n \<noteq> CHR ''*''" by metis+
  moreover have "s32 (int n) = int n" using assms(1) by simp
  ultimately show ?thesis using c d by (simp add: parse_spec_def skip_char_def zero_width_def)
qed

lemma vform_percent_piece:
  assumes "plain_piece p" and "print_conv p a = Some s" and "unsigned_pads [p] [a]" and "os_width os = 0"
  shows "\<exists>f os'. piece_format p = CHR ''%'' # f \<and> (\<forall>g. vform_percent env (f @ g) (a # ap) os = Inr (g, ap, os'))
    \<and> os_out os' = os_out os @ s \<and> os_width os' = 0"
proof (cases p)
  case PStr
  with assms(2) have a: "a = VStr (Some s)" by (cases a) (auto split: option.splits elim: print_conv.elims)
  with PStr assms(4) parse_zero_width [of 0 "CHR ''s''"] show ?thesis
    by (intro exI [of _ "''s''"]) (auto simp: vform_percent_def zero_width_def vform_conv_def os_put_def pad_left_def Let_def)
next
  case PChar
  with assms(2) obtain c where a: "a = VInt c" "s = [char_of (nat (c mod 256))]" by (cases a) auto
  with PChar assms(4) parse_zero_width [of 0 "CHR ''c''"] show ?thesis
    by (intro exI [of _ "''c''"]) (auto simp: vform_percent_def zero_width_def vform_conv_def os_put_out)
next
  case PLong
  with assms(2) obtain i where a: "a = VLong i" "s = show_int i" by (cases a) auto
  have "parse_spec (''ld'' @ g) = (\<lparr>sp_left = False, sp_fill = CHR '' '', sp_star = False, sp_width = -1, sp_long = True\<rparr>, CHR ''d'' # g)" for g
    by (simp add: parse_spec_def skip_char_def is_digit_def)
  with a PLong assms(4) show ?thesis
    by (intro exI [of _ "''ld''"]) (auto simp: vform_percent_def vform_conv_def put_integer_def os_put_int_def os_put_def pad_left_def)
next
  case (PDec n)
  with assms(2) obtain i where a: "a = VInt i"
    "s = (if i < 0 then CHR ''-'' # zero_pad (n - 1) (show_nat (nat (- i))) else zero_pad n (show_nat (nat i)))" by (cases a) auto
  have n: "n < 10" "n = 0 \<or> 0 \<le> i" using assms(1,3) PDec a by auto
  from PDec a(1) parse_zero_width [OF n(1), of "CHR ''d''"] show ?thesis
    unfolding a(2) show_int_pad [OF n(2), symmetric]
    by (intro exI [of _ "zero_width n @ ''d''"])
      (auto simp: vform_percent_def vform_conv_def put_integer_def os_put_int_def os_put_def)
next
  case (PHex up n)
  with assms(2) obtain i where a: "a = VInt i" "s = zero_pad n (show_base up 16 (nat (i mod 2 ^ 32)))" by (cases a) auto
  have n: "n < 10" using assms(1) PHex by simp
  have pad: "pad_left (if n = 0 then -1 else int n) (if n = 0 then CHR '' '' else CHR ''0'') t = zero_pad n t" for t
    by (simp add: pad_left_def zero_pad_def)
  from PHex a(1) parse_zero_width [OF n, of "if up then CHR ''X'' else CHR ''x''"] show ?thesis
    unfolding a(2) pad [symmetric]
    by (intro exI [of _ "zero_width n @ (if up then ''X'' else ''x'')"])
      (auto simp: vform_percent_def vform_conv_def put_integer_def os_put_int_def os_put_def)
qed (use assms(2) in simp)


lemma separated_tl: "separated (p # ps) \<Longrightarrow> plain_piece p \<and> separated ps"
  by (cases ps) auto

lemma unsigned_pads_Cons:
  "\<not> is_text p \<Longrightarrow> unsigned_pads (p # ps) (a # ap) \<longleftrightarrow> unsigned_pads [p] [a] \<and> unsigned_pads ps ap"
  by (cases p; cases a) auto

lemma vform_loop_pieces:
  assumes "separated ps" and "print_pieces ps ap = Some t" and "unsigned_pads ps ap" and "os_width os = 0"
  shows "\<exists>os' rest. vform_loop env (concat (map piece_format ps)) ap os = Inr (os', rest) \<and> os_out os' = os_out os @ t \<and> os_width os' = 0"
  using assms
proof (induction ps arbitrary: ap t os)
  case Nil
  then show ?case by (simp add: vform_loop_end)
next
  case (Cons p ps)
  note sep = separated_tl [OF Cons.prems(1)]
  show ?case
  proof (cases "is_text p")
    case True
    then obtain s where p: "p = PText s" by (cases p) auto
    with Cons.prems(2) obtain t' where t: "print_pieces ps ap = Some t'" "t = s @ t'" by auto
    have "CHR ''%'' \<notin> set s" using sep p by simp
    from vform_loop_text [OF this Cons.prems(4), of env "concat (map piece_format ps)" ap] obtain os1 where
      os1: "vform_loop env (s @ concat (map piece_format ps)) ap os = vform_loop env (concat (map piece_format ps)) ap os1"
      "os_out os1 = os_out os @ s" "os_width os1 = 0" by blast
    from Cons.IH [OF _ t(1) _ os1(3)] sep Cons.prems(3) p show ?thesis by (auto simp: os1 t)
  next
    case False
    obtain a ap' s t' where a: "ap = a # ap'" "print_conv p a = Some s" "print_pieces ps ap' = Some t'" "t = s @ t'"
      using Cons.prems(2) False by (cases ap; cases p) (auto simp: bind_eq_Some_conv)
    have u: "unsigned_pads [p] [a]" "unsigned_pads ps ap'"
      using iffD1 [OF unsigned_pads_Cons [OF False] Cons.prems(3) [unfolded a(1)]] by blast+
    let ?rest = "concat (map piece_format ps)"
    have rest: "?rest = [] \<or> hd ?rest \<noteq> CHR ''%''"
    proof (cases ps)
      case (Cons q qs)
      then have "is_text q" "plain_piece q" using Cons.prems(1) False sep separated_tl [of q qs] by simp_all
      then obtain s' where "q = PText s'" "s' \<noteq> []" "CHR ''%'' \<notin> set s'" by (cases q) auto
      then show ?thesis using Cons by (cases s') auto
    qed simp
    from vform_percent_piece [OF conjunct1 [OF sep] a(2) u(1) Cons.prems(4)] obtain f os1 where
      f: "piece_format p = CHR ''%'' # f" "vform_percent env (f @ ?rest) (a # ap') os = Inr (?rest, ap', os1)"
      "os_out os1 = os_out os @ s" "os_width os1 = 0" by blast
    from Cons.IH [OF conjunct2 [OF sep] a(3) u(2) f(4)] vform_loop_conv [OF f(2) rest] show ?thesis
      unfolding a(1,4) by (simp add: f(1,3))
  qed
qed

lemma vform_prints:
  assumes "separated ps" and "print_pieces ps ap = Some t" and "unsigned_pads ps ap" and "os_width os = 0"
  shows "\<exists>os'. vform env os (concat (map piece_format ps)) ap = Inr os' \<and> os_out os' = os_out os @ t \<and> os_width os' = 0"
  using vform_loop_pieces [OF assms] by (auto simp: vform_def)

definition ex_form_env :: form_env where
  "ex_form_env = \<lparr>fe_strerror = ''Success'', fe_fixed = (\<lambda>_ _. ''0'')\<rparr>"

text \<open>C33 On formats whose conversions are each followed by text or by the end, and whose zero padded
  decimal numbers are not negative, \<open>vform\<close> prints what \<open>printf\<close> of C prints and leaves no width set.\<close>

theorem vform_is_printf:
  assumes "separated ps" and "print_pieces ps ap = Some t" and "unsigned_pads ps ap" and "os_width os = 0"
  shows "\<exists>os'. vform env os (concat (map piece_format ps)) ap = Inr os' \<and> os_out os' = os_out os @ t \<and> os_width os' = 0"
  by (rule vform_prints [OF assms])

text \<open>The banner of a log line.\<close>

theorem vform_is_printf_witness:
  "\<exists>os'. vform ex_form_env ostream_new ''%s(%d,%02x): '' [VStr (Some ''alloc''), VInt (-5), VInt 10] = Inr os'
     \<and> os_out os' = ''alloc(-5,0a): ''"
proof -
  let ?ps = "[PStr, PText ''('', PDec 0, PText '','', PHex False 2, PText ''): '']"
  have f: "concat (map piece_format ?ps) = ''%s(%d,%02x): ''" by code_simp
  have p: "print_pieces ?ps [VStr (Some ''alloc''), VInt (-5), VInt 10] = Some ''alloc(-5,0a): ''" by code_simp
  have "\<exists>os'. vform ex_form_env ostream_new (concat (map piece_format ?ps)) [VStr (Some ''alloc''), VInt (-5), VInt 10] = Inr os'
      \<and> os_out os' = os_out ostream_new @ ''alloc(-5,0a): '' \<and> os_width os' = 0"
    by (rule vform_is_printf [OF _ p]) (simp_all add: ostream_new_def)
  then show ?thesis unfolding f by (auto simp: ostream_new_def)
qed

text \<open>Without text between two conversions the second is copied, and the arguments after it shift.\<close>

lemma vform_adjacent_example:
  "vform env ostream_new ''%d%d %d'' [VInt 1, VInt 2, VInt 3] = Inr (ostream_new\<lparr>os_out := ''1%d 2''\<rparr>)"
  by code_simp

end
