(* ===== verification/Log.thy ===== *)
theory Log
  imports Form Apprc
begin

text \<open>
  \<open>src/src/share/dsLog.h\<close> and \<open>dsLog.cxx\<close>: the log with its stack of component names, whose
  verbosity comes from the configuration (\<open>log-<component>\<close>), and the output streams. The clock's
  text is a parameter, and so is whether the log file can be opened. The log writes its lines
  through \<open>vform\<close>.
\<close>

section \<open>State\<close>

abbreviation (input) MAX_LOG_COMPONENT_STACK :: nat where "MAX_LOG_COMPONENT_STACK \<equiv> 10"

datatype log_target = Cerr | Cout | MyFile

text \<open>\<open>log_file\<close> is the static stream of \<open>set_output\<close>, opened by its first call with a file name:
  the name and whether it is open.\<close>

record dsLog =
  log_name :: string
  log_verbosity :: int
  log_stack :: "string option list"
  log_top :: nat
  log_out :: log_target
  log_prefix :: "string option"
  log_file :: "(string \<times> bool) option"
  log_os :: "log_target \<Rightarrow> ostream"

record log_env =
  le_form :: form_env
  le_time :: string
  le_rc :: dsApprc
  le_open :: "string \<Rightarrow> bool"

definition dsLog_new :: dsLog where
  "dsLog_new = \<lparr>log_name = ''sys'', log_verbosity = 99, log_stack = (replicate MAX_LOG_COMPONENT_STACK None)[0 := Some ''sys''],
     log_top = 0, log_out = Cerr, log_prefix = None, log_file = None, log_os = (\<lambda>_. ostream_new)\<rparr>"

section \<open>Components\<close>

definition verbosity :: "log_env \<Rightarrow> string \<Rightarrow> int res" where
  "verbosity env name = getint_default (le_rc env) (''log-'' @ name) 99"

definition push_component :: "log_env \<Rightarrow> string \<Rightarrow> (dsLog, unit) proc" where
  "push_component env name =
     bindP (getP log_top) (\<lambda>top.
     if top = MAX_LOG_COMPONENT_STACK - 1 then retP ()
     else
       bindP (modifyP (\<lambda>l. l\<lparr>log_name := name\<rparr>)) (\<lambda>_.
       bindP (liftP (verbosity env name)) (\<lambda>v.
       modifyP (\<lambda>l. l\<lparr>log_verbosity := v, log_top := top + 1, log_stack := (log_stack l)[top + 1 := Some name]\<rparr>))))"

definition pop_component :: "log_env \<Rightarrow> (dsLog, unit) proc" where
  "pop_component env =
     bindP (getP log_top) (\<lambda>top.
     if top = 0 then retP ()
     else
       bindP (modifyP (\<lambda>l. l\<lparr>log_top := top - 1\<rparr>)) (\<lambda>_.
       bindP (getP log_stack) (\<lambda>stack.
       bindP (liftP (bindR (read_at stack (top - 1)) read_init)) (\<lambda>name.
       bindP (modifyP (\<lambda>l. l\<lparr>log_name := name\<rparr>)) (\<lambda>_.
       bindP (liftP (verbosity env name)) (\<lambda>v.
       modifyP (\<lambda>l. l\<lparr>log_verbosity := v\<rparr>)))))))"

text \<open>\<open>dsLogScope\<close>: the destructor runs on every way out.\<close>

definition log_scope :: "log_env \<Rightarrow> string \<Rightarrow> (dsLog, 'a) proc \<Rightarrow> (dsLog, 'a) proc" where
  "log_scope env name body =
     bindP (push_component env name) (\<lambda>_ l.
     case body l of (r, l) \<Rightarrow> bindP (pop_component env) (\<lambda>_. liftP r) l)"

section \<open>Streams and prefix\<close>

definition set_prefix :: "string \<Rightarrow> dsLog \<Rightarrow> dsLog" where
  "set_prefix prefix l = l\<lparr>log_prefix := Some prefix\<rparr>"

definition clear_prefix :: "dsLog \<Rightarrow> dsLog" where
  "clear_prefix l = l\<lparr>log_prefix := None\<rparr>"

definition on_stream :: "log_target \<Rightarrow> (ostream \<Rightarrow> ostream res) \<Rightarrow> (dsLog, unit) proc" where
  "on_stream t f =
     bindP (getP (\<lambda>l. log_os l t)) (\<lambda>os. bindP (liftP (f os)) (\<lambda>os. modifyP (\<lambda>l. l\<lparr>log_os := (log_os l)(t := os)\<rparr>)))"

definition form :: "log_env \<Rightarrow> log_target \<Rightarrow> string \<Rightarrow> va_arg list \<Rightarrow> (dsLog, unit) proc" where
  "form env t format ap = on_stream t (\<lambda>os. vform (le_form env) os format ap)"

definition eol :: "log_target \<Rightarrow> (dsLog, unit) proc" where
  "eol t = on_stream t (\<lambda>os. Inr (os_put [CHR 0x0A] os))"

section \<open>Messages\<close>

definition WITH_BANNER :: nat where "WITH_BANNER = 1"
definition WITH_EOL :: nat where "WITH_EOL = 2"

definition write_ts :: "log_env \<Rightarrow> log_target \<Rightarrow> (dsLog, unit) proc" where
  "write_ts env t = form env t ''%s '' [VStr (Some (le_time env))]"

definition banner :: "log_env \<Rightarrow> log_target \<Rightarrow> int \<Rightarrow> (dsLog, unit) proc" where
  "banner env t priority =
     bindP (write_ts env t) (\<lambda>_.
     bindP (getP log_prefix) (\<lambda>prefix.
     bindP (case prefix of Some p \<Rightarrow> form env t ''[%s]'' [VStr (Some p)] | None \<Rightarrow> retP ()) (\<lambda>_.
     bindP (getP log_name) (\<lambda>name.
     bindP (getP log_verbosity) (\<lambda>v.
     if priority = 0 then form env t ''%s: '' [VStr (Some name)]
     else form env t ''%s(%d,%d): '' [VStr (Some name), VInt v, VInt priority])))))"

definition log_write :: "log_env \<Rightarrow> log_target \<Rightarrow> nat \<Rightarrow> int \<Rightarrow> string \<Rightarrow> va_arg list \<Rightarrow> (dsLog, unit) proc" where
  "log_write env t flags priority format ap =
     bindP (getP log_verbosity) (\<lambda>v.
     if priority = 0 \<or> v \<ge> priority then
       bindP (if flags AND WITH_BANNER \<noteq> 0 then banner env t priority else retP ()) (\<lambda>_.
       bindP (form env t format ap) (\<lambda>_.
       if flags AND WITH_EOL \<noteq> 0 then eol t else retP ()))
     else retP ())"

definition log_message :: "log_env \<Rightarrow> nat \<Rightarrow> int \<Rightarrow> int \<Rightarrow> string \<Rightarrow> va_arg list \<Rightarrow> (dsLog, int) proc" where
  "log_message env flags priority result format ap =
     bindP (getP log_out) (\<lambda>t. bindP (log_write env t flags priority format ap) (\<lambda>_. retP result))"

definition log_error :: "log_env \<Rightarrow> string \<Rightarrow> va_arg list \<Rightarrow> (dsLog, int) proc" where
  "log_error env = log_message env (WITH_BANNER OR WITH_EOL) 1 (-1)"

definition log_warn :: "log_env \<Rightarrow> string \<Rightarrow> va_arg list \<Rightarrow> (dsLog, int) proc" where
  "log_warn env = log_message env (WITH_BANNER OR WITH_EOL) 2 1"

definition log_info :: "log_env \<Rightarrow> string \<Rightarrow> va_arg list \<Rightarrow> (dsLog, int) proc" where
  "log_info env = log_message env (WITH_BANNER OR WITH_EOL) 3 0"

definition log_debug :: "log_env \<Rightarrow> string \<Rightarrow> va_arg list \<Rightarrow> (dsLog, int) proc" where
  "log_debug env = log_message env (WITH_BANNER OR WITH_EOL) 4 0"

definition log_print :: "log_env \<Rightarrow> string \<Rightarrow> va_arg list \<Rightarrow> (dsLog, int) proc" where
  "log_print env = log_message env (WITH_BANNER OR WITH_EOL) 0 0"

definition print_start :: "log_env \<Rightarrow> string \<Rightarrow> va_arg list \<Rightarrow> (dsLog, int) proc" where
  "print_start env = log_message env WITH_BANNER 0 0"

definition print_add :: "log_env \<Rightarrow> string \<Rightarrow> va_arg list \<Rightarrow> (dsLog, int) proc" where
  "print_add env = log_message env 0 0 0"

definition print_eol :: "log_env \<Rightarrow> string \<Rightarrow> va_arg list \<Rightarrow> (dsLog, int) proc" where
  "print_eol env = log_message env WITH_EOL 0 0"

definition guarantee :: "log_env \<Rightarrow> bool \<Rightarrow> string \<Rightarrow> va_arg list \<Rightarrow> (dsLog, unit) proc" where
  "guarantee env condition format ap =
     (if \<not> condition then
        bindP (getP log_out) (\<lambda>t.
        bindP (form env t ''ASSERT_FAILED: '' []) (\<lambda>_.
        bindP (form env t format ap) (\<lambda>_.
        bindP (eol t) (\<lambda>_. throwP (LogException ''Guarantee failed'')))))
      else retP ())"

text \<open>\<open>dsl_assert\<close> does nothing unless the program is built with \<open>ENABLE_ASSERTS\<close>.\<close>

definition dsl_assert :: "log_env \<Rightarrow> bool \<Rightarrow> bool \<Rightarrow> string \<Rightarrow> va_arg list \<Rightarrow> (dsLog, unit) proc" where
  "dsl_assert env enabled condition format ap =
     (if enabled \<and> \<not> condition then
        bindP (getP log_out) (\<lambda>t.
        bindP (form env t ''ASSERT_FAILED: '' []) (\<lambda>_.
        bindP (form env t format ap) (\<lambda>_.
        bindP (eol t) (\<lambda>_. throwP (LogException ''Assert failed'')))))
      else retP ())"

definition set_output :: "log_env \<Rightarrow> string \<Rightarrow> (dsLog, unit) proc" where
  "set_output env filename =
     (if filename = ''cerr'' then modifyP (\<lambda>l. l\<lparr>log_out := Cerr\<rparr>)
      else if filename = ''cout'' then modifyP (\<lambda>l. l\<lparr>log_out := Cout\<rparr>)
      else
        bindP (modifyP (\<lambda>l. l\<lparr>log_file := Some (case log_file l of None \<Rightarrow> (filename, le_open env filename) | Some f \<Rightarrow> f)\<rparr>)) (\<lambda>_.
        bindP (getP log_file) (\<lambda>myfile.
        case myfile of
          Some (_, True) \<Rightarrow> modifyP (\<lambda>l. l\<lparr>log_out := MyFile\<rparr>)
        | _ \<Rightarrow> bindP (log_error env (''Can'' @ [CHR 0x27] @ ''t open log file '' @ quoted ''%s'') [VStr (Some filename)]) (\<lambda>_. retP ()))))"

section \<open>Lines of the log\<close>

lemma form_prints:
  assumes "separated ps" and "print_pieces ps ap = Some t" and "unsigned_pads ps ap" and "os_width (log_os l tg) = 0"
  shows "\<exists>os'. form env tg (concat (map piece_format ps)) ap l = (Inr (), l\<lparr>log_os := (log_os l)(tg := os')\<rparr>)
    \<and> os_out os' = os_out (log_os l tg) @ t \<and> os_width os' = 0"
proof -
  from vform_prints [OF assms, of "le_form env"] obtain os' where
    "vform (le_form env) (log_os l tg) (concat (map piece_format ps)) ap = Inr os'"
    "os_out os' = os_out (log_os l tg) @ t" "os_width os' = 0" by blast
  then show ?thesis by (intro exI [of _ os']) (simp add: form_def on_stream_def bindP_def proc_defs)
qed

text \<open>\<open>adds env tg s m\<close>: the code only appends \<open>s\<close> to a stream, from any state with that configuration.\<close>

definition adds :: "log_target \<Rightarrow> string \<Rightarrow> (dsLog, 'a) proc \<Rightarrow> 'a \<Rightarrow> dsLog \<Rightarrow> bool" where
  "adds tg s m x l \<longleftrightarrow> (os_width (log_os l tg) = 0 \<longrightarrow>
     (\<exists>os'. m l = (Inr x, l\<lparr>log_os := (log_os l)(tg := os')\<rparr>) \<and> os_out os' = os_out (log_os l tg) @ s \<and> os_width os' = 0))"

lemma adds_form:
  "separated ps \<Longrightarrow> print_pieces ps ap = Some t \<Longrightarrow> unsigned_pads ps ap \<Longrightarrow> f = concat (map piece_format ps) \<Longrightarrow>
    adds tg t (form env tg f ap) () l"
  using form_prints by (simp add: adds_def)

lemma adds_eol: "adds tg [CHR 0x0A] (eol tg) () l"
  unfolding adds_def
  by (intro impI exI [of _ "os_put [CHR 0x0A] (log_os l tg)"])
    (simp add: eol_def on_stream_def bindP_def proc_defs os_put_out)

lemma adds_retP: "adds tg [] (retP x) x l"
  by (auto simp: adds_def retP_def intro!: exI [of _ "log_os l tg"])

lemma adds_bindP:
  assumes "adds tg s m x l" and "\<And>os. adds tg t (f x) y (l\<lparr>log_os := (log_os l)(tg := os)\<rparr>)"
  shows "adds tg (s @ t) (bindP m f) y l"
  unfolding adds_def
proof
  assume "os_width (log_os l tg) = 0"
  with assms(1) obtain os' where os': "m l = (Inr x, l\<lparr>log_os := (log_os l)(tg := os')\<rparr>)"
    "os_out os' = os_out (log_os l tg) @ s" "os_width os' = 0" by (auto simp: adds_def)
  with assms(2) [of os'] show "\<exists>os'. bindP m f l = (Inr y, l\<lparr>log_os := (log_os l)(tg := os')\<rparr>)
      \<and> os_out os' = os_out (log_os l tg) @ s @ t \<and> os_width os' = 0"
    by (auto simp: adds_def)
qed

lemma adds_getP: "adds tg s (f (g l)) y l \<Longrightarrow> adds tg s (bindP (getP g) f) y l"
  by (simp add: adds_def bindP_def getP_def)

definition banner_text :: "log_env \<Rightarrow> dsLog \<Rightarrow> int \<Rightarrow> string" where
  "banner_text env l priority =
     le_time env @ '' '' @ (case log_prefix l of None \<Rightarrow> [] | Some p \<Rightarrow> ''['' @ p @ '']'') @ log_name l @
     (if priority = 0 then '': '' else ''('' @ show_int (log_verbosity l) @ '','' @ show_int priority @ ''): '')"

lemma banner_formats:
  "concat (map piece_format [PStr, PText '' '']) = ''%s ''"
  "concat (map piece_format [PText ''['', PStr, PText '']'']) = ''[%s]''"
  "concat (map piece_format [PStr, PText '': '']) = ''%s: ''"
  "concat (map piece_format [PStr, PText ''('', PDec 0, PText '','', PDec 0, PText ''): '']) = ''%s(%d,%d): ''"
  by (simp_all add: zero_width_def)

lemma print_dec: "print_conv (PDec 0) (VInt i) = Some (show_int i)"
  by (simp add: show_int_def zero_pad_def)

lemma adds_banner: "adds tg (banner_text env l priority) (banner env tg priority) () l"
proof -
  have ts: "adds tg (le_time env @ '' '') (write_ts env tg) () l"
    unfolding write_ts_def by (rule adds_form [OF _ _ _ banner_formats(1) [symmetric]]) simp_all
  have pre: "adds tg (case p of None \<Rightarrow> [] | Some p \<Rightarrow> ''['' @ p @ '']'')
      (case p of Some p \<Rightarrow> form env tg ''[%s]'' [VStr (Some p)] | None \<Rightarrow> retP ()) () l" for p l
  proof (cases p)
    case (Some q)
    have "adds tg (''['' @ q @ '']'') (form env tg ''[%s]'' [VStr (Some q)]) () l"
      by (rule adds_form [OF _ _ _ banner_formats(2) [symmetric]]) simp_all
    with Some show ?thesis by simp
  qed (simp add: adds_retP)
  have name: "adds tg (n @ (if priority = 0 then '': '' else ''('' @ show_int v @ '','' @ show_int priority @ ''): ''))
      (if priority = 0 then form env tg ''%s: '' [VStr (Some n)]
       else form env tg ''%s(%d,%d): '' [VStr (Some n), VInt v, VInt priority]) () l" for n v l
  proof (cases "priority = 0")
    case True
    have "adds tg (n @ '': '') (form env tg ''%s: '' [VStr (Some n)]) () l"
      by (rule adds_form [OF _ _ _ banner_formats(3) [symmetric]]) simp_all
    with True show ?thesis by simp
  next
    case False
    have "adds tg (n @ ''('' @ show_int v @ '','' @ show_int priority @ ''): '')
        (form env tg ''%s(%d,%d): '' [VStr (Some n), VInt v, VInt priority]) () l"
      by (rule adds_form [OF _ _ _ banner_formats(4) [symmetric]]) (simp_all add: print_dec del: print_conv.simps(4))
    with False show ?thesis by simp
  qed
  let ?tail = "bindP (getP log_name) (\<lambda>name. bindP (getP log_verbosity) (\<lambda>v.
     if priority = 0 then form env tg ''%s: '' [VStr (Some name)]
     else form env tg ''%s(%d,%d): '' [VStr (Some name), VInt v, VInt priority]))"
  let ?name = "\<lambda>l. log_name l @
      (if priority = 0 then '': '' else ''('' @ show_int (log_verbosity l) @ '','' @ show_int priority @ ''): '')"
  let ?pre = "\<lambda>l. case log_prefix l of None \<Rightarrow> [] | Some p \<Rightarrow> ''['' @ p @ '']''"
  have tail: "adds tg (?name l) ?tail () l" for l by (intro adds_getP name)
  have mid: "adds tg (?pre l @ ?name l) (bindP (getP log_prefix) (\<lambda>prefix.
      bindP (case prefix of Some p \<Rightarrow> form env tg ''[%s]'' [VStr (Some p)] | None \<Rightarrow> retP ()) (\<lambda>_. ?tail))) () l" for l
  proof (rule adds_getP, rule adds_bindP [OF pre])
    fix os show "adds tg (?name l) ?tail () (l\<lparr>log_os := (log_os l)(tg := os)\<rparr>)"
      using tail [of "l\<lparr>log_os := (log_os l)(tg := os)\<rparr>"] by (simp cong: if_cong split del: if_split)
  qed
  have "adds tg ((le_time env @ '' '') @ ?pre l @ ?name l) (banner env tg priority) () l"
    unfolding banner_def
  proof (rule adds_bindP [OF ts])
    fix os show "adds tg (?pre l @ ?name l) (bindP (getP log_prefix) (\<lambda>prefix.
      bindP (case prefix of Some p \<Rightarrow> form env tg ''[%s]'' [VStr (Some p)] | None \<Rightarrow> retP ()) (\<lambda>_. ?tail)))
      () (l\<lparr>log_os := (log_os l)(tg := os)\<rparr>)"
      using mid [of "l\<lparr>log_os := (log_os l)(tg := os)\<rparr>"] by (simp cong: if_cong split del: if_split)
  qed
  then show ?thesis by (simp add: banner_text_def)
qed

lemma adds_log_write:
  assumes "separated ps" and "print_pieces ps ap = Some t" and "unsigned_pads ps ap"
  shows "adds tg (if p = 0 \<or> p \<le> log_verbosity l then banner_text env l p @ t @ [CHR 0x0A] else [])
    (log_write env tg (WITH_BANNER OR WITH_EOL) p (concat (map piece_format ps)) ap) () l"
proof -
  have flags: "(WITH_BANNER OR WITH_EOL) AND WITH_BANNER \<noteq> 0" "(WITH_BANNER OR WITH_EOL) AND WITH_EOL \<noteq> 0"
    by (simp_all add: WITH_BANNER_def WITH_EOL_def)
  have f: "adds tg t (form env tg (concat (map piece_format ps)) ap) () l" for l by (rule adds_form [OF assms refl])
  have "adds tg (banner_text env l p @ t @ [CHR 0x0A])
      (bindP (banner env tg p) (\<lambda>_. bindP (form env tg (concat (map piece_format ps)) ap) (\<lambda>_. eol tg))) () l"
    by (intro adds_bindP [OF adds_banner] adds_bindP [OF f] adds_eol)
  then show ?thesis unfolding log_write_def by (intro adds_getP) (simp add: flags adds_retP)
qed

text \<open>An empty configuration, with which every component has the verbosity 99.\<close>

definition ex_log_env :: log_env where
  "ex_log_env = \<lparr>le_form = ex_form_env, le_time = ''2012-06-01 12:00:00'',
     le_rc = dsApprc_new, le_open = (\<lambda>_. True)\<rparr>"

text \<open>C34 A message of priority \<open>p\<close> is one line with its banner, appended to the current stream, if \<open>p\<close>
  is 0 or at most the verbosity of the component, and nothing otherwise.\<close>

theorem log_line:
  assumes "separated ps" and "print_pieces ps ap = Some t" and "unsigned_pads ps ap" and "os_width (log_os l (log_out l)) = 0"
    and "(m, p, r) \<in> {(log_error, 1, -1), (log_warn, 2, 1), (log_info, 3, 0), (log_debug, 4, 0), (log_print, 0, 0 :: int)}"
  shows "\<exists>os'. m env (concat (map piece_format ps)) ap l = (Inr r, l\<lparr>log_os := (log_os l)(log_out l := os')\<rparr>)
    \<and> os_out os' = os_out (log_os l (log_out l)) @
        (if p = 0 \<or> p \<le> log_verbosity l then banner_text env l p @ t @ [CHR 0x0A] else [])"
proof -
  have run: "log_message env (WITH_BANNER OR WITH_EOL) p r (concat (map piece_format ps)) ap l =
      (Inr r, l\<lparr>log_os := (log_os l)(log_out l := os')\<rparr>)"
    if "log_write env (log_out l) (WITH_BANNER OR WITH_EOL) p (concat (map piece_format ps)) ap l =
      (Inr (), l\<lparr>log_os := (log_os l)(log_out l := os')\<rparr>)" for os'
    using that by (simp add: log_message_def bindP_def proc_defs)
  have m: "m env = log_message env (WITH_BANNER OR WITH_EOL) p r"
    using assms(5) by (auto simp: log_error_def log_warn_def log_info_def log_debug_def log_print_def)
  from adds_log_write [OF assms(1-3), of "log_out l" p l env] assms(4) show ?thesis
    unfolding m adds_def using run by blast
qed


theorem log_line_witness:
  "\<exists>os'. log_warn ex_log_env ''Lease %s expires'' [VStr (Some ''10.0.0.7'')] dsLog_new = (Inr 1, dsLog_new\<lparr>log_os := (log_os dsLog_new)(Cerr := os')\<rparr>)
    \<and> os_out os' = banner_text ex_log_env dsLog_new 2 @ ''Lease 10.0.0.7 expires'' @ [CHR 0x0A]"
proof -
  have p: "print_pieces [PText ''Lease '', PStr, PText '' expires''] [VStr (Some ''10.0.0.7'')] = Some ''Lease 10.0.0.7 expires''"
    by simp
  from log_line [OF _ p, of dsLog_new log_warn 2 1 ex_log_env] show ?thesis by (simp add: dsLog_new_def ostream_new_def)
qed

section \<open>Scopes\<close>

text \<open>The part of the state that push and pop are about, and its invariant: the name is the top of
  the stack and every component on it has a verbosity.\<close>

definition log_ok :: "log_env \<Rightarrow> dsLog \<Rightarrow> bool" where
  "log_ok env l \<longleftrightarrow> length (log_stack l) = 10 \<and> log_top l < 10 \<and> log_stack l ! log_top l = Some (log_name l)
     \<and> (\<forall>i \<le> log_top l. \<exists>n v. log_stack l ! i = Some n \<and> verbosity env n = Inr v)"

definition same_component :: "dsLog \<Rightarrow> dsLog \<Rightarrow> bool" where
  "same_component l l' \<longleftrightarrow> log_name l' = log_name l \<and> log_top l' = log_top l
     \<and> length (log_stack l') = length (log_stack l) \<and> (\<forall>i \<le> log_top l. log_stack l' ! i = log_stack l ! i)"

lemma dsLog_new_ok: "verbosity env ''sys'' = Inr v \<Longrightarrow> log_ok env dsLog_new"
  by (simp add: log_ok_def dsLog_new_def numeral_eq_Suc)

lemma same_component_refl: "same_component l l" by (simp add: same_component_def)

lemma same_component_ok: "log_ok env l \<Longrightarrow> same_component l l' \<Longrightarrow> log_ok env l'"
  by (auto simp: log_ok_def same_component_def)

lemma push_component_run:
  assumes "log_ok env l" and "verbosity env name = Inr v" and "log_top l < 9"
  shows "\<exists>l1. push_component env name l = (Inr (), l1) \<and> log_ok env l1 \<and> log_name l1 = name \<and> log_top l1 = log_top l + 1
    \<and> log_verbosity l1 = v \<and> log_os l1 = log_os l \<and> (\<forall>i \<le> log_top l. log_stack l1 ! i = log_stack l ! i)"
  using assms
  by (auto simp: push_component_def bindP_def proc_defs log_ok_def nth_list_update le_Suc_eq)

lemma pop_component_run:
  assumes "log_ok env l" and "0 < log_top l"
  shows "\<exists>n v l1. log_stack l ! (log_top l - 1) = Some n \<and> verbosity env n = Inr v
    \<and> pop_component env l = (Inr (), l1) \<and> log_ok env l1 \<and> log_name l1 = n \<and> log_top l1 = log_top l - 1
    \<and> log_verbosity l1 = v \<and> log_stack l1 = log_stack l \<and> log_os l1 = log_os l"
proof -
  from assms(1) have "log_top l - 1 \<le> log_top l" by simp
  with assms(1) obtain n v where n: "log_stack l ! (log_top l - 1) = Some n" "verbosity env n = Inr v"
    unfolding log_ok_def by blast
  with assms show ?thesis
    by (auto simp: pop_component_def bindP_def proc_defs log_ok_def)
qed

text \<open>The verbosity is the configured one of the current component.\<close>

definition log_current :: "log_env \<Rightarrow> dsLog \<Rightarrow> bool" where
  "log_current env l \<longleftrightarrow> verbosity env (log_name l) = Inr (log_verbosity l)"

text \<open>C35 The scopes of the log are balanced: as long as no more than nine components are pushed, code
  that runs in nested scopes and keeps the component, the verbosity and the stack of its own scope
  returns with the component and the stack it was called with, whether it returns or raises. The
  verbosity is then the configured one of the component, and the one it was called with if that was
  the configured one already; without a scope it is untouched.\<close>

theorem log_scopes_balanced:
  assumes "log_ok env l" and "log_top l + length names \<le> 9" and "\<And>n. n \<in> set names \<Longrightarrow> \<exists>v. verbosity env n = Inr v"
    and "\<And>l1. log_ok env l1 \<Longrightarrow> \<exists>l2. body l1 = (r, l2) \<and> same_component l1 l2 \<and> log_verbosity l2 = log_verbosity l1"
  shows "\<exists>l'. foldr (log_scope env) names body l = (r, l') \<and> same_component l l'
    \<and> (names \<noteq> [] \<longrightarrow> log_current env l') \<and> (names = [] \<or> log_current env l \<longrightarrow> log_verbosity l' = log_verbosity l)"
  using assms(1-3)
proof (induction names arbitrary: l)
  case Nil
  from assms(4) [OF Nil.prems(1)] show ?case by auto
next
  case (Cons n names)
  obtain v where v: "verbosity env n = Inr v" using Cons.prems(3) [of n] by auto
  have top: "log_top l < 9" using Cons.prems(2) by simp
  from push_component_run [OF Cons.prems(1) v top] obtain l1 where
    l1: "push_component env n l = (Inr (), l1)" "log_ok env l1" "log_name l1 = n" "log_top l1 = log_top l + 1"
      "\<forall>i \<le> log_top l. log_stack l1 ! i = log_stack l ! i" by blast
  obtain l2 where l2: "foldr (log_scope env) names body l1 = (r, l2)" "same_component l1 l2"
    using Cons.IH [OF l1(2)] Cons.prems(2,3) l1(4) by auto
  have ok: "log_ok env l2" "log_top l2 = log_top l + 1" using same_component_ok [OF l1(2) l2(2)] l2(2) l1(4)
    by (simp_all add: same_component_def)
  from pop_component_run [OF ok(1)] ok(2) obtain m w l3 where
    l3: "log_stack l2 ! log_top l = Some m" "verbosity env m = Inr w" "pop_component env l2 = (Inr (), l3)" "log_name l3 = m"
      "log_top l3 = log_top l" "log_verbosity l3 = w" "log_stack l3 = log_stack l2" by auto
  have stack: "log_stack l2 ! i = log_stack l ! i" if "i \<le> log_top l" for i
    using that l1(4,5) l2(2) by (simp add: same_component_def)
  have m: "m = log_name l" using l3(1) stack Cons.prems(1) by (simp add: log_ok_def)
  have "same_component l l3"
    using l3 m stack ok(1) Cons.prems(1) by (simp add: same_component_def log_ok_def)
  moreover have "foldr (log_scope env) (n # names) body l = (r, l3)"
    using l1(1) l2(1) l3(3) by (simp add: log_scope_def bindP_def proc_defs)
  ultimately show ?case using m l3 by (auto simp: log_current_def)
qed

text \<open>The condition on the verbosity is needed: the log starts with verbosity 99 and never reads the
  configured one of its first component, so that the first scope changes it.\<close>

lemma first_scope_sets_verbosity:
  assumes "verbosity env ''sys'' = Inr v" and "verbosity env name = Inr w"
  shows "\<exists>l'. log_scope env name (retP ()) dsLog_new = (Inr (), l') \<and> same_component dsLog_new l'
    \<and> log_verbosity dsLog_new = 99 \<and> log_verbosity l' = v"
proof -
  from push_component_run [OF dsLog_new_ok [OF assms(1)] assms(2)] obtain l1 where
    l1: "push_component env name dsLog_new = (Inr (), l1)" "log_ok env l1" "log_top l1 = 1" "log_stack l1 ! 0 = Some ''sys''"
    by (auto simp: dsLog_new_def)
  from pop_component_run [OF l1(2)] l1(3,4) assms(1) obtain l2 where
    "pop_component env l1 = (Inr (), l2)" "log_verbosity l2 = v" "log_name l2 = ''sys''" "log_top l2 = 0" "log_stack l2 = log_stack l1"
    by auto
  with l1 show ?thesis by (simp add: log_scope_def bindP_def proc_defs same_component_def dsLog_new_def log_ok_def)
qed

lemma ex_verbosity: "good_key (''log-'' @ n) \<Longrightarrow> verbosity ex_log_env n = Inr 99"
proof -
  assume "good_key (''log-'' @ n)"
  moreover have "ht_inv (rc_h dsApprc_new)" unfolding dsApprc_new_def by (simp add: ht_new_inv)
  moreover have "ht_contents (rc_h dsApprc_new) = Map.empty"
    by (simp add: dsApprc_new_def ht_contents_def ht_new_def fun_eq_iff)
  ultimately show ?thesis
    using ht_seek_contents [of "rc_h dsApprc_new" "''log-'' @ n"]
    by (simp add: verbosity_def ex_log_env_def getint_default_def rc_seek_def) (simp add: dsApprc_new_def)
qed

theorem log_scopes_balanced_witness:
  "\<exists>l'. foldr (log_scope ex_log_env) [''net'', ''alloc''] (modifyP (set_prefix ''eth0'')) dsLog_new = (Inr (), l')
    \<and> log_name l' = ''sys'' \<and> log_top l' = 0 \<and> log_verbosity l' = 99"
proof -
  have v: "verbosity ex_log_env ''sys'' = Inr 99" "verbosity ex_log_env ''net'' = Inr 99" "verbosity ex_log_env ''alloc'' = Inr 99"
    by (simp_all add: ex_verbosity good_key_def)
  have body: "\<exists>l2. modifyP (set_prefix ''eth0'') l1 = (Inr (), l2) \<and> same_component l1 l2 \<and> log_verbosity l2 = log_verbosity l1" for l1
    by (simp add: modifyP_def set_prefix_def same_component_def)
  obtain l' where "foldr (log_scope ex_log_env) [''net'', ''alloc''] (modifyP (set_prefix ''eth0'')) dsLog_new = (Inr (), l')"
    "same_component dsLog_new l'" "log_verbosity l' = log_verbosity dsLog_new"
    using log_scopes_balanced [OF dsLog_new_ok [OF v(1)], of "[''net'', ''alloc'']" "modifyP (set_prefix ''eth0'')" "Inr ()"] v body
    by (auto simp: dsLog_new_def log_current_def)
  then show ?thesis by (auto simp: same_component_def dsLog_new_def)
qed

text \<open>On a full stack a push is ignored but its scope still pops.\<close>

lemma full_stack_scope_pops_parent:
  assumes "log_ok env l" and "log_top l = 9"
  shows "\<exists>l' n. log_scope env name (retP ()) l = (Inr (), l') \<and> log_top l' = 8 \<and> log_stack l ! 8 = Some n \<and> log_name l' = n"
proof -
  have "push_component env name l = (Inr (), l)" using assms(2) by (simp add: push_component_def bindP_def proc_defs)
  with pop_component_run [OF assms(1)] assms(2) show ?thesis
    by (fastforce simp: log_scope_def bindP_def proc_defs)
qed

end
