(* ===== verification/Simulation.thy ===== *)
theory Simulation
  imports Prelude
begin

text \<open>
  Sequences of operations on a component and on its abstract specification, and the interface
  under which the two agree: one step of the code returns what one step of the specification
  returns and keeps them related, as long as the specification allows the step.
\<close>

fun run_ops :: "('s \<Rightarrow> 'op \<Rightarrow> ('r \<times> 's) res) \<Rightarrow> 's \<Rightarrow> 'op list \<Rightarrow> ('r list \<times> 's) res" where
  "run_ops step s [] = Inr ([], s)"
| "run_ops step s (op # ops) =
     bindR (step s op) (\<lambda>(r, s). bindR (run_ops step s ops) (\<lambda>(rs, s). Inr (r # rs, s)))"

fun spec_ops :: "('a \<Rightarrow> 'op \<Rightarrow> 'r \<times> 'a) \<Rightarrow> 'a \<Rightarrow> 'op list \<Rightarrow> 'r list \<times> 'a" where
  "spec_ops spec a [] = ([], a)"
| "spec_ops spec a (op # ops) =
     (let (r, a) = spec a op; (rs, a) = spec_ops spec a ops in (r # rs, a))"

fun allowed_ops :: "('a \<Rightarrow> 'op \<Rightarrow> 'r \<times> 'a) \<Rightarrow> ('a \<Rightarrow> 'op \<Rightarrow> bool) \<Rightarrow> 'a \<Rightarrow> 'op list \<Rightarrow> bool" where
  "allowed_ops spec allowed a [] \<longleftrightarrow> True"
| "allowed_ops spec allowed a (op # ops) \<longleftrightarrow> allowed a op \<and> allowed_ops spec allowed (snd (spec a op)) ops"

lemma run_ops_append:
  "run_ops step s (ops1 @ ops2) =
     bindR (run_ops step s ops1) (\<lambda>(rs1, s). bindR (run_ops step s ops2) (\<lambda>(rs2, s). Inr (rs1 @ rs2, s)))"
proof (induction ops1 arbitrary: s)
  case Nil
  show ?case by (cases "run_ops step s ops2") auto
next
  case (Cons op ops1)
  then show ?case by (auto simp: bindR_assoc case_prod_beta intro!: bindR_cong)
qed

locale refines =
  fixes step :: "'s \<Rightarrow> 'op \<Rightarrow> ('r \<times> 's) res"
    and spec :: "'a \<Rightarrow> 'op \<Rightarrow> 'r \<times> 'a"
    and rel :: "'s \<Rightarrow> 'a \<Rightarrow> bool"
    and allowed :: "'a \<Rightarrow> 'op \<Rightarrow> bool"
  assumes step_refines:
    "rel s a \<Longrightarrow> allowed a op \<Longrightarrow> \<exists>s'. step s op = Inr (fst (spec a op), s') \<and> rel s' (snd (spec a op))"
begin

lemma run_refines:
  "rel s a \<Longrightarrow> allowed_ops spec allowed a ops \<Longrightarrow>
     \<exists>s'. run_ops step s ops = Inr (fst (spec_ops spec a ops), s') \<and> rel s' (snd (spec_ops spec a ops))"
proof (induction ops arbitrary: s a)
  case (Cons op ops)
  from Cons.prems obtain s' where s': "step s op = Inr (fst (spec a op), s')" "rel s' (snd (spec a op))"
    using step_refines by force
  with Cons obtain s'' where "run_ops step s' ops = Inr (fst (spec_ops spec (snd (spec a op)) ops), s'')"
    "rel s'' (snd (spec_ops spec (snd (spec a op)) ops))" by force
  with s' show ?case by (simp add: case_prod_beta Let_def)
qed simp

end

end
