(* ===== verification/StrStream.thy ===== *)
theory StrStream
  imports Printf Simulation
begin

text \<open>
  \<open>src/src/share/dsStrstream.h\<close> and \<open>dsStrstream.cxx\<close>: the stream buffer in memory behind the
  messages of exceptions. A buffer owns one block (a dynamic stream) or works on the caller's
  array (a static one); its pointers are offsets into that block, and the put area is missing
  (null pointers) where the source never calls \<open>setp\<close>. The operations of the standard base class
  that the stream classes use (\<open>sputc\<close>, \<open>sgetc\<close>, \<open>sbumpc\<close>, \<open>sputbackc\<close>) are those of
  \<open>std::streambuf\<close>. Memory allocation succeeds; a copy of a static stream has the array it
  shares as its own copy.
\<close>

section \<open>State\<close>

abbreviation (input) DS_SEGMENT_SIZE :: nat where "DS_SEGMENT_SIZE \<equiv> 64"
abbreviation (input) DS_IO_FROZEN :: u64 where "DS_IO_FROZEN \<equiv> 1"
abbreviation (input) DS_IO_STATIC :: u64 where "DS_IO_STATIC \<equiv> 2"
abbreviation (input) DS_IO_CONSTANT :: u64 where "DS_IO_CONSTANT \<equiv> 4"
abbreviation (input) DS_IO_NOTMOVABLE :: u64 where "DS_IO_NOTMOVABLE \<equiv> 7"
abbreviation (input) DS_IO_EOF :: int where "DS_IO_EOF \<equiv> -1"
abbreviation (input) DS_IO_NOT_EOF :: int where "DS_IO_NOT_EOF \<equiv> 0"

record dsStrstreambuf =
  sb_flags :: u64
  sb_seg_size :: nat
  sb_overflow_cnt :: int
  sb_pos_n :: int
  sb_pbeg :: "int option"
  sb_mem :: bytes
  sb_eback :: int
  sb_gptr :: int
  sb_egptr :: int
  sb_put :: "(int \<times> int \<times> int) option"

text \<open>\<open>setg\<close>, \<open>setp\<close>, \<open>pbump\<close> and \<open>gbump\<close> of the base class.\<close>

definition setg :: "int \<Rightarrow> int \<Rightarrow> int \<Rightarrow> dsStrstreambuf \<Rightarrow> dsStrstreambuf" where
  "setg b g e sb = sb\<lparr>sb_eback := b, sb_gptr := g, sb_egptr := e\<rparr>"

definition setp :: "int \<Rightarrow> int \<Rightarrow> dsStrstreambuf \<Rightarrow> dsStrstreambuf" where
  "setp b e sb = sb\<lparr>sb_put := Some (b, b, e)\<rparr>"

definition pbump :: "int \<Rightarrow> dsStrstreambuf \<Rightarrow> dsStrstreambuf" where
  "pbump n sb = sb\<lparr>sb_put := map_option (\<lambda>(b, p, e). (b, p + n, e)) (sb_put sb)\<rparr>"

definition gbump :: "int \<Rightarrow> dsStrstreambuf \<Rightarrow> dsStrstreambuf" where
  "gbump n sb = sb\<lparr>sb_gptr := sb_gptr sb + n\<rparr>"

text \<open>A character of the block through a pointer.\<close>

definition byte_at :: "bytes \<Rightarrow> int \<Rightarrow> u8 res" where
  "byte_at m i = (if 0 \<le> i \<and> i < int (length m) then Inr (m ! nat i) else Inl MemFault)"

definition byte_put :: "bytes \<Rightarrow> int \<Rightarrow> u8 \<Rightarrow> bytes res" where
  "byte_put m i c = (if 0 \<le> i \<and> i < int (length m) then Inr (m[nat i := c]) else Inl MemFault)"

section \<open>Construction\<close>

definition sb_new :: "nat \<Rightarrow> dsStrstreambuf" where
  "sb_new n = \<lparr>sb_flags = 0, sb_seg_size = DS_SEGMENT_SIZE, sb_overflow_cnt = 0, sb_pos_n = int n, sb_pbeg = None,
     sb_mem = replicate (n + 1) 0, sb_eback = 0, sb_gptr = 0, sb_egptr = 0, sb_put = Some (0, 0, int n)\<rparr>"

text \<open>The static streams. \<open>size_t N = n\<close> is zero or positive as an unsigned number, so that a negative
  length is never replaced by \<open>INT_MAX\<close> but subtracted from the pointer.\<close>

definition static_length :: "bytes \<Rightarrow> int \<Rightarrow> int res" where
  "static_length arr n = (if n \<noteq> 0 then Inr n else bindR (cstr arr) (\<lambda>s. Inr (int (length s))))"

definition sb_static :: "bytes \<Rightarrow> int \<Rightarrow> int option \<Rightarrow> dsStrstreambuf res" where
  "sb_static arr n pbeg =
     bindR (static_length arr n) (\<lambda>N.
     let sb = \<lparr>sb_flags = DS_IO_STATIC, sb_seg_size = DS_SEGMENT_SIZE, sb_overflow_cnt = 0, sb_pos_n = N, sb_pbeg = pbeg,
          sb_mem = arr, sb_eback = 0, sb_gptr = 0, sb_egptr = 0, sb_put = None\<rparr> in
     case pbeg of
       Some b \<Rightarrow> Inr (setp b (b + N) (setg 0 0 b sb))
     | None \<Rightarrow> Inr (setg 0 0 N sb))"

definition sb_constant :: "bytes \<Rightarrow> int \<Rightarrow> dsStrstreambuf res" where
  "sb_constant arr n =
     bindR (static_length arr n) (\<lambda>N.
     Inr (setg 0 0 N \<lparr>sb_flags = DS_IO_STATIC OR DS_IO_CONSTANT, sb_seg_size = DS_SEGMENT_SIZE, sb_overflow_cnt = 0,
          sb_pos_n = N, sb_pbeg = None, sb_mem = arr, sb_eback = 0, sb_gptr = 0, sb_egptr = 0, sb_put = None\<rparr>))"

definition sb_freeze :: "bool \<Rightarrow> dsStrstreambuf \<Rightarrow> dsStrstreambuf" where
  "sb_freeze n sb = sb\<lparr>sb_flags := if n then sb_flags sb OR DS_IO_FROZEN else sb_flags sb AND NOT DS_IO_FROZEN\<rparr>"

definition sb_frozen :: "dsStrstreambuf \<Rightarrow> bool" where
  "sb_frozen sb \<longleftrightarrow> sb_flags sb AND DS_IO_FROZEN \<noteq> 0"

definition sb_is_static :: "dsStrstreambuf \<Rightarrow> bool" where
  "sb_is_static sb \<longleftrightarrow> sb_flags sb AND DS_IO_STATIC \<noteq> 0"

text \<open>The copy constructor: the read position of the copy is \<open>eback - gptr\<close> from its start, which is
  before the block as soon as something has been read. Without a put area all pointers are null.\<close>

definition sb_copy :: "dsStrstreambuf \<Rightarrow> dsStrstreambuf res" where
  "sb_copy src =
     (let back = sb_eback src - sb_gptr src;
          area = case sb_put src of None \<Rightarrow> (0, 0, 0) | Some put \<Rightarrow> put in
      case area of (pbase, pptr, epptr) \<Rightarrow>
      let ptr_size = epptr - pbase in
      if \<not> sb_is_static src then
        bindR (if pbase < 0 \<or> ptr_size < -1 then Inl MemFault else read_range (sb_mem src) (nat pbase) (nat (ptr_size + 1))) (\<lambda>m.
        Inr (sb_freeze False (pbump (pptr - pbase) (setg 0 back 0 (setp 0 ptr_size (src\<lparr>sb_mem := m\<rparr>))))))
      else
        Inr (sb_freeze False
          (case sb_put src of
             None \<Rightarrow> setg 0 back 0 (src\<lparr>sb_mem := []\<rparr>)
           | Some _ \<Rightarrow> pbump (pptr - pbase) (setg pbase (pbase + back) pbase (setp pbase (pbase + ptr_size) src)))))"

text \<open>The destructor: whether the block is freed.\<close>

definition sb_delete :: "dsStrstreambuf \<Rightarrow> bool" where
  "sb_delete sb \<longleftrightarrow> sb_put sb \<noteq> None \<and> \<not> sb_frozen sb \<and> \<not> sb_is_static sb"

definition sb_setseg :: "nat \<Rightarrow> dsStrstreambuf \<Rightarrow> dsStrstreambuf" where
  "sb_setseg n sb = sb\<lparr>sb_seg_size := n\<rparr>"

definition sb_clear :: "dsStrstreambuf \<Rightarrow> dsStrstreambuf" where
  "sb_clear sb =
     (if sb_frozen sb then sb
      else
        let sb = sb_setseg DS_SEGMENT_SIZE (sb\<lparr>sb_overflow_cnt := 0\<rparr>) in
        if \<not> sb_is_static sb then
          setg 0 0 0 (setp 0 (sb_pos_n sb) (sb\<lparr>sb_mem := replicate (nat (sb_pos_n sb) + 1) 0\<rparr>))
        else
          case sb_pbeg sb of
            Some b \<Rightarrow> setp b (b + sb_pos_n sb) (setg 0 0 b sb)
          | None \<Rightarrow> setg 0 0 (sb_pos_n sb) sb)"

definition sb_pcount :: "dsStrstreambuf \<Rightarrow> int" where
  "sb_pcount sb = (case sb_put sb of None \<Rightarrow> 0 | Some (b, p, e) \<Rightarrow> p - b)"

text \<open>\<open>str()\<close> is a pointer to the start of the get area, read here as the C string there.\<close>

definition sb_str :: "dsStrstreambuf \<Rightarrow> string res" where
  "sb_str sb = (if sb_eback sb < 0 then Inl MemFault else cstr (drop (nat (sb_eback sb)) (sb_mem sb)))"

section \<open>Overflow, underflow and putting back\<close>

definition sb_expand :: "dsStrstreambuf \<Rightarrow> dsStrstreambuf res" where
  "sb_expand sb =
     (case sb_put sb of
        Some (b, p, e) \<Rightarrow>
          if p = e \<and> sb_flags sb AND DS_IO_NOTMOVABLE = 0 \<and> sb_seg_size sb > 0 then
            let old_size = s32 (e - b);
                old_get_offset = s32 (sb_gptr sb - sb_eback sb);
                cnt = s32 (sb_overflow_cnt sb + 1);
                new_size = s32 (old_size + cnt * int (sb_seg_size sb)) in
            if old_size < 0 \<or> new_size < old_size \<or> b < 0 then Inl MemFault
            else
              bindR (read_range (sb_mem sb) (nat b) (nat old_size)) (\<lambda>old.
              Inr (setg 0 old_get_offset 0 (pbump old_size (setp 0 new_size
                (sb\<lparr>sb_overflow_cnt := cnt, sb_mem := old @ replicate (nat (new_size + 1 - old_size)) 0\<rparr>)))))
          else Inr sb
      | None \<Rightarrow> Inr sb)"

definition sb_overflow :: "dsStrstreambuf \<Rightarrow> int \<Rightarrow> (int \<times> dsStrstreambuf) res" where
  "sb_overflow sb ch =
     (if ch = DS_IO_EOF then Inr (DS_IO_NOT_EOF, sb)
      else
        bindR (sb_expand sb) (\<lambda>sb.
        case sb_put sb of
          Some (b, p, e) \<Rightarrow>
            if p \<noteq> e then
              bindR (byte_put (sb_mem sb) p (word_of_int ch)) (\<lambda>m.
              Inr (ch, pbump 1 (sb\<lparr>sb_mem := m\<rparr>)))
            else Inr (DS_IO_EOF, sb)
        | None \<Rightarrow> Inr (DS_IO_EOF, sb)))"

definition sb_underflow :: "dsStrstreambuf \<Rightarrow> (int \<times> dsStrstreambuf) res" where
  "sb_underflow sb =
     (let sb = (case sb_put sb of
                  Some (b, p, e) \<Rightarrow>
                    if sb_gptr sb = sb_egptr sb \<and> p > sb_egptr sb then setg (sb_eback sb) (sb_gptr sb) p sb else sb
                | None \<Rightarrow> sb) in
      if sb_gptr sb \<noteq> sb_egptr sb
      then bindR (byte_at (sb_mem sb) (sb_gptr sb)) (\<lambda>c. Inr (uint c, sb))
      else Inr (DS_IO_EOF, sb))"

definition sb_pbackfail :: "dsStrstreambuf \<Rightarrow> int \<Rightarrow> (int \<times> dsStrstreambuf) res" where
  "sb_pbackfail sb c =
     (if sb_gptr sb \<noteq> sb_eback sb then
        if c = DS_IO_EOF then Inr (DS_IO_NOT_EOF, gbump (-1) sb)
        else if sb_flags sb AND DS_IO_CONSTANT = 0 then
          let sb = gbump (-1) sb in
          bindR (byte_put (sb_mem sb) (sb_gptr sb) (word_of_int c)) (\<lambda>m. Inr (c, sb\<lparr>sb_mem := m\<rparr>))
        else Inr (DS_IO_EOF, sb)
      else Inr (DS_IO_EOF, sb))"

text \<open>The public operations of \<open>std::streambuf\<close>, by way of the virtual functions above.\<close>

definition sputc :: "dsStrstreambuf \<Rightarrow> u8 \<Rightarrow> (int \<times> dsStrstreambuf) res" where
  "sputc sb c =
     (case sb_put sb of
        Some (b, p, e) \<Rightarrow>
          if p < e then bindR (byte_put (sb_mem sb) p c) (\<lambda>m. Inr (uint c, pbump 1 (sb\<lparr>sb_mem := m\<rparr>)))
          else sb_overflow sb (uint c)
      | None \<Rightarrow> sb_overflow sb (uint c))"

definition sgetc :: "dsStrstreambuf \<Rightarrow> (int \<times> dsStrstreambuf) res" where
  "sgetc sb =
     (if sb_gptr sb < sb_egptr sb then bindR (byte_at (sb_mem sb) (sb_gptr sb)) (\<lambda>c. Inr (uint c, sb))
      else sb_underflow sb)"

definition sbumpc :: "dsStrstreambuf \<Rightarrow> (int \<times> dsStrstreambuf) res" where
  "sbumpc sb =
     (if sb_gptr sb < sb_egptr sb then bindR (byte_at (sb_mem sb) (sb_gptr sb)) (\<lambda>c. Inr (uint c, gbump 1 sb))
      else
        bindR (sb_underflow sb) (\<lambda>(r, sb).
        if r = DS_IO_EOF then Inr (r, sb)
        else bindR (byte_at (sb_mem sb) (sb_gptr sb)) (\<lambda>c. Inr (uint c, gbump 1 sb))))"

definition sputbackc :: "dsStrstreambuf \<Rightarrow> u8 \<Rightarrow> (int \<times> dsStrstreambuf) res" where
  "sputbackc sb c =
     (if sb_eback sb < sb_gptr sb then
        bindR (byte_at (sb_mem sb) (sb_gptr sb - 1)) (\<lambda>prev.
        if prev = c then Inr (uint c, gbump (-1) sb) else sb_pbackfail sb (uint c))
      else sb_pbackfail sb (uint c))"

definition sungetc :: "dsStrstreambuf \<Rightarrow> (int \<times> dsStrstreambuf) res" where
  "sungetc sb =
     (if sb_eback sb < sb_gptr sb then
        let sb = gbump (-1) sb in bindR (byte_at (sb_mem sb) (sb_gptr sb)) (\<lambda>c. Inr (uint c, sb))
      else sb_pbackfail sb DS_IO_EOF)"

section \<open>Seeking\<close>

datatype seekdir = Seek_beg | Seek_cur | Seek_end

definition seekhigh :: "dsStrstreambuf \<Rightarrow> int" where
  "seekhigh sb = (case sb_put sb of Some (b, p, e) \<Rightarrow> e | None \<Rightarrow> sb_egptr sb)"

definition seekoff_g :: "dsStrstreambuf \<Rightarrow> int \<Rightarrow> seekdir \<Rightarrow> (int \<times> dsStrstreambuf) res" where
  "seekoff_g sb offset dir =
     (let seeklow = sb_eback sb;
          newoff = (case dir of Seek_beg \<Rightarrow> 0 | Seek_cur \<Rightarrow> sb_gptr sb - seeklow | Seek_end \<Rightarrow> seekhigh sb - seeklow);
          offset = offset + newoff in
      if offset < 0 \<or> offset > seekhigh sb - seeklow then Inr (-1, sb)
      else if offset \<le> sb_egptr sb - seeklow then Inr (newoff, setg seeklow (seeklow + offset) (sb_egptr sb) sb)
      else bindR (deref (sb_put sb)) (\<lambda>(b, p, e).
        if offset \<le> p - seeklow then Inr (newoff, setg seeklow (seeklow + offset) p sb)
        else Inr (newoff, setg seeklow (seeklow + offset) e sb)))"

definition seekoff_p :: "dsStrstreambuf \<Rightarrow> int \<Rightarrow> seekdir \<Rightarrow> (int \<times> dsStrstreambuf) res" where
  "seekoff_p sb offset dir =
     (let seeklow = sb_eback sb in
      bindR (if dir = Seek_beg then Inr 0 else bindR (deref (sb_put sb)) (\<lambda>(pbase, pptr, epptr). Inr (pptr - seeklow))) (\<lambda>newoff.
      let offset = offset + newoff in
      if offset < 0 \<or> offset > seekhigh sb - seeklow then Inr (-1, sb)
      else bindR (deref (sb_put sb)) (\<lambda>(pbase, pptr, epptr).
        if seeklow + offset < pbase then Inr (newoff, pbump offset (setp seeklow epptr sb))
        else Inr (newoff, pbump (offset - (pbase - seeklow)) (setp pbase epptr sb)))))"

definition seekoff :: "dsStrstreambuf \<Rightarrow> int \<Rightarrow> seekdir \<Rightarrow> bool \<Rightarrow> bool \<Rightarrow> (int \<times> dsStrstreambuf) res" where
  "seekoff sb offset dir mode_in mode_out =
     bindR (if mode_in \<and> sb_put sb \<noteq> None then seekoff_g sb offset dir else Inr (-1, sb)) (\<lambda>(newoff, sb).
     if mode_out then seekoff_p sb offset dir else Inr (newoff, sb))"

definition seekpos :: "dsStrstreambuf \<Rightarrow> int \<Rightarrow> bool \<Rightarrow> bool \<Rightarrow> (int \<times> dsStrstreambuf) res" where
  "seekpos sb offset mode_in mode_out = seekoff sb offset Seek_beg mode_in mode_out"

section \<open>The stream class\<close>

text \<open>\<open>dsStrstream\<close> is its buffer; \<open>clear\<close>, \<open>str\<close>, \<open>freeze\<close> and \<open>pcount\<close> pass through to it.\<close>

definition dsStrstream_new :: dsStrstreambuf where
  "dsStrstream_new = sb_new DS_SEGMENT_SIZE"

definition dsStrstream_static :: "bytes \<Rightarrow> int \<Rightarrow> bool \<Rightarrow> dsStrstreambuf res" where
  "dsStrstream_static arr n app =
     bindR (if app then bindR (cstr arr) (\<lambda>s. Inr (int (length s))) else Inr 0) (\<lambda>b. sb_static arr n (Some b))"

section \<open>Streams as text and read position\<close>

text \<open>A growing stream: one block with its terminator, the increment within the size so far.\<close>

definition sb_growing :: "dsStrstreambuf \<Rightarrow> bool" where
  "sb_growing sb \<longleftrightarrow> sb_flags sb = 0 \<and> sb_eback sb = 0 \<and> 0 < sb_seg_size sb \<and> sb_seg_size sb < 2 ^ 29 \<and> 0 \<le> sb_overflow_cnt sb
     \<and> (\<exists>p e. sb_put sb = Some (0, int p, int e) \<and> p \<le> e \<and> length (sb_mem sb) = e + 1
          \<and> (\<forall>i. p \<le> i \<and> i \<le> e \<longrightarrow> sb_mem sb ! i = 0)
          \<and> sb_overflow_cnt sb * int (sb_seg_size sb) \<le> int e)"

lemma sb_growingI:
  "sb_put sb = Some (0, int p, int e) \<Longrightarrow> p \<le> e \<Longrightarrow> length (sb_mem sb) = e + 1 \<Longrightarrow>
    (\<And>i. p \<le> i \<Longrightarrow> i \<le> e \<Longrightarrow> sb_mem sb ! i = 0) \<Longrightarrow> sb_overflow_cnt sb * int (sb_seg_size sb) \<le> int e \<Longrightarrow>
    sb_flags sb = 0 \<Longrightarrow> sb_eback sb = 0 \<Longrightarrow> 0 < sb_seg_size sb \<Longrightarrow> sb_seg_size sb < 2 ^ 29 \<Longrightarrow> 0 \<le> sb_overflow_cnt sb \<Longrightarrow>
    sb_growing sb"
  by (auto simp: sb_growing_def)

definition sb_capacity :: "dsStrstreambuf \<Rightarrow> nat" where
  "sb_capacity sb = length (sb_mem sb) - 1"

text \<open>The text written so far and how much of it was read.\<close>

definition sb_holds :: "dsStrstreambuf \<Rightarrow> bytes \<Rightarrow> nat \<Rightarrow> bool" where
  "sb_holds sb text k \<longleftrightarrow> sb_growing sb \<and> sb_pcount sb = int (length text) \<and> take (length text) (sb_mem sb) = text
     \<and> sb_gptr sb = int k \<and> int k \<le> sb_egptr sb \<and> sb_egptr sb \<le> int (length text)"

lemmas area_defs = setg_def setp_def pbump_def gbump_def

lemma sb_new_holds: "n < 2 ^ 29 \<Longrightarrow> sb_holds (sb_new n) [] 0 \<and> sb_capacity (sb_new n) = n"
  by (auto simp: sb_holds_def sb_growing_def sb_new_def sb_pcount_def sb_capacity_def nth_append simp del: replicate_Suc)

lemma sb_holds_put:
  assumes "sb_holds sb text k"
  obtains e where "sb_put sb = Some (0, int (length text), int e)" "length text \<le> e" "length (sb_mem sb) = e + 1"
    "\<forall>i. length text \<le> i \<and> i \<le> e \<longrightarrow> sb_mem sb ! i = 0" "sb_overflow_cnt sb * int (sb_seg_size sb) \<le> int e" "sb_capacity sb = e"
proof -
  from assms obtain p e where *: "sb_put sb = Some (0, int p, int e)" "p \<le> e" "length (sb_mem sb) = e + 1"
    "\<forall>i. p \<le> i \<and> i \<le> e \<longrightarrow> sb_mem sb ! i = 0" "sb_overflow_cnt sb * int (sb_seg_size sb) \<le> int e"
    by (auto simp: sb_holds_def sb_growing_def)
  moreover from assms *(1) have "p = length text" by (simp add: sb_holds_def sb_pcount_def)
  ultimately show thesis using that by (auto simp: sb_capacity_def)
qed

text \<open>Writing inside the block.\<close>

lemma sputc_room:
  assumes "sb_holds sb text k" and "length text < sb_capacity sb"
  shows "\<exists>sb'. sputc sb c = Inr (uint c, sb') \<and> sb_holds sb' (text @ [c]) k \<and> sb_capacity sb' = sb_capacity sb"
proof -
  from assms(1) obtain e where e: "sb_put sb = Some (0, int (length text), int e)" "length text \<le> e" "length (sb_mem sb) = e + 1"
    "\<forall>i. length text \<le> i \<and> i \<le> e \<longrightarrow> sb_mem sb ! i = 0" "sb_overflow_cnt sb * int (sb_seg_size sb) \<le> int e" "sb_capacity sb = e"
    by (rule sb_holds_put)
  let ?m = "(sb_mem sb)[length text := c]"
  have written: "take (length text) (sb_mem sb) = text" using assms(1) by (simp add: sb_holds_def)
  have "take (Suc (length text)) ?m = text @ [c]"
    using e(2,3) assms(2) written by (simp add: take_Suc_conv_app_nth e(6))
  moreover let ?sb = "pbump 1 (sb\<lparr>sb_mem := ?m\<rparr>)"
  have "sputc sb c = Inr (uint c, ?sb)" using e assms(2) by (simp add: sputc_def byte_put_def)
  moreover have "sb_growing ?sb"
    using assms e
    by (intro sb_growingI [where p = "Suc (length text)" and e = e]) (auto simp: area_defs nth_list_update sb_holds_def sb_growing_def)
  ultimately show ?thesis
    using assms e by (intro exI [of _ ?sb]) (auto simp: area_defs sb_holds_def sb_pcount_def sb_capacity_def)
qed

text \<open>Writing at the end of the block makes it grow by one more increment than the last time. The end
  of the get area is moved to the start, whatever has been read.\<close>

definition sb_grown :: "dsStrstreambuf \<Rightarrow> bytes \<Rightarrow> nat \<Rightarrow> nat \<Rightarrow> dsStrstreambuf" where
  "sb_grown sb t k d = sb\<lparr>sb_overflow_cnt := sb_overflow_cnt sb + 1, sb_mem := t @ replicate (d + 1) 0,
     sb_eback := 0, sb_gptr := int k, sb_egptr := 0, sb_put := Some (0, int (length t), int (length t + d))\<rparr>"

lemma sb_expand_grown:
  assumes "sb_holds sb t k" and "length t = sb_capacity sb" and "length t < 2 ^ 29"
  defines "d \<equiv> nat ((sb_overflow_cnt sb + 1) * int (sb_seg_size sb))"
  shows "sb_expand sb = Inr (sb_grown sb t k d)" and "0 < d" and "int d = (sb_overflow_cnt sb + 1) * int (sb_seg_size sb)"
proof -
  from assms(1) obtain e where e: "sb_put sb = Some (0, int (length t), int e)" "length (sb_mem sb) = e + 1"
    "sb_overflow_cnt sb * int (sb_seg_size sb) \<le> int e" "sb_capacity sb = e" by (rule sb_holds_put)
  from assms(1) have h: "sb_flags sb = 0" "sb_eback sb = 0" "0 < sb_seg_size sb" "sb_seg_size sb < 2 ^ 29" "0 \<le> sb_overflow_cnt sb"
    "take (length t) (sb_mem sb) = t" "sb_gptr sb = int k" "k \<le> length t"
    by (auto simp: sb_holds_def sb_growing_def)
  let ?cnt = "sb_overflow_cnt sb + 1" and ?seg = "int (sb_seg_size sb)"
  have le: "e = length t" using e(4) assms(2) by simp
  have "sb_overflow_cnt sb \<le> sb_overflow_cnt sb * ?seg" using h(3,5) by (simp add: mult_le_cancel_left1)
  then have cnt: "?cnt \<le> int e + 1" using e(3) by simp
  have prod: "?cnt * ?seg = sb_overflow_cnt sb * ?seg + ?seg" by (simp add: distrib_right)
  have "0 \<le> sb_overflow_cnt sb * ?seg" using h(5) by simp
  moreover have "0 < ?seg" "?seg < 536870912" "int e < 536870912" using h(3,4) le assms(3) by simp_all
  ultimately have new: "0 < ?cnt * ?seg" "int e + ?cnt * ?seg < 2147483648" "?cnt < 2147483648"
    using prod e(3) cnt by linarith+
  show d: "int d = ?cnt * ?seg" "0 < d" using new(1) by (simp_all add: d_def)
  have s: "s32 (int e) = int e" "s32 (int k) = int k" "s32 ?cnt = ?cnt" "s32 (int e + int d) = int e + int d"
    using new le assms(3) h(5,8) d by simp_all
  have mem: "take e (sb_mem sb) = t" using h(6) le by simp
  have "nat (int e + int d + 1 - int e) = d + 1" by simp
  then show "sb_expand sb = Inr (sb_grown sb t k d)"
    using e(1,2) h(1-3,7) le mem s d(2) by (simp add: sb_expand_def sb_grown_def Let_def area_defs d(1) [symmetric] del: replicate_Suc)
qed

lemma sb_grown_holds:
  assumes "sb_holds sb t 0" and "int d = (sb_overflow_cnt sb + 1) * int (sb_seg_size sb)"
  shows "sb_holds (sb_grown sb t 0 d) t 0" and "sb_capacity (sb_grown sb t 0 d) = length t + d"
proof -
  have "sb_growing (sb_grown sb t 0 d)"
  proof (rule sb_growingI [where p = "length t" and e = "length t + d"])
    show "sb_overflow_cnt (sb_grown sb t 0 d) * int (sb_seg_size (sb_grown sb t 0 d)) \<le> int (length t + d)"
      using assms(2) by (simp add: sb_grown_def)
  qed (use assms(1) in \<open>auto simp: sb_grown_def sb_holds_def sb_growing_def nth_append simp del: replicate_Suc\<close>)
  with assms(1) show "sb_holds (sb_grown sb t 0 d) t 0"
    by (simp add: sb_holds_def sb_pcount_def sb_grown_def)
qed (simp add: sb_grown_def sb_capacity_def)

lemma sputc_holds:
  assumes "sb_holds sb text k" and "length text < sb_capacity sb \<or> k = 0" and "length text < 2 ^ 29"
  shows "\<exists>sb'. sputc sb c = Inr (uint c, sb') \<and> sb_holds sb' (text @ [c]) k \<and> sb_capacity sb \<le> sb_capacity sb'
    \<and> (length text < sb_capacity sb \<longrightarrow> sb_capacity sb' = sb_capacity sb)"
proof (cases "length text < sb_capacity sb")
  case True
  with sputc_room [OF assms(1)] show ?thesis by fastforce
next
  case False
  then have k: "k = 0" using assms(2) by simp
  from assms(1) obtain e where e: "sb_put sb = Some (0, int (length text), int e)" "length text \<le> e" "sb_capacity sb = e"
    by (rule sb_holds_put)
  with False have full: "length text = sb_capacity sb" by simp
  obtain sb' where sb': "sb_expand sb = Inr sb'" "sb_holds sb' text 0" "length text < sb_capacity sb'"
    using sb_expand_grown [OF assms(1) [unfolded k] full assms(3)] sb_grown_holds [OF assms(1) [unfolded k]] by force
  from sputc_room [OF sb'(2,3), of c] obtain sb'' where
    sb'': "sputc sb' c = Inr (uint c, sb'')" "sb_holds sb'' (text @ [c]) 0" "sb_capacity sb'' = sb_capacity sb'" by blast
  from sb'(2) obtain e' where e': "sb_put sb' = Some (0, int (length text), int e')" "sb_capacity sb' = e'"
    by (rule sb_holds_put)
  have "uint c \<noteq> -1" using uint_ge_0 [of c] by linarith
  then have "sputc sb c = sputc sb' c"
    using e False full e' sb' by (simp add: sputc_def sb_overflow_def)
  with sb'' sb'(3) full k show ?thesis by auto
qed

text \<open>Reading: the next character of the text, or the end.\<close>

lemma sb_holds_get:
  assumes "sb_holds sb text k" and "k < length text"
  shows "byte_at (sb_mem sb) (int k) = Inr (text ! k)"
proof -
  from assms(1) obtain e where e: "length text \<le> e" "length (sb_mem sb) = e + 1" by (rule sb_holds_put)
  have "text ! k = take (length text) (sb_mem sb) ! k" using assms by (simp add: sb_holds_def)
  with assms(2) e show ?thesis by (simp add: byte_at_def)
qed

lemma sb_underflow_holds:
  assumes "sb_holds sb text k" and "sb_egptr sb = int k"
  shows "\<exists>sb'. sb_holds sb' text k \<and> sb_capacity sb' = sb_capacity sb \<and> sb_gptr sb' = int k \<and>
    (k < length text \<longrightarrow> sb_egptr sb' = int (length text)) \<and> sb_underflow sb = Inr (if k < length text then uint (text ! k) else DS_IO_EOF, sb')"
proof -
  from assms(1) obtain e where e: "sb_put sb = Some (0, int (length text), int e)" "length text \<le> e"
    by (rule sb_holds_put)
  let ?sb = "setg (sb_eback sb) (sb_gptr sb) (int (length text)) sb"
  have g: "sb_gptr sb = int k" using assms(1) by (simp add: sb_holds_def)
  show ?thesis
  proof (cases "k < length text")
    case True
    have "sb_holds ?sb text k" using assms True by (auto simp: sb_holds_def sb_growing_def area_defs sb_pcount_def)
    moreover have "sb_underflow sb = Inr (uint (text ! k), ?sb)"
      using e g assms(2) True sb_holds_get [OF assms(1) True] by (simp add: sb_underflow_def area_defs)
    moreover have "sb_capacity ?sb = sb_capacity sb" "sb_gptr ?sb = int k" "sb_egptr ?sb = int (length text)" using g by (simp_all add: sb_capacity_def area_defs)
    ultimately show ?thesis using True by (intro exI [of _ ?sb]) simp
  next
    case False
    have "int (length text) \<le> int k" using False by simp
    then have "sb_underflow sb = Inr (DS_IO_EOF, sb)" using e g assms(2) by (simp add: sb_underflow_def)
    with assms(1) g False show ?thesis by auto
  qed
qed

section \<open>Reading and writing refine a text with a read position\<close>

datatype stream_op = Put u8 | Get | Peek | Unget

definition stream_step :: "dsStrstreambuf \<Rightarrow> stream_op \<Rightarrow> (int \<times> dsStrstreambuf) res" where
  "stream_step sb op = (case op of Put c \<Rightarrow> sputc sb c | Get \<Rightarrow> sbumpc sb | Peek \<Rightarrow> sgetc sb | Unget \<Rightarrow> sungetc sb)"

lemma stream_step_simps [simp]:
  "stream_step sb (Put c) = sputc sb c" "stream_step sb Get = sbumpc sb"
  "stream_step sb Peek = sgetc sb" "stream_step sb Unget = sungetc sb"
  by (simp_all add: stream_step_def)

fun text_step :: "bytes \<times> nat \<Rightarrow> stream_op \<Rightarrow> int \<times> (bytes \<times> nat)" where
  "text_step (t, k) (Put c) = (uint c, (t @ [c], k))"
| "text_step (t, k) Get = (if k < length t then (uint (t ! k), (t, k + 1)) else (-1, (t, k)))"
| "text_step (t, k) Peek = (if k < length t then uint (t ! k) else -1, (t, k))"
| "text_step (t, k) Unget = (if 0 < k then (uint (t ! (k - 1)), (t, k - 1)) else (-1, (t, k)))"

text \<open>Beyond the initial size a character is written only while nothing has been read.\<close>

fun growth_unread :: "nat \<Rightarrow> bytes \<times> nat \<Rightarrow> stream_op \<Rightarrow> bool" where
  "growth_unread n (t, k) (Put c) \<longleftrightarrow> length t < 2 ^ 29 \<and> (length t < n \<or> k = 0)"
| "growth_unread n (t, k) _ \<longleftrightarrow> True"

definition stream_rel :: "nat \<Rightarrow> dsStrstreambuf \<Rightarrow> bytes \<times> nat \<Rightarrow> bool" where
  "stream_rel n sb a \<longleftrightarrow>
     sb_holds sb (fst a) (snd a) \<and> n \<le> sb_capacity sb \<and> (length (fst a) \<le> n \<longrightarrow> sb_capacity sb = n)"

lemma sb_holds_gptr:
  "sb_holds sb t k \<Longrightarrow> int k' \<le> sb_egptr sb \<Longrightarrow> sb_holds (sb\<lparr>sb_gptr := int k'\<rparr>) t k'"
  by (auto simp: sb_holds_def sb_growing_def sb_pcount_def)

lemma sb_holds_gbump:
  assumes "sb_holds sb t k" and "int k + d = int k'" and "int k' \<le> sb_egptr sb"
  shows "sb_holds (gbump d sb) t k'" and "sb_capacity (gbump d sb) = sb_capacity sb" and "sb_mem (gbump d sb) = sb_mem sb"
  using sb_holds_gptr [OF assms(1,3)] assms by (auto simp: gbump_def sb_holds_def sb_capacity_def)

lemma sbumpc_holds:
  assumes "sb_holds sb t k"
  shows "\<exists>sb'. sb_capacity sb' = sb_capacity sb \<and>
    (if k < length t then sbumpc sb = Inr (uint (t ! k), sb') \<and> sb_holds sb' t (k + 1) else sbumpc sb = Inr (-1, sb') \<and> sb_holds sb' t k)"
proof -
  have g: "sb_gptr sb = int k" "int k \<le> sb_egptr sb" "sb_egptr sb \<le> int (length t)" using assms by (auto simp: sb_holds_def)
  show ?thesis
  proof (cases "int k < sb_egptr sb")
    case True
    then have k: "k < length t" using g by simp
    with True g sb_holds_get [OF assms k] sb_holds_gbump [OF assms, of 1 "k + 1"] show ?thesis by (auto simp: sbumpc_def)
  next
    case False
    then have eg: "sb_egptr sb = int k" using g by simp
    from sb_underflow_holds [OF assms eg] obtain sb' where sb': "sb_holds sb' t k" "sb_capacity sb' = sb_capacity sb" "sb_gptr sb' = int k"
      "k < length t \<Longrightarrow> sb_egptr sb' = int (length t)"
      "sb_underflow sb = Inr (if k < length t then uint (t ! k) else -1, sb')" by blast
    show ?thesis
    proof (cases "k < length t")
      case True
      have "uint (t ! k) \<noteq> -1" using uint_ge_0 [of "t ! k"] by linarith
      with True sb' g eg sb_holds_get [OF sb'(1) True] sb_holds_gbump [OF sb'(1), of 1 "k + 1"] show ?thesis
        by (auto simp: sbumpc_def)
    qed (use sb' g eg in \<open>auto simp: sbumpc_def\<close>)
  qed
qed

lemma sgetc_holds:
  assumes "sb_holds sb t k"
  shows "\<exists>sb'. sb_capacity sb' = sb_capacity sb \<and> sb_holds sb' t k \<and> sgetc sb = Inr (if k < length t then uint (t ! k) else -1, sb')"
proof -
  have g: "sb_gptr sb = int k" "int k \<le> sb_egptr sb" "sb_egptr sb \<le> int (length t)" using assms by (auto simp: sb_holds_def)
  show ?thesis
  proof (cases "int k < sb_egptr sb")
    case True
    then have "k < length t" using g by simp
    with True g assms sb_holds_get [OF assms] show ?thesis by (simp add: sgetc_def)
  next
    case False
    then have eg: "sb_egptr sb = int k" using g by simp
    from sb_underflow_holds [OF assms eg] False g show ?thesis by (auto simp: sgetc_def)
  qed
qed

lemma sungetc_holds:
  assumes "sb_holds sb t k"
  shows "\<exists>sb'. sb_capacity sb' = sb_capacity sb \<and>
    (if 0 < k then sungetc sb = Inr (uint (t ! (k - 1)), sb') \<and> sb_holds sb' t (k - 1) else sungetc sb = Inr (-1, sb') \<and> sb_holds sb' t k)"
proof -
  have g: "sb_gptr sb = int k" "int k \<le> sb_egptr sb" "sb_egptr sb \<le> int (length t)" "sb_eback sb = 0"
    using assms by (auto simp: sb_holds_def sb_growing_def)
  show ?thesis
  proof (cases "0 < k")
    case True
    then have k: "int k + - 1 = int (k - 1)" "int (k - 1) \<le> sb_egptr sb" "k - 1 < length t" using g by auto
    note sb' = sb_holds_gbump [OF assms k(1,2)]
    have "byte_at (sb_mem sb) (int (k - 1)) = Inr (t ! (k - 1))"
      using sb_holds_get [OF sb'(1) k(3)] unfolding sb'(3) .
    moreover have "sb_gptr (gbump (- 1) sb) = int k + - 1" using g(1) by (simp add: gbump_def)
    ultimately have "sungetc sb = Inr (uint (t ! (k - 1)), gbump (- 1) sb)"
      using True g sb'(3) unfolding k(1) by (simp add: sungetc_def del: of_nat_diff)
    with sb' True show ?thesis by auto
  next
    case False
    with g assms show ?thesis by (auto simp: sungetc_def sb_pbackfail_def)
  qed
qed

lemma stream_step_refines:
  assumes "stream_rel n sb a" and "growth_unread n a op"
  shows "\<exists>sb'. stream_step sb op = Inr (fst (text_step a op), sb') \<and> stream_rel n sb' (snd (text_step a op))"
proof -
  obtain t k where a: "a = (t, k)" by fastforce
  have h: "sb_holds sb t k" "n \<le> sb_capacity sb" "length t \<le> n \<Longrightarrow> sb_capacity sb = n"
    using assms(1) a by (simp_all add: stream_rel_def)
  show ?thesis
  proof (cases op)
    case (Put c)
    with assms(2) a h(2) have "length t < sb_capacity sb \<or> k = 0" "length t < 2 ^ 29" by auto
    from sputc_holds [OF h(1) this, of c] obtain sb' where
      "sputc sb c = Inr (uint c, sb')" "sb_holds sb' (t @ [c]) k" "sb_capacity sb \<le> sb_capacity sb'"
      "length t < sb_capacity sb \<Longrightarrow> sb_capacity sb' = sb_capacity sb" by blast
    with h a Put show ?thesis by (simp add: stream_rel_def)
  next
    case Get
    from sbumpc_holds [OF h(1)] obtain sb' where "sb_capacity sb' = sb_capacity sb"
      "if k < length t then sbumpc sb = Inr (uint (t ! k), sb') \<and> sb_holds sb' t (k + 1) else sbumpc sb = Inr (-1, sb') \<and> sb_holds sb' t k"
      by blast
    with h a Get show ?thesis by (cases "k < length t") (simp_all add: stream_rel_def)
  next
    case Peek
    from sgetc_holds [OF h(1)] obtain sb' where "sb_capacity sb' = sb_capacity sb" "sb_holds sb' t k"
      "sgetc sb = Inr (if k < length t then uint (t ! k) else -1, sb')" by blast
    with h a Peek show ?thesis by (simp add: stream_rel_def)
  next
    case Unget
    from sungetc_holds [OF h(1)] obtain sb' where "sb_capacity sb' = sb_capacity sb"
      "if 0 < k then sungetc sb = Inr (uint (t ! (k - 1)), sb') \<and> sb_holds sb' t (k - 1) else sungetc sb = Inr (-1, sb') \<and> sb_holds sb' t k"
      by blast
    with h a Unget show ?thesis by (cases "0 < k") (simp_all add: stream_rel_def)
  qed
qed

interpretation stream: refines stream_step text_step "stream_rel n" "growth_unread n" for n
  by unfold_locales (rule stream_step_refines)

text \<open>\<open>str()\<close> is the text up to its first NUL.\<close>

lemma cstr_takeWhile:
  "0 \<in> set m \<Longrightarrow> cstr m = Inr (map char_of_byte (takeWhile (\<lambda>b. b \<noteq> 0) m))"
  by (induction m) auto

lemma sb_str_holds:
  assumes "sb_holds sb t k"
  shows "sb_str sb = Inr (map char_of_byte (takeWhile (\<lambda>b. b \<noteq> 0) t))"
proof -
  from assms obtain e where e: "length t \<le> e" "length (sb_mem sb) = e + 1"
    "\<forall>i. length t \<le> i \<and> i \<le> e \<longrightarrow> sb_mem sb ! i = 0" by (rule sb_holds_put)
  have t: "take (length t) (sb_mem sb) = t" "sb_eback sb = 0" using assms by (auto simp: sb_holds_def sb_growing_def)
  have "length t < length (sb_mem sb)" using e by simp
  then have "sb_mem sb = t @ sb_mem sb ! length t # drop (Suc (length t)) (sb_mem sb)"
    using t(1) by (metis id_take_nth_drop)
  moreover have "sb_mem sb ! length t = 0" using e by simp
  ultimately obtain rest where m: "sb_mem sb = t @ 0 # rest" by metis
  have "takeWhile (\<lambda>b. b \<noteq> 0) (t @ 0 # rest) = takeWhile (\<lambda>b. b \<noteq> 0) t" by (induction t) auto
  then show ?thesis using t(2) cstr_takeWhile [of "t @ 0 # rest"] by (simp add: sb_str_def m)
qed


text \<open>C31 A stream of initial size \<open>n\<close> is a text with a read position: for every sequence of writes,
  reads, peeks and puttings back in which nothing has been read before the stream grows beyond \<open>n\<close>,
  the results are those of the text, \<open>pcount\<close> is its length and \<open>str\<close> is the text up to its first
  NUL.\<close>

theorem strstream_refines_text:
  assumes "n < 2 ^ 29" and "allowed_ops text_step (growth_unread n) ([], 0) ops"
  shows "\<exists>sb. run_ops stream_step (sb_new n) ops = Inr (fst (spec_ops text_step ([], 0) ops), sb)
    \<and> (let t = fst (snd (spec_ops text_step ([], 0) ops)) in
        sb_pcount sb = int (length t) \<and> sb_str sb = Inr (map char_of_byte (takeWhile (\<lambda>b. b \<noteq> 0) t)))"
proof -
  have "stream_rel n (sb_new n) ([], 0)" using sb_new_holds [OF assms(1)] by (simp add: stream_rel_def)
  from stream.run_refines [OF this assms(2)] obtain sb where
    "run_ops stream_step (sb_new n) ops = Inr (fst (spec_ops text_step ([], 0) ops), sb)"
    "sb_holds sb (fst (snd (spec_ops text_step ([], 0) ops))) (snd (snd (spec_ops text_step ([], 0) ops)))"
    by (auto simp: stream_rel_def)
  then show ?thesis using sb_str_holds by (auto simp: sb_holds_def Let_def)
qed

theorem strstream_refines_text_witness:
  "\<exists>sb. run_ops stream_step (sb_new 2) [Put 65, Put 66, Put 67, Peek, Get, Get, Unget, Get, Get, Get]
     = Inr ([65, 66, 67, 65, 65, 66, 66, 66, 67, -1], sb) \<and> sb_str sb = Inr ''ABC''"
proof -
  let ?ops = "[Put 65, Put 66, Put 67, Peek, Get, Get, Unget, Get, Get, Get]"
  have spec: "spec_ops text_step ([], 0) ?ops = ([65, 66, 67, 65, 65, 66, 66, 66, 67, -1], ([65, 66, 67], 3))"
    by simp
  have abc: "map char_of_byte [65, 66, 67] = ''ABC''" by code_simp
  have "allowed_ops text_step (growth_unread 2) ([], 0) ?ops" by simp
  from strstream_refines_text [OF _ this] show ?thesis
    unfolding spec using abc by (auto simp: Let_def)
qed

section \<open>Growth after reading\<close>

lemma sbumpc_past_end:
  assumes "sb_egptr sb < sb_gptr sb"
  shows "sbumpc sb = bindR (byte_at (sb_mem sb) (sb_gptr sb)) (\<lambda>c. Inr (uint c, gbump 1 sb))"
proof -
  have "uint c \<noteq> -1" for c :: u8 using uint_ge_0 [of c] by linarith
  then show ?thesis using assms by (auto simp: sbumpc_def sb_underflow_def bindR_assoc split: option.split intro!: bindR_cong)
qed

lemma gets_past_end:
  assumes "sb_egptr sb < int k" and "sb_gptr sb = int k"
  shows "run_ops stream_step sb (replicate m Get) =
    (if m = 0 \<or> k + m \<le> length (sb_mem sb) then Inr (map uint (take m (drop k (sb_mem sb))), gbump (int m) sb) else Inl MemFault)"
  using assms
proof (induction m arbitrary: k sb)
  case (Suc m)
  show ?case
  proof (cases "k < length (sb_mem sb)")
    case True
    have "run_ops stream_step (gbump 1 sb) (replicate m Get) =
        (if m = 0 \<or> Suc k + m \<le> length (sb_mem sb) then Inr (map uint (take m (drop (Suc k) (sb_mem sb))), gbump (int m) (gbump 1 sb)) else Inl MemFault)"
      using Suc.IH [of "gbump 1 sb" "Suc k"] Suc.prems by (simp add: gbump_def)
    with True Suc.prems show ?thesis
      by (auto simp: sbumpc_past_end byte_at_def gbump_def Cons_nth_drop_Suc [symmetric])
  next
    case False
    with Suc.prems show ?thesis by (simp add: sbumpc_past_end byte_at_def)
  qed
qed (simp add: gbump_def)

lemma puts_then_gets:
  assumes "length t + length xs \<le> n" and "n < 2 ^ 29" and "k + m \<le> length t + length xs"
  shows "allowed_ops text_step (growth_unread n) (t, k) (map Put xs @ replicate m Get)
    \<and> snd (spec_ops text_step (t, k) (map Put xs @ replicate m Get)) = (t @ xs, k + m)
    \<and> fst (spec_ops text_step (t, k) (map Put xs @ replicate m Get)) = map uint (xs @ take m (drop k (t @ xs)))"
  using assms
proof (induction xs arbitrary: t)
  case Nil
  then show ?case
  proof (induction m arbitrary: k)
    case (Suc m)
    then show ?case using Suc.IH [of "k + 1"] by (simp add: case_prod_beta Cons_nth_drop_Suc [symmetric])
  qed simp
next
  case (Cons c xs)
  then show ?case using Cons.IH [of "t @ [c]"] by (simp add: case_prod_beta)
qed

lemma sputc_grown:
  assumes "sb_holds sb t k" and "length t = sb_capacity sb" and "length t < 2 ^ 29"
  obtains sb' d where "sputc sb c = Inr (uint c, sb')" and "sb_gptr sb' = int k" and "sb_egptr sb' = 0" and "0 < d"
    and "sb_mem sb' = (t @ [c]) @ replicate d 0" and "int d = (sb_overflow_cnt sb + 1) * int (sb_seg_size sb)"
proof -
  define d where "d = nat ((sb_overflow_cnt sb + 1) * int (sb_seg_size sb))"
  note grown = sb_expand_grown [OF assms, folded d_def]
  from assms(1) obtain e where e: "sb_put sb = Some (0, int (length t), int e)" "sb_capacity sb = e" by (rule sb_holds_put)
  have "uint c \<noteq> -1" using uint_ge_0 [of c] by linarith
  moreover have "(t @ replicate (d + 1) 0) [length t := c] = (t @ [c]) @ replicate d 0" by (simp add: list_update_append)
  ultimately have "sputc sb c = Inr (uint c, pbump 1 ((sb_grown sb t k d)\<lparr>sb_mem := (t @ [c]) @ replicate d 0\<rparr>))"
    using e assms(2) grown(1,2) by (simp add: sputc_def sb_overflow_def sb_grown_def byte_put_def del: replicate_Suc)
  then show thesis using grown(2,3) by (intro that) (auto simp: pbump_def sb_grown_def)
qed

text \<open>CX When a full stream of which something has been read grows, the end of its get area is set to the
  start of the block: reading then returns the rest of the text, after it the zero bytes of the
  free space without ever reporting the end, and finally leaves the block.\<close>

theorem strstream_growth_loses_end:
  assumes "length xs = n" and "0 < k" and "k \<le> n" and "n < 2 ^ 29"
  shows "\<exists>d sb. 0 < d \<and> (\<forall>m. run_ops stream_step (sb_new n) (map Put xs @ replicate k Get @ [Put c] @ replicate m Get) =
    (if m \<le> n + 1 - k + d
     then Inr (map uint (xs @ take k xs @ [c] @ take m (drop k (xs @ [c] @ replicate d 0))), sb m)
     else Inl MemFault))"
proof -
  have rel: "stream_rel n (sb_new n) ([], 0)" using sb_new_holds [OF assms(4)] by (simp add: stream_rel_def)
  note first = puts_then_gets [of "[]" xs n 0 k]
  from stream.run_refines [OF rel, of "map Put xs @ replicate k Get"] first assms obtain sb where
    sb: "run_ops stream_step (sb_new n) (map Put xs @ replicate k Get) = Inr (map uint (xs @ take k xs), sb)" "stream_rel n sb (xs, k)"
    by auto
  from sb(2) assms(1) have h: "sb_holds sb xs k" "length xs = sb_capacity sb" "length xs < 2 ^ 29"
    using assms(4) by (simp_all add: stream_rel_def)
  from sputc_grown [OF h, of c] obtain sb' d where
    put: "sputc sb c = Inr (uint c, sb')" "sb_gptr sb' = int k" "sb_egptr sb' = 0" "0 < d"
      "sb_mem sb' = (xs @ [c]) @ replicate d 0" .
  have gets: "run_ops stream_step sb' (replicate m Get) =
    (if m = 0 \<or> k + m \<le> n + 1 + d then Inr (map uint (take m (drop k (xs @ [c] @ replicate d 0))), gbump (int m) sb')
     else Inl MemFault)" for m
    using gets_past_end [of sb' k m] put assms(1,2) by simp
  have "run_ops stream_step (sb_new n) ((map Put xs @ replicate k Get) @ (Put c # replicate m Get)) =
    (if m \<le> n + 1 - k + d
     then Inr (map uint (xs @ take k xs @ [c] @ take m (drop k (xs @ [c] @ replicate d 0))), gbump (int m) sb')
     else Inl MemFault)" for m
    unfolding run_ops_append [of stream_step _ "map Put xs @ replicate k Get"] sb(1)
    using assms(3) by (auto simp: put(1) gets)
  with put(4) show ?thesis by (intro exI [of _ d] exI [of _ "\<lambda>m. gbump (int m) sb'"]) simp
qed

text \<open>The hypotheses hold for one character written and read in a stream of size one.\<close>

theorem strstream_growth_loses_end_witness:
  "\<exists>d sb. 0 < d \<and> (\<forall>m. run_ops stream_step (sb_new 1) (map Put [65] @ replicate 1 Get @ [Put 66] @ replicate m Get) =
    (if m \<le> 1 + 1 - 1 + d
     then Inr (map uint ([65] @ take 1 [65] @ [66 :: u8] @ take m (drop 1 ([65] @ [66] @ replicate d 0))), sb m)
     else Inl MemFault))"
  by (rule strstream_growth_loses_end) simp_all

section \<open>Seeking and copying\<close>

text \<open>All pointers inside the block.\<close>

definition sb_bounded :: "dsStrstreambuf \<Rightarrow> bool" where
  "sb_bounded sb \<longleftrightarrow> sb_eback sb = 0 \<and> 0 \<le> sb_gptr sb \<and> sb_gptr sb \<le> sb_egptr sb
     \<and> (\<exists>p e. sb_put sb = Some (0, p, e) \<and> 0 \<le> p \<and> p \<le> e \<and> sb_egptr sb \<le> e \<and> int (length (sb_mem sb)) = e + 1)"

lemma sb_holds_bounded:
  assumes "sb_holds sb t k"
  shows "sb_bounded sb"
proof -
  from assms obtain e where "sb_put sb = Some (0, int (length t), int e)" "length t \<le> e" "length (sb_mem sb) = e + 1"
    by (rule sb_holds_put)
  with assms show ?thesis by (auto simp: sb_bounded_def sb_holds_def sb_growing_def)
qed

text \<open>A seek keeps the pointers in the block. The value returned is the position that the offset is
  counted from, not the one reached.\<close>

lemma seekoff_g_bounded:
  assumes "sb_bounded sb"
  shows "\<exists>r sb'. seekoff_g sb offset dir = Inr (r, sb') \<and> sb_bounded sb' \<and> sb_put sb' = sb_put sb \<and> sb_mem sb' = sb_mem sb
    \<and> (r = -1 \<longrightarrow> sb' = sb) \<and> (r \<noteq> -1 \<longrightarrow> sb_gptr sb' = r + offset)"
proof -
  from assms obtain p e where "sb_put sb = Some (0, p, e)" "0 \<le> p" "p \<le> e" "sb_egptr sb \<le> e" "int (length (sb_mem sb)) = e + 1"
    "sb_eback sb = 0" "0 \<le> sb_gptr sb" "sb_gptr sb \<le> sb_egptr sb" by (auto simp: sb_bounded_def)
  then show ?thesis
    by (cases dir; cases "offset \<le> sb_egptr sb")
      (simp_all add: sb_bounded_def seekoff_g_def Let_def area_defs seekhigh_def)
qed

lemma seekoff_p_bounded:
  assumes "sb_bounded sb"
  shows "\<exists>r sb'. seekoff_p sb offset dir = Inr (r, sb') \<and> sb_bounded sb' \<and> (r = -1 \<longrightarrow> sb' = sb)
    \<and> (r \<noteq> -1 \<longrightarrow> sb_pcount sb' = r + offset)"
proof -
  from assms obtain p e where "sb_put sb = Some (0, p, e)" "0 \<le> p" "p \<le> e" "sb_egptr sb \<le> e" "int (length (sb_mem sb)) = e + 1"
    "sb_eback sb = 0" "0 \<le> sb_gptr sb" "sb_gptr sb \<le> sb_egptr sb" by (auto simp: sb_bounded_def)
  then show ?thesis
    by (cases "dir = Seek_beg") (simp_all add: sb_bounded_def seekoff_p_def Let_def area_defs seekhigh_def sb_pcount_def)
qed

lemma seekoff_bounded:
  assumes "sb_bounded sb"
  shows "\<exists>r sb'. seekoff sb offset dir mode_in mode_out = Inr (r, sb') \<and> sb_bounded sb'"
proof -
  from seekoff_g_bounded [OF assms, of offset dir] obtain r sb1 where
    "seekoff_g sb offset dir = Inr (r, sb1)" "sb_bounded sb1" by blast
  with seekoff_p_bounded [of sb1 offset dir] seekoff_p_bounded [OF assms, of offset dir] assms show ?thesis
    by (auto simp: seekoff_def)
qed

text \<open>A copy of a stream of which nothing was read has its text; a copy of any other reads before its
  block.\<close>

lemma sb_copy_holds:
  assumes "sb_holds sb t 0"
  shows "\<exists>sb'. sb_copy sb = Inr sb' \<and> sb_holds sb' t 0"
proof -
  from assms obtain e where e: "sb_put sb = Some (0, int (length t), int e)" "length t \<le> e" "length (sb_mem sb) = e + 1"
    by (rule sb_holds_put)
  from assms e have "sb_copy sb = Inr (pbump (int (length t)) (setg 0 0 0 (setp 0 (int e) sb)))"
    by (simp add: sb_copy_def sb_is_static_def sb_freeze_def sb_holds_def sb_growing_def area_defs nat_add_distrib)
  moreover from assms e have "sb_holds (pbump (int (length t)) (setg 0 0 0 (setp 0 (int e) sb))) t 0"
    by (auto simp: sb_holds_def sb_growing_def area_defs sb_pcount_def)
  ultimately show ?thesis by blast
qed

lemma sb_copy_reads_before_block:
  assumes "sb_holds sb t k" and "0 < k"
  shows "\<exists>sb'. sb_copy sb = Inr sb' \<and> sgetc sb' = Inl MemFault \<and> sbumpc sb' = Inl MemFault"
proof -
  from assms obtain e where e: "sb_put sb = Some (0, int (length t), int e)" "length (sb_mem sb) = e + 1"
    by (metis sb_holds_put)
  from assms e have "sb_copy sb = Inr (pbump (int (length t)) (setg 0 (- int k) 0 (setp 0 (int e) sb)))"
    by (simp add: sb_copy_def sb_is_static_def sb_freeze_def sb_holds_def sb_growing_def area_defs nat_add_distrib)
  with assms(2) show ?thesis by (simp add: sgetc_def sbumpc_def byte_at_def area_defs)
qed

end
