(* ===== verification/SmartException.thy ===== *)
theory SmartException
  imports StrStream Form
begin

text \<open>
  \<open>src/src/share/dsSmartException.h\<close> and \<open>dsSmartException.cxx\<close>: the base class of the program's
  exceptions, which formats its message with \<open>dsForm\<close> into a \<open>dsStrstream\<close>. In the other theories
  an exception is a value of \<open>exn\<close> with its text; here is how the text comes about. The backtrace
  is what the platform's \<open>backtrace\<close> functions return, a parameter of \<open>ex_print\<close>.
\<close>

record dsSmartException =
  ex_message :: dsStrstreambuf
  ex_tag :: dsStrstreambuf
  ex_facility :: "int option"

text \<open>The default constructor leaves the facility unset.\<close>

definition dsSmartException_new :: dsSmartException where
  "dsSmartException_new = \<lparr>ex_message = dsStrstream_new, ex_tag = dsStrstream_new, ex_facility = None\<rparr>"

text \<open>Output on a stream: its characters go to the buffer one after the other; a failed one (end of
  file) makes the stream bad, and the rest is dropped.\<close>

fun sb_puts :: "dsStrstreambuf \<Rightarrow> string \<Rightarrow> dsStrstreambuf res" where
  "sb_puts sb [] = Inr sb"
| "sb_puts sb (c # s) =
     bindR (sputc sb (byte_of_char c)) (\<lambda>(r, sb). if r = DS_IO_EOF then Inr sb else sb_puts sb s)"

abbreviation (input) ends :: string where "ends \<equiv> [CHR 0x00]"

definition ex_fire :: "form_env \<Rightarrow> dsSmartException \<Rightarrow> int \<Rightarrow> string option \<Rightarrow> string \<Rightarrow> va_arg list \<Rightarrow> dsSmartException res" where
  "ex_fire env e facility tag format ap =
     (let e = e\<lparr>ex_facility := Some facility\<rparr> in
      bindR (case tag of None \<Rightarrow> Inr e | Some tag \<Rightarrow> bindR (sb_puts (ex_tag e) (tag @ ends)) (\<lambda>sb. Inr (e\<lparr>ex_tag := sb\<rparr>))) (\<lambda>e.
      bindR (vform env ostream_new format ap) (\<lambda>os.
      bindR (sb_puts (ex_message e) (os_out os @ ends)) (\<lambda>sb.
      Inr (e\<lparr>ex_message := sb\<rparr>)))))"

text \<open>The constructors of the base class and of the classes made by \<open>DECLARE_EXCEPTION\<close>: without a
  facility it is zero.\<close>

definition ex_construct :: "form_env \<Rightarrow> int option \<Rightarrow> string \<Rightarrow> string \<Rightarrow> va_arg list \<Rightarrow> dsSmartException res" where
  "ex_construct env xfacility tag format ap =
     ex_fire env dsSmartException_new (case xfacility of None \<Rightarrow> 0 | Some f \<Rightarrow> f) (Some tag) format ap"

definition ex_msg :: "dsSmartException \<Rightarrow> string res" where
  "ex_msg e = sb_str (ex_message e)"

definition ex_tag_text :: "dsSmartException \<Rightarrow> string res" where
  "ex_tag_text e = sb_str (ex_tag e)"

text \<open>\<open>operator ==\<close> compares the tag.\<close>

definition ex_is :: "dsSmartException \<Rightarrow> string \<Rightarrow> bool res" where
  "ex_is e val = bindR (ex_tag_text e) (\<lambda>t. Inr (t = val))"

definition ex_print :: "string list option \<Rightarrow> dsSmartException \<Rightarrow> string res" where
  "ex_print symbols e =
     bindR (ex_tag_text e) (\<lambda>tag.
     bindR (ex_msg e) (\<lambda>msg.
     Inr (tag @ ''#'' @ msg @ [CHR 0x0A] @
       (case symbols of None \<Rightarrow> [] | Some strings \<Rightarrow> concat (map (\<lambda>s. s @ [CHR 0x0A]) strings)))))"

section \<open>The text of an exception\<close>

text \<open>Writing to a stream of which nothing is read.\<close>

lemma sb_puts_holds:
  assumes "sb_holds sb t 0" and "length t + length s \<le> 2 ^ 29"
  shows "\<exists>sb'. sb_puts sb s = Inr sb' \<and> sb_holds sb' (t @ bytes_of_string s) 0"
  using assms
proof (induction s arbitrary: sb t)
  case (Cons c s)
  from Cons.prems(2) have "length t < 2 ^ 29" by simp
  from sputc_holds [OF Cons.prems(1) _ this, of "byte_of_char c"] obtain sb1 where
    sb1: "sputc sb (byte_of_char c) = Inr (uint (byte_of_char c), sb1)" "sb_holds sb1 (t @ [byte_of_char c]) 0" by blast
  have "uint (byte_of_char c) \<noteq> -1" using uint_ge_0 [of "byte_of_char c"] by linarith
  moreover obtain sb' where "sb_puts sb1 s = Inr sb'" "sb_holds sb' ((t @ [byte_of_char c]) @ bytes_of_string s) 0"
    using Cons.IH [OF sb1(2)] Cons.prems(2) by auto
  ultimately show ?case using sb1(1) by simp
qed auto

lemma sb_puts_str:
  assumes "length s < 2 ^ 29" and "CHR 0x00 \<notin> set s"
  shows "\<exists>sb. sb_puts dsStrstream_new (s @ ends) = Inr sb \<and> sb_str sb = Inr s"
proof -
  have "sb_holds dsStrstream_new [] 0" using sb_new_holds [of 64] by (simp add: dsStrstream_new_def)
  moreover have "length ([] :: bytes) + length (s @ ends) \<le> 2 ^ 29" using assms(1) by simp
  ultimately obtain sb where sb: "sb_puts dsStrstream_new (s @ ends) = Inr sb" "sb_holds sb ([] @ bytes_of_string (s @ ends)) 0"
    using sb_puts_holds by blast
  have nul: "[] @ bytes_of_string (s @ ends) = bytes_of_string s @ [0]" by simp
  have "byte_of_char c \<noteq> 0" if "c \<in> set s" for c
  proof
    assume "byte_of_char c = 0"
    then have "byte_of_char c = byte_of_char (CHR 0x00)" by simp
    then have "c = CHR 0x00" by (simp only: byte_of_char_eq_iff)
    with that assms(2) show False by simp
  qed
  then have "takeWhile (\<lambda>b. b \<noteq> 0) (bytes_of_string s @ [0]) = bytes_of_string s"
    by (subst takeWhile_append2) auto
  with sb_str_holds [OF sb(2)] sb(1) show ?thesis unfolding nul by (simp add: comp_def)
qed

text \<open>An exception raised with a format and arguments of its types carries the tag of its class and
  the formatted message, whatever their lengths; \<open>print\<close> writes both.\<close>

theorem exception_text:
  assumes "vform env ostream_new format ap = Inr os" and "CHR 0x00 \<notin> set (os_out os)" and "length (os_out os) < 2 ^ 29"
    and "CHR 0x00 \<notin> set tag" and "length tag < 2 ^ 29"
  shows "\<exists>e. ex_construct env xfacility tag format ap = Inr e \<and> ex_msg e = Inr (os_out os) \<and> ex_is e tag = Inr True
    \<and> ex_facility e = Some (case xfacility of None \<Rightarrow> 0 | Some f \<Rightarrow> f)
    \<and> ex_print None e = Inr (tag @ ''#'' @ os_out os @ [CHR 0x0A])"
proof -
  obtain m where m: "sb_puts dsStrstream_new (os_out os @ ends) = Inr m" "sb_str m = Inr (os_out os)"
    using sb_puts_str [OF assms(3,2)] by blast
  obtain t where t: "sb_puts dsStrstream_new (tag @ ends) = Inr t" "sb_str t = Inr tag"
    using sb_puts_str [OF assms(5,4)] by blast
  show ?thesis
    using assms(1) m t
    by (simp add: ex_construct_def ex_fire_def dsSmartException_new_def ex_msg_def ex_tag_text_def ex_is_def ex_print_def Let_def)
qed

theorem exception_text_witness:
  "\<exists>e. ex_construct ex_form_env None ''Daemon'' ''Fork error %d'' [VInt 12] = Inr e \<and> ex_msg e = Inr ''Fork error 12''
     \<and> ex_is e ''Daemon'' = Inr True \<and> ex_print None e = Inr (''Daemon#Fork error 12'' @ [CHR 0x0A])"
proof -
  have f: "concat (map piece_format [PText ''Fork error '', PDec 0]) = ''Fork error %d''" by code_simp
  have p: "print_pieces [PText ''Fork error '', PDec 0] [VInt 12] = Some ''Fork error 12''" by code_simp
  obtain os where "vform ex_form_env ostream_new ''Fork error %d'' [VInt 12] = Inr os" "os_out os = ''Fork error 12''"
    using vform_prints [OF _ p, of ostream_new ex_form_env] unfolding f by (auto simp: ostream_new_def)
  with exception_text [OF this(1), of "''Daemon''" None] show ?thesis by auto
qed

end
