(* ===== verification/IpTools.thy ===== *)
theory IpTools
  imports Prelude
begin

text \<open>
  \<open>src/src/tools/tools.h\<close>: the conversions between the printed and the numeric form of IP
  and MAC addresses, and the subnet arithmetic. An IP address is a \<open>uint32_t\<close> in network byte
  order, so its least significant byte is the first octet. The lemmas show the two round trips
  and that the byte-swapping masks compute the bitwise operations they stand for.
\<close>

section \<open>Definitions\<close>

subsection \<open>IP addresses\<close>

fun ip_s2u_loop :: "string \<Rightarrow> nat \<Rightarrow> bytes \<Rightarrow> bytes res" where
  "ip_s2u_loop [] i t = Inr t"
| "ip_s2u_loop (c # s) i t =
     (if c = CHR ''.'' then ip_s2u_loop s (Suc i) t
      else if i < length t
      then ip_s2u_loop s i (t[i := t ! i * 10 + (byte_of_char c - byte_of_char (CHR ''0''))])
      else Inl MemFault)"

definition ip_s2u :: "string \<Rightarrow> u32 res" where
  "ip_s2u s_addr = bindR (ip_s2u_loop s_addr 0 [0, 0, 0, 0]) (\<lambda>t. Inr (le_word t))"

definition ip_u2s_octet :: "u8 \<Rightarrow> string" where
  "ip_u2s_octet b =
     (let s1 = b div 100; s2 = b mod 100 div 10
      in (if s1 > 0 then [char_of_byte (s1 + byte_of_char (CHR ''0''))] else [])
         @ (if s1 > 0 \<or> s2 > 0 then [char_of_byte (s2 + byte_of_char (CHR ''0''))] else [])
         @ [char_of_byte (b mod 10 + byte_of_char (CHR ''0''))])"

fun ip_u2s_loop :: "bytes \<Rightarrow> string" where
  "ip_u2s_loop [] = []"
| "ip_u2s_loop [b] = ip_u2s_octet b"
| "ip_u2s_loop (b # c # bs) = ip_u2s_octet b @ CHR ''.'' # ip_u2s_loop (c # bs)"

definition ip_u2s :: "u32 \<Rightarrow> string" where
  "ip_u2s addr = ip_u2s_loop (le_bytes 4 addr)"

subsection \<open>Subnet arithmetic\<close>

text \<open>
  The source writes each swap out as \<open>uint8_t su[4] = {BYTE(subnet,3), ..., BYTE(subnet,0)}\<close>
  followed by \<open>UINT32(su)\<close>; \<open>BYTE(n,m)\<close> is \<open>le_bytes 4 n ! m\<close>.
\<close>

definition ip_swap_int :: "u32 \<Rightarrow> u32" where
  "ip_swap_int ipaddr =
     le_word [le_bytes 4 ipaddr ! 3, le_bytes 4 ipaddr ! 2, le_bytes 4 ipaddr ! 1, le_bytes 4 ipaddr ! 0]"

definition ip_in_subnet :: "u32 \<Rightarrow> u32 \<Rightarrow> u32 \<Rightarrow> bool" where
  "ip_in_subnet subnet msk ipaddr \<longleftrightarrow>
     (ip_swap_int ipaddr AND ip_swap_int msk) = ip_swap_int subnet"

definition get_ip_broadcast :: "u32 \<Rightarrow> u32 \<Rightarrow> u32" where
  "get_ip_broadcast subnet msk =
     ip_swap_int (ip_swap_int subnet OR NOT (ip_swap_int msk))"

definition ip_isolate_addr :: "u32 \<Rightarrow> u32 \<Rightarrow> u32" where
  "ip_isolate_addr msk ipaddr = (ip_swap_int ipaddr AND NOT (ip_swap_int msk))"

definition ip_compose_ip :: "u32 \<Rightarrow> u32 \<Rightarrow> u32" where
  "ip_compose_ip subnet ipaddr =
     (let ip = le_word [le_bytes 4 ipaddr ! 0, le_bytes 4 ipaddr ! 1,
                        le_bytes 4 ipaddr ! 2, le_bytes 4 ipaddr ! 3];
          res = ip OR ip_swap_int subnet
      in ip_swap_int res)"

subsection \<open>MAC addresses\<close>

definition hex_digit :: "u8 \<Rightarrow> char" where
  "hex_digit a =
     char_of_byte (if a > 9 then (a - 10) + byte_of_char (CHR ''A'') else a + byte_of_char (CHR ''0''))"

fun mac_u2s_loop :: "bytes \<Rightarrow> nat \<Rightarrow> nat \<Rightarrow> string" where
  "mac_u2s_loop umac i 0 = []"
| "mac_u2s_loop umac i (Suc n) =
     hex_digit (drop_bit 4 (umac ! i AND 0xF0)) # hex_digit (umac ! i AND 0xF)
     # (if i = 5 then [] else CHR '':'' # mac_u2s_loop umac (Suc i) n)"

definition mac_u2s :: "u64 \<Rightarrow> string" where
  "mac_u2s chaddr = mac_u2s_loop (le_bytes 8 chaddr) 0 6"

text \<open>\<open>char\<close> is signed: a byte above 127 compares below \<open>'9'\<close>.\<close>

definition above_nine :: "char \<Rightarrow> bool" where
  "above_nine c \<longleftrightarrow> sint (byte_of_char c) > sint (byte_of_char (CHR ''9''))"

fun mac_s2u_loop :: "string \<Rightarrow> nat \<Rightarrow> bytes \<Rightarrow> bytes" where
  "mac_s2u_loop [] i t = t"
| "mac_s2u_loop (c # s) i t =
     (if c = CHR '':'' then mac_s2u_loop s (Suc i) t
      else if i > 6 then t
      else if above_nine c
      then mac_s2u_loop s i (t[i := push_bit 4 (t ! i) OR (byte_of_char c - byte_of_char (CHR ''A'') + 10)])
      else mac_s2u_loop s i (t[i := push_bit 4 (t ! i) OR (byte_of_char c - byte_of_char (CHR ''0''))]))"

definition mac_s2u :: "string \<Rightarrow> u64" where
  "mac_s2u s_mac = le_word (mac_s2u_loop s_mac 0 [0, 0, 0, 0, 0, 0, 0, 0])"

section \<open>Subnet arithmetic is bitwise\<close>

lemma upt4: "[0..<4] = [0, 1, 2, 3::nat]"
  by (simp add: upt_rec)

lemma ip_swap_int_eq [simp]: "ip_swap_int w = swap32 w"
  by (simp add: ip_swap_int_def swap32_def le_bytes_def upt4)

lemma ip_in_subnet_iff: "ip_in_subnet subnet msk ip \<longleftrightarrow> ip AND msk = subnet"
  by (simp add: ip_in_subnet_def flip: swap32_and)

lemma get_ip_broadcast_eq: "get_ip_broadcast subnet msk = (subnet OR NOT msk)"
  by (simp add: get_ip_broadcast_def flip: swap32_not swap32_or)

lemma ip_isolate_addr_eq: "ip_isolate_addr msk ip = swap32 (ip AND NOT msk)"
  by (simp add: ip_isolate_addr_def swap32_bitwise)

lemma ip_compose_ip_eq: "ip_compose_ip subnet n = (swap32 n OR subnet)"
proof -
  have "[le_bytes 4 n ! 0, le_bytes 4 n ! 1, le_bytes 4 n ! 2, le_bytes 4 n ! 3] = le_bytes 4 n"
    by (simp add: le_bytes_def upt4)
  then show ?thesis
    unfolding ip_compose_ip_def by (simp add: swap32_or)
qed

lemmas subnet_arith = ip_in_subnet_iff get_ip_broadcast_eq ip_isolate_addr_eq ip_compose_ip_eq

text \<open>The subnet test, the broadcast address and the host part that the source computes on
  byte-swapped copies are the bitwise operations on the addresses themselves.\<close>

theorem subnet_operations_bitwise:
  "(ip_in_subnet subnet msk ip \<longleftrightarrow> ip AND msk = subnet)
   \<and> get_ip_broadcast subnet msk = (subnet OR NOT msk)
   \<and> ip_isolate_addr msk ip = swap32 (ip AND NOT msk)"
  by (simp add: subnet_arith)

section \<open>Printing and parsing IP addresses\<close>

lemma digit_byte_small:
  fixes b :: u8
  shows "b div 100 < 10" and "b mod 100 div 10 < 10" and "b mod 10 < 10"
proof -
  have b: "unat b < 256" using unsigned_less [of b, where ?'a = nat] by simp
  show "b div 100 < 10" "b mod 100 div 10 < 10" "b mod 10 < 10"
    using b by (simp_all add: word_less_nat_alt unat_div unat_mod)
qed

lemma decimal_digits: "((b div 100 * 10 + b mod 100 div 10) * 10 + b mod 10 :: u8) = b"
proof -
  have "unat (b mod 100 mod 10) = unat (b mod 10)"
    by (simp add: unat_mod mod_mod_cancel)
  then have low: "b mod 10 = b mod 100 mod 10"
    by (simp only: word_unat_eq_iff)
  have "(b div 100 * 10 + b mod 100 div 10) * 10 + b mod 10
        = b div 100 * 100 + (b mod 100 div 10 * 10 + b mod 100 mod 10)"
    unfolding low by (simp add: algebra_simps)
  also have "\<dots> = b" by (simp only: div_mult_mod_eq)
  finally show ?thesis .
qed

lemma digit_not_dot:
  assumes "d < 10"
  shows "char_of_byte (d + 48) \<noteq> CHR ''.''"
proof
  assume "char_of_byte (d + 48) = CHR ''.''"
  then have "unat (d + 48) = unat (byte_of_char (CHR ''.''))"
    by (simp only: char_of_byte_eq_iff)
  moreover have "unat (d + 48) = unat d + 48"
    using assms by (simp add: unat_word_ariths word_less_nat_alt)
  ultimately show False by simp
qed

lemma ip_s2u_loop_digit:
  assumes "d < 10" and "i < length t"
  shows "ip_s2u_loop (char_of_byte (d + 48) # s) i t = ip_s2u_loop s i (t[i := t ! i * 10 + d])"
  using assms digit_not_dot [of d] by simp

lemma ip_s2u_loop_octet:
  assumes "i < length t" and "t ! i = 0"
  shows "ip_s2u_loop (ip_u2s_octet b @ s) i t = ip_s2u_loop s i (t[i := b])"
  using assms decimal_digits [of b] digit_byte_small [of b] ip_s2u_loop_digit [of 0]
  by (auto simp: ip_u2s_octet_def Let_def ip_s2u_loop_digit word_gt_0 simp del: ip_s2u_loop.simps)

lemma ip_s2u_loop_ip_u2s_loop:
  assumes "length pre + length bs = 4"
  shows "ip_s2u_loop (ip_u2s_loop bs) (length pre) (pre @ replicate (length bs) 0) = Inr (pre @ bs)"
  using assms
proof (induction bs arbitrary: pre rule: ip_u2s_loop.induct)
  case 1
  then show ?case by simp
next
  case (2 b)
  then show ?case
    using ip_s2u_loop_octet [of "length pre" "pre @ [0]" b "[]"]
    by (simp add: nth_append list_update_append)
next
  case (3 b c bs)
  have "ip_s2u_loop (ip_u2s_octet b @ CHR ''.'' # ip_u2s_loop (c # bs)) (length pre)
          (pre @ replicate (length (b # c # bs)) 0)
        = ip_s2u_loop (CHR ''.'' # ip_u2s_loop (c # bs)) (length pre)
          (pre @ b # replicate (length (c # bs)) 0)"
    by (subst ip_s2u_loop_octet) (simp_all add: nth_append list_update_append)
  also have "\<dots> = ip_s2u_loop (ip_u2s_loop (c # bs)) (length (pre @ [b]))
          ((pre @ [b]) @ replicate (length (c # bs)) 0)"
    by simp
  also have "\<dots> = Inr ((pre @ [b]) @ c # bs)"
    using "3.prems" by (intro "3.IH") simp
  finally show ?case by simp
qed

lemma ip_s2u_loop_raises: "ip_s2u_loop s i t = Inl e \<longleftrightarrow> e = MemFault \<and> ip_s2u_loop s i t = Inl MemFault"
  by (induction s i t rule: ip_s2u_loop.induct) auto

lemma ip_s2u_raises: "ip_s2u s = Inl e \<Longrightarrow> e = MemFault"
  using ip_s2u_loop_raises [of s 0 "[0, 0, 0, 0]" e] by (simp add: ip_s2u_def bindR_eq_Inl)

lemma replicate4: "replicate 4 x = [x, x, x, x]"
  by (simp add: numeral_eq_Suc)

lemma ip_s2u_printed [simp]: "ip_s2u (ip_u2s addr) = Inr addr"
  using ip_s2u_loop_ip_u2s_loop [of "[]" "le_bytes 4 addr"]
  by (simp add: ip_s2u_def ip_u2s_def replicate4)

lemma ip_u2s_inject [simp]: "ip_u2s a = ip_u2s b \<longleftrightarrow> a = b"
proof
  assume "ip_u2s a = ip_u2s b"
  then have "(Inr a :: u32 res) = Inr b" by (metis ip_s2u_printed)
  then show "a = b" by simp
qed simp

lemma length_ip_u2s_octet: "length (ip_u2s_octet b) \<le> 3"
  by (simp add: ip_u2s_octet_def Let_def)

lemma length_ip_u2s_loop: "bs \<noteq> [] \<Longrightarrow> length (ip_u2s_loop bs) + 1 \<le> 4 * length bs"
proof (induction bs rule: ip_u2s_loop.induct)
  case (2 b)
  show ?case using length_ip_u2s_octet [of b] by simp
next
  case (3 b c bs)
  then show ?case using length_ip_u2s_octet [of b] by simp
qed simp

lemma length_ip_u2s: "length (ip_u2s addr) \<le> 15"
proof -
  have "le_bytes 4 addr \<noteq> []" by (metis length_le_bytes list.size(3) zero_neq_numeral)
  from length_ip_u2s_loop [OF this] show ?thesis by (simp add: ip_u2s_def)
qed

text \<open>C19 Printing an IP address and parsing the text gives the address back, for all 2^32
  addresses and without a write outside the parser's four-byte buffer; the text with its
  terminator fits the 20 bytes of \<open>IPAddress::s_addr\<close>.\<close>

theorem ip_print_parse_roundtrip:
  "ip_s2u (ip_u2s addr) = Inr addr \<and> length (ip_u2s addr) + 1 \<le> 16"
  using length_ip_u2s [of addr] by simp

section \<open>Printing and parsing MAC addresses\<close>

lemma hex_digit_parse:
  assumes "a < 16" and "i \<le> 6"
  shows "mac_s2u_loop (hex_digit a # s) i t = mac_s2u_loop s i (t[i := push_bit 4 (t ! i) OR a])"
proof -
  have "a \<in> set (map word_of_nat [0..<16])"
    using assms(1) by (auto simp: word_less_nat_alt intro!: image_eqI [where x = "unat a"])
  then consider "a = 0" | "a = 1" | "a = 2" | "a = 3" | "a = 4" | "a = 5" | "a = 6" | "a = 7"
    | "a = 8" | "a = 9" | "a = 10" | "a = 11" | "a = 12" | "a = 13" | "a = 14" | "a = 15"
    by (auto simp: upt_rec)
  then show ?thesis
    using assms(2)
    by cases (simp_all add: hex_digit_def char_of_byte_eq_iff above_nine_def)
qed

lemma nibbles: "push_bit 4 (drop_bit 4 (b AND 0xF0)) OR (b AND 0xF) = (b :: u8)"
proof -
  have "push_bit 4 (drop_bit 4 (b AND 0xF0)) OR (b AND 0xF) = (b AND 0xF0) OR (b AND 0xF)"
  proof (rule bit_word_eqI)
    fix n assume "n < LENGTH(8)"
    then have "n < 8" by simp
    then show "bit (push_bit 4 (drop_bit 4 (b AND 0xF0)) OR (b AND 0xF)) n
               = bit ((b AND 0xF0) OR (b AND 0xF)) n"
      by (rule less_8_cases) (simp_all add: bit_simps)
  qed
  also have "\<dots> = b AND (0xF0 OR 0xF)" by (simp only: bit.conj_disj_distrib)
  also have "\<dots> = b" by simp
  finally show ?thesis .
qed

lemma nibble_small: "drop_bit 4 (b AND 0xF0) < (16 :: u8)" "b AND 0xF < (16 :: u8)"
proof -
  have low: "x AND 0xF < 16" for x :: u8
  proof -
    have "x AND 0xF \<le> 0xF" by (rule word_and_le1)
    then show ?thesis by (simp add: word_le_nat_alt word_less_nat_alt)
  qed
  show "b AND 0xF < (16 :: u8)" by (rule low)
  have "drop_bit 4 (b AND 0xF0) = drop_bit 4 b AND 0xF" by simp
  then show "drop_bit 4 (b AND 0xF0) < (16 :: u8)" by (simp only: low)
qed

lemma mac_s2u_loop_byte:
  assumes "i \<le> 6" and "i < length t" and "t ! i = 0"
  shows "mac_s2u_loop (hex_digit (drop_bit 4 (b AND 0xF0)) # hex_digit (b AND 0xF) # s) i t
         = mac_s2u_loop s i (t[i := b])"
proof -
  have "t[i := push_bit 4 (t ! i) OR drop_bit 4 (b AND 0xF0)] = t[i := drop_bit 4 (b AND 0xF0)]"
    using assms by simp
  then show ?thesis
    using assms(1,2) nibbles [of b]
    by (simp only: hex_digit_parse nibble_small nth_list_update_eq list_update_overwrite)
qed

lemma mac_s2u_loop_mac_u2s_loop:
  assumes "length umac = 8" and "i + Suc n = 6"
  shows "mac_s2u_loop (mac_u2s_loop umac i (Suc n)) i (take i umac @ replicate (8 - i) 0)
         = take 6 umac @ [0, 0]"
  using assms
proof (induction n arbitrary: i)
  case 0
  then have i: "i = 5" by simp
  have "take 5 umac @ umac ! 5 # [0, 0] = take 6 umac @ [0, 0]"
    using "0.prems" take_Suc_conv_app_nth [of 5 umac] by simp
  then show ?case
    using "0.prems" unfolding i mac_u2s_loop.simps
    by (subst mac_s2u_loop_byte)
      (simp_all add: nth_append list_update_append min_def numeral_eq_Suc)
next
  case (Suc n)
  then have i: "i < 5" by simp
  let ?t = "take i umac @ replicate (8 - i) 0"
  have rep: "replicate (8 - i) (0::u8) = 0 # replicate (8 - Suc i) 0"
    using i by (simp add: Suc_diff_Suc flip: replicate_Suc)
  have upd: "?t[i := umac ! i] = take (Suc i) umac @ replicate (8 - Suc i) 0"
    using i Suc.prems by (simp add: rep list_update_append take_Suc_conv_app_nth)
  have "mac_s2u_loop (mac_u2s_loop umac i (Suc (Suc n))) i ?t
        = mac_s2u_loop (CHR '':'' # mac_u2s_loop umac (Suc i) (Suc n)) i (?t[i := umac ! i])"
    using i Suc.prems unfolding mac_u2s_loop.simps(2) [of umac i "Suc n"]
    by (subst mac_s2u_loop_byte) (simp_all add: nth_append rep)
  also have "\<dots> = take 6 umac @ [0, 0]"
    unfolding upd using Suc.IH [of "Suc i"] Suc.prems by simp
  finally show ?case .
qed

lemma mac_s2u_mac_u2s: "mac_s2u (mac_u2s m) = m AND mask 48"
proof -
  have "mac_s2u (mac_u2s m) = le_word (take 6 (le_bytes 8 m) @ [0, 0])"
    using mac_s2u_loop_mac_u2s_loop [of "le_bytes 8 m" 0 5]
    by (simp add: mac_s2u_def mac_u2s_def numeral_eq_Suc)
  also have "\<dots> = m AND mask 48"
  proof (rule bit_word_eqI)
    fix k assume "k < LENGTH(64)"
    then have k: "k < 64" by simp
    have *: "(take 6 (le_bytes 8 m) @ [0, 0]) ! (k div 8)
          = (if k div 8 < 6 then ucast (drop_bit (8 * (k div 8)) m) else 0)"
      using k by (auto simp: nth_append nth_Cons')
    show "bit (le_word (take 6 (le_bytes 8 m) @ [0, 0]) :: u64) k = bit (m AND mask 48) k"
      using k unfolding bit_le_word *
      by (auto simp: bit_and_iff bit_mask_iff bit_ucast_iff bit_drop_bit_eq)
  qed
  finally show ?thesis .
qed

lemma length_mac_u2s_loop: "i + n = 6 \<Longrightarrow> 0 < n \<Longrightarrow> length (mac_u2s_loop umac i n) = 3 * n - 1"
proof (induction n arbitrary: i)
  case (Suc n)
  then show ?case by (cases n) auto
qed simp

lemma mac_u2s_loop_cong:
  "(\<And>j. j < 6 \<Longrightarrow> u ! j = v ! j) \<Longrightarrow> i + n \<le> 6 \<Longrightarrow> mac_u2s_loop u i n = mac_u2s_loop v i n"
  by (induction n arbitrary: i) auto

lemma mac_u2s_mask: "mac_u2s (m AND mask 48) = mac_u2s m"
proof -
  have "le_bytes 8 (m AND mask 48) ! j = le_bytes 8 m ! j" if "j < 6" for j
    using that by (auto intro!: bit_word_eqI simp: bit_simps)
  then show ?thesis unfolding mac_u2s_def by (intro mac_u2s_loop_cong) simp_all
qed

lemma mac_u2s_eq_iff: "mac_u2s m = mac_u2s m' \<longleftrightarrow> m AND mask 48 = m' AND mask 48"
  by (metis mac_s2u_mac_u2s mac_u2s_mask)

text \<open>Printing a hardware address and parsing the text gives back its low 48 bits, which
  are the six bytes of an Ethernet address; two addresses print alike exactly when these
  bytes agree, and the text with its terminator is 18 bytes long.\<close>

theorem mac_print_parse_roundtrip:
  "mac_s2u (mac_u2s m) = m AND mask 48
   \<and> (mac_u2s m = mac_u2s m' \<longleftrightarrow> m AND mask 48 = m' AND mask 48)
   \<and> length (mac_u2s m) + 1 = 18"
  using mac_s2u_mac_u2s [of m] mac_u2s_eq_iff [of m m'] length_mac_u2s_loop [of 0 6]
  by (simp add: mac_u2s_def)

end
