(* ===== verification/Subnets.thy ===== *)
theory Subnets
  imports IpTools
begin

text \<open>
  \<open>src/src/tools/subnets.h\<close> and \<open>Subnets::mysubnet\<close> of \<open>subnets.cxx\<close>: the address classes,
  the subnet record and the search for the subnet of an address. The linked list behind
  \<open>Subnets::_subnets\<close> is a HOL list, a null \<open>_global_net\<close> is \<open>None\<close>. \<open>lease_time\<close> and
  \<open>renew_time\<close> are assigned for the global record only, so \<open>None\<close> stands for the
  indeterminate value the constructor leaves there. \<open>Subnets::load\<close> is in theory
  \<open>SubnetsLoad\<close>.
\<close>

section \<open>Address classes\<close>

record MACAddress =
  mac_u_addr :: u64
  mac_s_addr :: string

record IPAddress =
  ip_s_addr :: string
  ip_u_addr :: u32

abbreviation INADDR_NONE :: u32 where "INADDR_NONE \<equiv> 0xFFFFFFFF"

text \<open>\<open>strcpy\<close> into the 20 bytes of \<open>s_addr\<close> needs room for the terminator.\<close>

definition strcpy20 :: "string \<Rightarrow> string res" where
  "strcpy20 s = (if length s + 1 \<le> 20 then Inr s else Inl MemFault)"

definition MACAddress_u :: "u64 \<Rightarrow> MACAddress" where
  "MACAddress_u p_uaddr = \<lparr>mac_u_addr = p_uaddr, mac_s_addr = mac_u2s p_uaddr\<rparr>"

definition MACAddress_s :: "string \<Rightarrow> MACAddress res" where
  "MACAddress_s p_saddr =
     bindR (strcpy20 p_saddr) (\<lambda>s. Inr \<lparr>mac_u_addr = mac_s2u s, mac_s_addr = s\<rparr>)"

definition IPAddress_s :: "string \<Rightarrow> IPAddress res" where
  "IPAddress_s p_saddr =
     bindR (strcpy20 p_saddr) (\<lambda>s.
     bindR (ip_s2u p_saddr) (\<lambda>u. Inr \<lparr>ip_s_addr = s, ip_u_addr = u\<rparr>))"

definition IPAddress_u :: "u32 \<Rightarrow> IPAddress" where
  "IPAddress_u p_uaddr = \<lparr>ip_s_addr = ip_u2s p_uaddr, ip_u_addr = p_uaddr\<rparr>"

definition IPAddress_none :: IPAddress where
  "IPAddress_none = \<lparr>ip_s_addr = '''', ip_u_addr = INADDR_NONE\<rparr>"

definition ip_neq :: "IPAddress \<Rightarrow> IPAddress \<Rightarrow> bool" where
  "ip_neq a b \<longleftrightarrow> ip_u_addr a \<noteq> ip_u_addr b"

section \<open>Subnets\<close>

record Subnet =
  sub_name :: "string option"
  domain_name :: "string option"
  addr :: IPAddress
  netmask :: IPAddress
  gateway :: IPAddress
  nameserver1 :: IPAddress
  nameserver2 :: IPAddress
  range_start :: IPAddress
  range_end :: IPAddress
  lease_time :: "u32 option"
  renew_time :: "u32 option"
  broadcast :: IPAddress

definition Subnet_new :: Subnet where
  "Subnet_new =
     \<lparr>sub_name = None, domain_name = None, addr = IPAddress_none, netmask = IPAddress_none,
      gateway = IPAddress_none, nameserver1 = IPAddress_none, nameserver2 = IPAddress_none,
      range_start = IPAddress_none, range_end = IPAddress_none,
      lease_time = None, renew_time = None, broadcast = IPAddress_none\<rparr>"

definition myaddress :: "Subnet \<Rightarrow> IPAddress \<Rightarrow> bool" where
  "myaddress sub ip = ip_in_subnet (ip_u_addr (addr sub)) (ip_u_addr (netmask sub)) (ip_u_addr ip)"

definition compose_ip :: "Subnet \<Rightarrow> u32 \<Rightarrow> IPAddress" where
  "compose_ip sub new_ip = IPAddress_u (ip_compose_ip (ip_u_addr (addr sub)) new_ip)"

definition sub_u_addr :: "Subnet \<Rightarrow> u32" where
  "sub_u_addr sub = ip_u_addr (addr sub)"

definition has_dynamic_range :: "Subnet \<Rightarrow> bool" where
  "has_dynamic_range sub \<longleftrightarrow> ip_u_addr (range_start sub) \<noteq> INADDR_NONE"

record Subnets =
  subnets :: "Subnet list"
  globalnet :: "Subnet option"

fun mysubnet_loop :: "Subnet list \<Rightarrow> IPAddress \<Rightarrow> Subnet option" where
  "mysubnet_loop [] ip = None"
| "mysubnet_loop (sub # rest) ip = (if myaddress sub ip then Some sub else mysubnet_loop rest ip)"

definition mysubnet :: "Subnets \<Rightarrow> IPAddress \<Rightarrow> Subnet option" where
  "mysubnet sn ip = mysubnet_loop (subnets sn) ip"

section \<open>Lemmas\<close>

lemma IPAddress_s_printed [simp]: "IPAddress_s (ip_u2s u) = Inr (IPAddress_u u)"
  using length_ip_u2s [of u] by (simp add: IPAddress_s_def strcpy20_def IPAddress_u_def)

lemma IPAddress_u_sel [simp]:
  "ip_u_addr (IPAddress_u u) = u" "ip_s_addr (IPAddress_u u) = ip_u2s u"
  by (simp_all add: IPAddress_u_def)

lemma MACAddress_u_sel [simp]:
  "mac_u_addr (MACAddress_u u) = u" "mac_s_addr (MACAddress_u u) = mac_u2s u"
  by (simp_all add: MACAddress_u_def)

lemma IPAddress_none_sel [simp]:
  "ip_u_addr IPAddress_none = INADDR_NONE" "ip_s_addr IPAddress_none = ''''"
  by (simp_all add: IPAddress_none_def)

lemma myaddress_iff: "myaddress sub ip \<longleftrightarrow> ip_u_addr ip AND ip_u_addr (netmask sub) = sub_u_addr sub"
  by (simp add: myaddress_def sub_u_addr_def ip_in_subnet_iff)

lemma mysubnet_find: "mysubnet sn ip = find (\<lambda>sub. myaddress sub ip) (subnets sn)"
proof -
  have "mysubnet_loop subs ip = find (\<lambda>sub. myaddress sub ip) subs" for subs
    by (induction subs) auto
  then show ?thesis by (simp add: mysubnet_def)
qed

lemma mysubnet_Some: "mysubnet sn ip = Some sub \<Longrightarrow> sub \<in> set (subnets sn) \<and> myaddress sub ip"
  by (auto simp: mysubnet_find find_Some_iff)

lemma mysubnet_None: "mysubnet sn ip = None \<longleftrightarrow> (\<forall>sub \<in> set (subnets sn). \<not> myaddress sub ip)"
  by (auto simp: mysubnet_find find_None_iff)

lemma mysubnet_u_addr: "ip_u_addr a = ip_u_addr b \<Longrightarrow> mysubnet sn a = mysubnet sn b"
  by (simp add: mysubnet_find myaddress_def)

end
