(* ===== verification/SlightFunctions.thy ===== *)
theory SlightFunctions
  imports Printf
begin

text \<open>
  \<open>src/src/share/dsSlightFunctions.h\<close> and \<open>dsSlightFunctions.cxx\<close>: string helpers and the base64,
  hexadecimal and quoted-printable conversions. C strings are HOL strings without terminator; where
  the code reads a buffer by address, the buffer is a byte list and a read beyond it a fault.
\<close>

section \<open>Numbers\<close>

definition ascii_digit :: "char \<Rightarrow> bool" where
  "ascii_digit c \<longleftrightarrow> 48 \<le> (of_char c :: nat) \<and> (of_char c :: nat) \<le> 57"

text \<open>The loop of \<open>dsAtoul\<close> on a string does not advance.\<close>

definition dsAtoul :: "string option \<Rightarrow> u64 res" where
  "dsAtoul src =
     (case src of
        Some (c # _) \<Rightarrow> if ascii_digit c then Inl Diverges
                       else Inl (SlightFunctionException ''dsAtol (1): Conversion can't be done'')
      | _ \<Rightarrow> Inl (SlightFunctionException ''dsAtol (1): Conversion can't be done''))"

text \<open>On a stream: \<open>>>\<close> skips white space and leaves \<open>ch\<close> alone at the end. The result is the number
  and the digits consumed.\<close>

definition stream_space :: "char \<Rightarrow> bool" where
  "stream_space c \<longleftrightarrow> (of_char c :: nat) \<in> {9, 10, 11, 12, 13, 32}"

function atoul_stream :: "string \<Rightarrow> char option \<Rightarrow> int \<Rightarrow> nat \<Rightarrow> u64 \<Rightarrow> (u64 \<times> nat) res" where
  "atoul_stream is ch n i num =
     (let s = dropWhile stream_space is;
          ch = (if s = [] then ch else Some (hd s)) in
      case ch of
        None \<Rightarrow> Inl UninitRead
      | Some c \<Rightarrow>
          if \<not> ascii_digit c then
            if n > 0 \<or> i = 0 then Inl (SlightFunctionException ''dsAtol (2): Conversion can't be done'')
            else Inr (num, i)
          else if n > 0 \<and> int i > n then Inr (num, i)
          else if s = [] \<and> n \<le> 0 then Inl Diverges
          else atoul_stream (tl s) ch n (i + 1) (num * 10 + of_nat (of_char c - 48)))"
  by pat_completeness auto
termination
proof (relation "measure (\<lambda>(is, _, n, i, _). length is + nat (n + 2 - int i))")
  show "((tl s, ch, n, i + 1, num'), (is, ch0, n, i, num)) \<in> measure (\<lambda>(is, _, n, i, _). length is + nat (n + 2 - int i))"
    if "s = dropWhile stream_space is" "\<not> (n > 0 \<and> int i > n)" "\<not> (s = [] \<and> n \<le> 0)"
    for s ch0 ch n i num' num and "is" :: string
  proof (cases s)
    case Nil
    then show ?thesis using that(2,3) by simp
  next
    case (Cons c t)
    then have "length s \<le> length is" using that(1) length_dropWhile_le by metis
    then show ?thesis using Cons by simp
  qed
qed auto

declare atoul_stream.simps [simp del]

definition dsAtoul_stream :: "string \<Rightarrow> int \<Rightarrow> (u64 \<times> nat) res" where
  "dsAtoul_stream is n = atoul_stream is None n 0 0"

section \<open>Strings\<close>

text \<open>Copying with a limit: without room in the first \<open>size\<close> bytes the terminator goes to \<open>dest[size]\<close>
  and the exception is raised. \<open>dest\<close> is the whole destination array.\<close>

definition dsSizeStrcpy :: "string \<Rightarrow> string option \<Rightarrow> int \<Rightarrow> string res" where
  "dsSizeStrcpy dest src size_limit =
     (case src of
        None \<Rightarrow> Inl (SlightFunctionException ''dsSizeStrcpy: Attempt to copy null pointer.'')
      | Some s \<Rightarrow>
          if size_limit < 0 then Inl MemFault
          else if int (length s) < size_limit then write_range dest 0 (s @ [CHR 0x00])
          else bindR (write_range dest 0 (take (nat size_limit) s @ [CHR 0x00])) (\<lambda>_.
               Inl (SlightFunctionException (''dsSizeStrcpy: Attempt to overload variable ('' @ show_int size_limit @ '')''))))"

definition dsStrndup :: "string \<Rightarrow> int \<Rightarrow> string" where
  "dsStrndup s len = take (nat len) s"

text \<open>The search looks at \<open>len + 1\<close> characters.\<close>

fun strnchr_loop :: "string \<Rightarrow> char \<Rightarrow> nat \<Rightarrow> nat \<Rightarrow> nat option res" where
  "strnchr_loop s c i 0 = Inr None"
| "strnchr_loop s c i (Suc left) =
     bindR (read_at s i) (\<lambda>x. if x = c then Inr (Some i) else strnchr_loop s c (i + 1) left)"

definition dsStrnchr :: "string \<Rightarrow> char \<Rightarrow> int \<Rightarrow> nat option res" where
  "dsStrnchr s c len = strnchr_loop s c 0 (nat (len + 1))"

definition dsStartsWith :: "string \<Rightarrow> string \<Rightarrow> bool" where
  "dsStartsWith s pre \<longleftrightarrow> take (length pre) s = pre"

definition dsEndsWith :: "string \<Rightarrow> string \<Rightarrow> bool" where
  "dsEndsWith s suf \<longleftrightarrow> length suf \<le> length s \<and> drop (length s - length suf) s = suf"

definition dsMemdup :: "bytes \<Rightarrow> nat \<Rightarrow> bytes res" where
  "dsMemdup s n = read_range s 0 n"

definition dsZalloc :: "nat \<Rightarrow> bytes" where
  "dsZalloc n = replicate (n + 1) 0"

section \<open>Base64\<close>

abbreviation XX :: u8 where "XX \<equiv> 0xFE"
abbreviation ES :: u8 where "ES \<equiv> 0xFD"

definition index_64 :: "u8 list" where
  "index_64 =
     [
      XX, XX, XX, XX, XX, XX, XX, XX, XX, XX, XX, XX, XX, XX, XX, XX,
      XX, XX, XX, XX, XX, XX, XX, XX, XX, XX, XX, XX, XX, XX, XX, XX,
      XX, XX, XX, XX, XX, XX, XX, XX, XX, XX, XX, 62, XX, XX, XX, 63,
      52, 53, 54, 55, 56, 57, 58, 59, 60, 61, XX, XX, XX, ES, XX, XX,
      XX, 0, 1, 2, 3, 4, 5, 6, 7, 8, 9, 10, 11, 12, 13, 14,
      15, 16, 17, 18, 19, 20, 21, 22, 23, 24, 25, XX, XX, XX, XX, XX,
      XX, 26, 27, 28, 29, 30, 31, 32, 33, 34, 35, 36, 37, 38, 39, 40,
      41, 42, 43, 44, 45, 46, 47, 48, 49, 50, 51, XX, XX, XX, XX, XX] @ replicate 128 XX"

definition CHAR64 :: "u8 \<Rightarrow> u8" where
  "CHAR64 c = index_64 ! unat c"

text \<open>The next code: positions before \<open>e\<close> that hold no code are skipped; the read may be at \<open>e\<close>.\<close>

function next64 :: "bytes \<Rightarrow> nat \<Rightarrow> nat \<Rightarrow> (u8 \<times> nat) res" where
  "next64 buf e s =
     bindR (read_at buf s) (\<lambda>b.
     if s < e \<and> CHAR64 b = XX then next64 buf e (s + 1) else Inr (CHAR64 b, s + 1))"
  by pat_completeness auto
termination
  by (relation "measure (\<lambda>(_, e, s). e - s)") auto

declare next64.simps [simp del]

lemma next64_advances: "next64 buf e s = Inr (c, s') \<Longrightarrow> s < s'"
proof (induction buf e s rule: next64.induct)
  case (1 buf e s)
  then show ?case by (subst (asm) (2) next64.simps) (auto split: if_splits)
qed

function decode64_loop :: "bytes \<Rightarrow> nat \<Rightarrow> nat \<Rightarrow> bytes \<Rightarrow> bytes res" where
  "decode64_loop buf e s out =
     (if s < e then
        bindR (next64 buf e s) (\<lambda>(c1, s1).
        bindR (next64 buf e s1) (\<lambda>(c2, s2).
        bindR (next64 buf e s2) (\<lambda>(c3, s3).
        bindR (next64 buf e s3) (\<lambda>(c4, s4).
        if c1 = ES \<or> c2 = ES then Inr out
        else
          let out = out @ [push_bit 2 c1 OR drop_bit 4 (c2 AND 0x30)] in
          if c3 = ES then Inr out
          else
            let out = out @ [push_bit 4 (c2 AND 0x0F) OR drop_bit 2 (c3 AND 0x3C)] in
            if c4 = ES then Inr out
            else decode64_loop buf e s4 (out @ [push_bit 6 (c3 AND 0x03) OR c4])))))
      else Inr out)"
  by pat_completeness auto
termination
  by (relation "measure (\<lambda>(_, e, s, _). e - s)") (auto dest!: next64_advances)

declare decode64_loop.simps [simp del]

definition dsDecodeBase64 :: "bytes \<Rightarrow> nat \<Rightarrow> bytes res" where
  "dsDecodeBase64 ptr len = decode64_loop ptr len 0 []"

text \<open>Into an array of \<open>cap\<close> bytes; the length given back is one less than the bytes written.\<close>

definition dsDecodeBase64_buf :: "nat \<Rightarrow> bytes \<Rightarrow> nat \<Rightarrow> (bytes \<times> int) res" where
  "dsDecodeBase64_buf cap ptr len =
     bindR (decode64_loop ptr len 0 []) (\<lambda>out. if length out > cap then Inl MemFault else Inr (out, int (length out) - 1))"

definition dtable :: bytes where
  "dtable = bytes_of_string ''ABCDEFGHIJKLMNOPQRSTUVWXYZabcdefghijklmnopqrstuvwxyz0123456789+/''"

text \<open>The group at \<open>s\<close>: up to three bytes before a null byte.\<close>

fun group3 :: "bytes \<Rightarrow> nat \<Rightarrow> nat \<Rightarrow> bytes res" where
  "group3 buf s 0 = Inr []"
| "group3 buf s (Suc left) =
     bindR (read_at buf s) (\<lambda>b. if b = 0 then Inr [] else bindR (group3 buf (s + 1) left) (\<lambda>bs. Inr (b # bs)))"

definition encode_group :: "bytes \<Rightarrow> bytes" where
  "encode_group g =
     (let ig = (\<lambda>i. if i < length g then g ! i else 0) in
      [dtable ! unat (drop_bit 2 (ig 0)),
       dtable ! unat (push_bit 4 (ig 0 AND 3) OR drop_bit 4 (ig 1)),
       (if length g > 1 then dtable ! unat (push_bit 2 (ig 1 AND 0xF) OR drop_bit 6 (ig 2)) else 0x3D),
       (if length g > 2 then dtable ! unat (ig 2 AND 0x3F) else 0x3D)])"

text \<open>The loop ends at \<open>eptr\<close>, at a null byte, or by leaving the buffer.\<close>

function encode64_loop :: "bytes \<Rightarrow> nat \<Rightarrow> nat \<Rightarrow> bytes res" where
  "encode64_loop buf e s =
     (if s = e then Inr []
      else
        bindR (group3 buf s 3) (\<lambda>g.
        if length g < 3 then Inr (encode_group g)
        else bindR (encode64_loop buf e (s + 3)) (\<lambda>r. Inr (encode_group g @ r))))"
  by pat_completeness auto
termination
  by (relation "measure (\<lambda>(buf, e, s). length buf - s)") (auto simp: read_at_def numeral_3_eq_3 split: if_splits)

declare encode64_loop.simps [simp del]

definition dsEncodeBase64 :: "bytes \<Rightarrow> nat \<Rightarrow> bytes res" where
  "dsEncodeBase64 src len = encode64_loop src len 0"

section \<open>Hexadecimal and quoted printable\<close>

text \<open>\<open>char\<close> is signed, so that bytes from 128 on compare below the digit nine.\<close>

definition hex_value :: "u8 \<Rightarrow> u8" where
  "hex_value b = (if sint b \<le> 57 then b - 48 else b - 65 + 10)"

function hex_loop :: "bytes \<Rightarrow> nat \<Rightarrow> nat \<Rightarrow> bytes res" where
  "hex_loop buf e s =
     (if s < e then
        bindR (read_at buf s) (\<lambda>a. bindR (read_at buf (s + 1)) (\<lambda>b.
        bindR (hex_loop buf e (s + 2)) (\<lambda>r. Inr ((hex_value a * 16 + hex_value b) # r))))
      else Inr [])"
  by pat_completeness auto
termination
  by (relation "measure (\<lambda>(_, e, s). e - s)") auto

declare hex_loop.simps [simp del]

definition dsDecodeHex :: "bytes \<Rightarrow> nat \<Rightarrow> bytes res" where
  "dsDecodeHex ptr len = hex_loop ptr len 0"

definition dsDecodeHex_buf :: "nat \<Rightarrow> bytes \<Rightarrow> nat \<Rightarrow> bytes res" where
  "dsDecodeHex_buf cap ptr len =
     bindR (hex_loop ptr len 0) (\<lambda>out. if length out + 1 > cap then Inl MemFault else Inr (out @ [0]))"

definition hex_char :: "u8 \<Rightarrow> u8" where
  "hex_char d = (if d \<ge> 10 then d - 10 + 65 else d + 48)"

definition dsEncodeHex :: "bytes \<Rightarrow> nat \<Rightarrow> bytes res" where
  "dsEncodeHex ptr len =
     bindR (read_range ptr 0 len) (\<lambda>bs. Inr (concat (map (\<lambda>b. [hex_char (drop_bit 4 b AND 0xF), hex_char (b AND 0xF)]) bs)))"

function decodeQ_loop :: "bytes \<Rightarrow> nat \<Rightarrow> nat \<Rightarrow> bytes res" where
  "decodeQ_loop buf e s =
     (if s < e then
        bindR (read_at buf s) (\<lambda>c.
        if c = 0x3D then
          bindR (read_at buf (s + 1)) (\<lambda>a.
          if a = 0x0A then decodeQ_loop buf e (s + 2)
          else bindR (read_at buf (s + 2)) (\<lambda>b.
               bindR (decodeQ_loop buf e (s + 3)) (\<lambda>r. Inr ((hex_value a * 16 + hex_value b) # r))))
        else bindR (decodeQ_loop buf e (s + 1)) (\<lambda>r. Inr ((if c = 0x5F then 0x20 else c) # r)))
      else Inr [])"
  by pat_completeness auto
termination
  by (relation "measure (\<lambda>(_, e, s). e - s)") auto

declare decodeQ_loop.simps [simp del]

definition dsDecodeQ :: "bytes \<Rightarrow> nat \<Rightarrow> bytes res" where
  "dsDecodeQ ptr len = decodeQ_loop ptr len 0"

definition dsDecodeQ_buf :: "nat \<Rightarrow> bytes \<Rightarrow> nat \<Rightarrow> (bytes \<times> int) res" where
  "dsDecodeQ_buf cap ptr len =
     bindR (decodeQ_loop ptr len 0) (\<lambda>out. if length out > cap then Inl MemFault else Inr (out, int (length out) - 1))"

section \<open>Round trips\<close>

lemma byte_eqI:
  assumes "\<And>n. n \<in> {0, 1, 2, 3, 4, 5, 6, 7} \<Longrightarrow> bit v n = bit w n"
  shows "v = (w :: u8)"
proof (rule bit_word_eqI)
  fix n assume "n < LENGTH(8)"
  then have "n \<in> {0, 1, 2, 3, 4, 5, 6, 7}" by auto
  then show "bit v n = bit w n" by (rule assms)
qed

lemma base64_bits:
  fixes a b c :: u8
  shows "push_bit 2 (drop_bit 2 a) OR drop_bit 4 ((push_bit 4 (a AND 3) OR drop_bit 4 b) AND 0x30) = a"
   "push_bit 4 ((push_bit 4 (a AND 3) OR drop_bit 4 b) AND 0x0F) OR drop_bit 2 ((push_bit 2 (b AND 0xF) OR drop_bit 6 c) AND 0x3C) = b"
   "push_bit 6 ((push_bit 2 (b AND 0xF) OR drop_bit 6 c) AND 0x03) OR (c AND 0x3F) = c"
  by ((rule byte_eqI; auto simp: bit_simps bit_numeral_rec numeral_2_eq_2 [symmetric])+)

lemma base64_range: fixes a b c :: u8
  shows "unat (drop_bit 2 a) < 64" "unat (push_bit 4 (a AND 3) OR drop_bit 4 b) < 64" "unat (push_bit 2 (b AND 0xF) OR drop_bit 6 c) < 64" "unat (c AND 0x3F) < 64"
proof -
  have k: "unat w < 64" if "\<not> bit w 6" "\<not> bit w 7" for w :: u8
  proof -
    have "take_bit 6 w = w" by (rule byte_eqI) (use that in \<open>auto simp: bit_simps\<close>)
    then have "unat w = take_bit 6 (unat w)" by (metis unsigned_take_bit_eq)
    then show ?thesis using take_bit_nat_less_exp [of 6 "unat w"] by simp
  qed
  show "unat (drop_bit 2 a) < 64" "unat (push_bit 4 (a AND 3) OR drop_bit 4 b) < 64" "unat (push_bit 2 (b AND 0xF) OR drop_bit 6 c) < 64" "unat (c AND 0x3F) < 64"
    by ((rule k; auto simp: bit_simps bit_numeral_rec dest: bit_imp_le_length)+)
qed

lemma CHAR64_dtable: "x < 64 \<Longrightarrow> CHAR64 (dtable ! x) = of_nat x"
proof -
  assume "x < 64"
  moreover have "list_all (\<lambda>x. CHAR64 (dtable ! x) = of_nat x) [0..<64]" by code_simp
  ultimately show ?thesis by (simp only: list_all_iff set_upt atLeastLessThan_iff) simp
qed

lemma CHAR64_eq: "CHAR64 0x3D = ES"
  by code_simp

lemma code_bytes: "unat w < 64 \<Longrightarrow> CHAR64 (dtable ! unat w) = w" "unat w < 64 \<Longrightarrow> w \<noteq> XX \<and> w \<noteq> ES" for w :: u8
  by (auto simp: CHAR64_dtable)

lemma next64_code:
  assumes "drop s buf = x # rest" and "CHAR64 x \<noteq> XX"
  shows "next64 buf e s = Inr (CHAR64 x, s + 1) \<and> drop (s + 1) buf = rest"
  using drop_Cons_nth [OF assms(1)] assms(2) by (subst next64.simps) simp

text \<open>Base64 as RFC 4648 defines it, apart from the tables and the shifts of the code: three bytes are
  the number of 24 bits, its four digits to the base 64 are letters, numerals, \<open>+\<close> and \<open>/\<close>, and a
  last group of one or two bytes has two or three of the digits and is filled with \<open>=\<close>.\<close>

definition base64_digit :: "nat \<Rightarrow> u8" where
  "base64_digit n =
     (if n < 26 then of_nat (65 + n) else if n < 52 then of_nat (97 + (n - 26))
      else if n < 62 then of_nat (48 + (n - 52)) else if n = 62 then 43 else 47)"

definition base64_digits :: "nat \<Rightarrow> u8 \<Rightarrow> u8 \<Rightarrow> u8 \<Rightarrow> bytes" where
  "base64_digits k a b c =
     map (\<lambda>i. base64_digit ((unat a * 65536 + unat b * 256 + unat c) div 64 ^ (3 - i) mod 64)) [0..<k]"

fun base64 :: "bytes \<Rightarrow> bytes" where
  "base64 [] = []"
| "base64 [a] = base64_digits 2 a 0 0 @ [61, 61]"
| "base64 [a, b] = base64_digits 3 a b 0 @ [61]"
| "base64 (a # b # c # r) = base64_digits 4 a b c @ base64 r"

text \<open>The text of bytes in hexadecimal, two digits each.\<close>

definition hex_text :: "bytes \<Rightarrow> bytes" where
  "hex_text v = concat (map (\<lambda>b. [bytes_of_string ''0123456789ABCDEF'' ! (unat b div 16),
     bytes_of_string ''0123456789ABCDEF'' ! (unat b mod 16)]) v)"

lemma dtable_digit: "n < 64 \<Longrightarrow> dtable ! n = base64_digit n"
proof -
  assume "n < 64"
  moreover have "list_all (\<lambda>n. dtable ! n = base64_digit n) [0..<64]" by code_simp
  ultimately show ?thesis by (simp only: list_all_iff set_upt atLeastLessThan_iff) simp
qed

lemma digits_64:
  fixes x y z w :: nat
  assumes "x < 64" "y < 64" "z < 64" "w < 64" and N: "N = ((x * 64 + y) * 64 + z) * 64 + w"
  shows "N div 64 ^ 3 mod 64 = x \<and> N div 64 ^ 2 mod 64 = y \<and> N div 64 ^ 1 mod 64 = z \<and> N div 64 ^ 0 mod 64 = w"
proof -
  have d: "(v * 64 + u) div 64 = v" "(v * 64 + u) mod 64 = u" if "u < 64" for u v :: nat
    using that by simp_all
  have "N div 64 = (x * 64 + y) * 64 + z" "N div 64 div 64 = x * 64 + y" "N div 64 div 64 div 64 = x"
    unfolding N by (simp_all only: d assms)
  moreover have "N div 64 ^ 3 = N div 64 div 64 div 64" "N div 64 ^ 2 = N div 64 div 64"
    by (simp_all add: numeral_3_eq_3 numeral_2_eq_2 div_mult2_eq)
  ultimately show ?thesis
    using d(2) [OF assms(4), of "(x * 64 + y) * 64 + z"] d(2) [OF assms(3), of "x * 64 + y"] d(2) [OF assms(2), of x] assms(1)
    unfolding N by (simp only: power_one_right power_0 div_by_1 mod_less simp_thms)
qed

lemma unat_byte: "unat w < 256" for w :: u8
  using unsigned_less [of w, where ?'a = nat] by simp

text \<open>The low \<open>m\<close> bits of one byte before the high \<open>k\<close> bits of the next.\<close>

lemma unat_byte_parts:
  fixes a b :: u8
  assumes "k + m \<le> 8"
  shows "unat (push_bit k (take_bit m a) OR drop_bit (8 - k) b) = unat a mod 2 ^ m * 2 ^ k + unat b div 2 ^ (8 - k)"
proof -
  let ?n = "unat a mod 2 ^ m * 2 ^ k + unat b div 2 ^ (8 - k)"
  have 0: "push_bit k (take_bit m a) OR drop_bit (8 - k) b = push_bit k (take_bit m a) + drop_bit (8 - k) b"
    by (rule word_OR_add) (use assms in \<open>auto simp: bit_simps dest: bit_imp_le_length\<close>)
  have 1: "push_bit k (take_bit m a) = of_nat (unat a mod 2 ^ m * 2 ^ k)"
    by (simp add: push_bit_eq_mult of_nat_mult flip: take_bit_eq_mod) (simp add: of_nat_take_bit)
  have 2: "drop_bit (8 - k) b = of_nat (unat b div 2 ^ (8 - k))"
  proof -
    have "unat b div 2 ^ (8 - k) < 256"
      using unat_byte [of b] div_le_dividend [of "unat b" "2 ^ (8 - k)"] by linarith
    then show ?thesis
      using unat_byte [of b] unfolding word_unat_eq_iff unsigned_drop_bit_eq
      by (simp add: drop_bit_eq_div unat_of_nat take_bit_eq_mod)
  qed
  have "push_bit k (take_bit m a) OR drop_bit (8 - k) b = of_nat ?n" unfolding 0 by (simp only: 1 2 of_nat_add)
  moreover have "?n < 256"
  proof -
    have "unat b div 2 ^ (8 - k) < 2 ^ k"
      using unat_byte [of b] assms by (intro div_less_iff_less_mult [THEN iffD2]) (simp_all flip: power_add)
    moreover have "(unat a mod 2 ^ m + 1) * 2 ^ k \<le> 2 ^ m * 2 ^ k"
      by (intro mult_right_mono) (simp_all add: Suc_leI)
    moreover have "(2 :: nat) ^ m * 2 ^ k \<le> 2 ^ 8"
      using assms by (simp only: power_add [symmetric]) (rule power_increasing, simp_all)
    ultimately show ?thesis by simp
  qed
  ultimately show ?thesis by (simp only: unat_of_nat) simp
qed

lemma group_bits:
  fixes a b c :: u8
  shows "unat (drop_bit 2 a) = unat a div 4"
    and "unat (push_bit 4 (a AND 3) OR drop_bit 4 b) = unat a mod 4 * 16 + unat b div 16"
    and "unat (push_bit 2 (b AND 0xF) OR drop_bit 6 c) = unat b mod 16 * 4 + unat c div 64"
    and "unat (c AND 0x3F) = unat c mod 64"
proof -
  have m: "w AND 3 = take_bit 2 w" "w AND 0xF = take_bit 4 w" "w AND 0x3F = take_bit 6 w" for w :: u8
    by (simp_all add: take_bit_eq_mask mask_eq_exp_minus_1)
  show "unat (push_bit 4 (a AND 3) OR drop_bit 4 b) = unat a mod 4 * 16 + unat b div 16"
    using unat_byte_parts [of 4 2 a b] by (simp only: m) simp
  show "unat (push_bit 2 (b AND 0xF) OR drop_bit 6 c) = unat b mod 16 * 4 + unat c div 64"
    using unat_byte_parts [of 2 4 b c] by (simp only: m) simp
  show "unat (drop_bit 2 a) = unat a div 4" using unat_byte_parts [of 6 0 0 a] by simp
  show "unat (c AND 0x3F) = unat c mod 64" using unat_byte_parts [of 0 6 c 0] by (simp only: m) simp
qed

lemma group_number:
  fixes q r t u v w :: nat
  shows "(q * 4 + r) * 65536 + (t * 16 + u) * 256 + (v * 64 + w) = ((q * 64 + (r * 16 + t)) * 64 + (u * 4 + v)) * 64 + w"
  by simp

lemma base64_digits_code:
  "base64_digits 4 a b c = [dtable ! unat (drop_bit 2 a), dtable ! unat (push_bit 4 (a AND 3) OR drop_bit 4 b),
     dtable ! unat (push_bit 2 (b AND 0xF) OR drop_bit 6 c), dtable ! unat (c AND 0x3F)]"
proof -
  let ?N = "unat a * 65536 + unat b * 256 + unat c"
  have N: "?N = ((unat (drop_bit 2 a) * 64 + unat (push_bit 4 (a AND 3) OR drop_bit 4 b)) * 64
     + unat (push_bit 2 (b AND 0xF) OR drop_bit 6 c)) * 64 + unat (c AND 0x3F)"
    unfolding group_bits
    using group_number [of "unat a div 4" "unat a mod 4" "unat b div 16" "unat b mod 16" "unat c div 64" "unat c mod 64"]
    by (simp only: div_mult_mod_eq)
  note d = digits_64 [OF base64_range(1) base64_range(2) base64_range(3) base64_range(4) N]
  have "base64_digits 4 a b c
     = [base64_digit (?N div 64 ^ 3 mod 64), base64_digit (?N div 64 ^ 2 mod 64), base64_digit (?N div 64 ^ 1 mod 64), base64_digit (?N div 64 ^ 0 mod 64)]"
    by (simp add: base64_digits_def upt_rec)
  then show ?thesis
    by (simp only: d [THEN conjunct1] d [THEN conjunct2, THEN conjunct1] d [THEN conjunct2, THEN conjunct2, THEN conjunct1]
        d [THEN conjunct2, THEN conjunct2, THEN conjunct2] dtable_digit [OF base64_range(1)] dtable_digit [OF base64_range(2)]
        dtable_digit [OF base64_range(3)] dtable_digit [OF base64_range(4)])
qed

lemma base64_group: "encode_group [a, b, c] = base64_digits 4 a b c"
   "encode_group [a, b] = base64_digits 3 a b 0 @ [61]" "encode_group [a] = base64_digits 2 a 0 0 @ [61, 61]"
proof -
  have t: "base64_digits 3 x y z = take 3 (base64_digits 4 x y z)" "base64_digits 2 x y z = take 2 (base64_digits 4 x y z)" for x y z
    by (simp_all only: base64_digits_def take_map) (simp_all add: upt_rec)
  show "encode_group [a, b, c] = base64_digits 4 a b c"
    by (simp add: base64_digits_code encode_group_def Let_def)
  show "encode_group [a, b] = base64_digits 3 a b 0 @ [61]" "encode_group [a] = base64_digits 2 a 0 0 @ [61, 61]"
    unfolding t by (simp_all add: base64_digits_code encode_group_def Let_def numeral_3_eq_3 numeral_2_eq_2)
qed

text \<open>What the loops need of \<open>base64\<close>: its groups are the code's.\<close>

lemma base64_groups: "base64 [a] = encode_group [a]" "base64 [a, b] = encode_group [a, b]"
   "base64 (a # b # c # r) = encode_group [a, b, c] @ base64 r"
  by (simp_all only: base64.simps base64_group)

declare base64.simps(2-4) [simp del]
declare base64_groups [simp]

lemma encode_group_codes:
  obtains c1 c2 c3 c4 where "unat c1 < 64" "unat c2 < 64" "unat c3 < 64" "unat c4 < 64"
    and "encode_group [a, b, c] = [dtable ! unat c1, dtable ! unat c2, dtable ! unat c3, dtable ! unat c4]"
    and "push_bit 2 c1 OR drop_bit 4 (c2 AND 0x30) = a" "push_bit 4 (c2 AND 0x0F) OR drop_bit 2 (c3 AND 0x3C) = b"
    and "push_bit 6 (c3 AND 0x03) OR c4 = c"
    and "c = 0 \<Longrightarrow> encode_group [a, b] = [dtable ! unat c1, dtable ! unat c2, dtable ! unat c3, 0x3D]"
    and "b = 0 \<Longrightarrow> encode_group [a] = [dtable ! unat c1, dtable ! unat c2, 0x3D, 0x3D]"
proof
  show "encode_group [a, b, c] = [dtable ! unat (drop_bit 2 a), dtable ! unat (push_bit 4 (a AND 3) OR drop_bit 4 b),
     dtable ! unat (push_bit 2 (b AND 0xF) OR drop_bit 6 c), dtable ! unat (c AND 0x3F)]"
    by (simp add: encode_group_def Let_def)
  show "encode_group [a, b] = [dtable ! unat (drop_bit 2 a), dtable ! unat (push_bit 4 (a AND 3) OR drop_bit 4 b),
     dtable ! unat (push_bit 2 (b AND 0xF) OR drop_bit 6 c), 0x3D]" if "c = 0"
    using that by (simp add: encode_group_def Let_def)
  show "encode_group [a] = [dtable ! unat (drop_bit 2 a), dtable ! unat (push_bit 4 (a AND 3) OR drop_bit 4 b), 0x3D, 0x3D]" if "b = 0"
    using that by (simp add: encode_group_def Let_def)
qed (rule base64_range base64_bits)+

lemma length_encode_group [simp]: "length (encode_group g) = 4"
  by (simp add: encode_group_def Let_def)

lemma encode64_loop_eq:
  assumes "0 \<notin> set w" and "drop s buf = w @ 0 # rest" and "s + length w = e"
  shows "encode64_loop buf e s = Inr (base64 w)"
  using assms
proof (induction w arbitrary: s rule: base64.induct)
  case 1
  then show ?case by (simp add: encode64_loop.simps)
next
  case (2 a)
  then have "drop s buf = a # 0 # rest" by simp
  note d = drop_Cons_nth [OF this]
  note d2 = drop_Cons_nth [OF d(3)]
  show ?case
    using 2 d d2 by (subst encode64_loop.simps) (simp add: numeral_3_eq_3)
next
  case (3 a b)
  then have "drop s buf = a # b # 0 # rest" by simp
  note d = drop_Cons_nth [OF this]
  note d2 = drop_Cons_nth [OF d(3)]
  note d3 = drop_Cons_nth [OF d2(3)]
  show ?case
    using 3 d d2 d3 by (subst encode64_loop.simps) (simp add: numeral_3_eq_3)
next
  case (4 a b c r)
  then have "drop s buf = a # b # c # r @ 0 # rest" by simp
  note d = drop_Cons_nth [OF this]
  note d2 = drop_Cons_nth [OF d(3)]
  note d3 = drop_Cons_nth [OF d2(3)]
  have "encode64_loop buf e (s + 3) = Inr (base64 r)"
    using 4 d3(3) by (intro "4.IH") (simp_all add: numeral_3_eq_3)
  then show ?case
    using 4 d d2 d3 by (subst encode64_loop.simps) (simp add: numeral_3_eq_3)
qed

lemma decode64_group:
  assumes "drop s buf = x1 # x2 # x3 # x4 # rest" and "s < e"
    and "CHAR64 x1 \<noteq> XX" "CHAR64 x2 \<noteq> XX" "CHAR64 x3 \<noteq> XX" "CHAR64 x4 \<noteq> XX"
  shows "decode64_loop buf e s out =
    (let c1 = CHAR64 x1; c2 = CHAR64 x2; c3 = CHAR64 x3; c4 = CHAR64 x4 in
     if c1 = ES \<or> c2 = ES then Inr out
     else
       let out = out @ [push_bit 2 c1 OR drop_bit 4 (c2 AND 0x30)] in
       if c3 = ES then Inr out
       else
         let out = out @ [push_bit 4 (c2 AND 0x0F) OR drop_bit 2 (c3 AND 0x3C)] in
         if c4 = ES then Inr out
         else decode64_loop buf e (s + 4) (out @ [push_bit 6 (c3 AND 0x03) OR c4]))
    \<and> drop (s + 4) buf = rest"
proof -
  from next64_code [OF assms(1,3), of e] have n1: "next64 buf e s = Inr (CHAR64 x1, s + 1)" "drop (s + 1) buf = x2 # x3 # x4 # rest" by auto
  from next64_code [OF n1(2) assms(4), of e] have n2: "next64 buf e (s + 1) = Inr (CHAR64 x2, s + 2)" "drop (s + 2) buf = x3 # x4 # rest" by auto
  from next64_code [OF n2(2) assms(5), of e] have n3: "next64 buf e (s + 2) = Inr (CHAR64 x3, s + 3)" "drop (s + 3) buf = x4 # rest"
    by (auto simp: numeral_3_eq_3)
  from next64_code [OF n3(2) assms(6), of e] have n4: "next64 buf e (s + 3) = Inr (CHAR64 x4, s + 4)" "drop (s + 4) buf = rest"
    by (auto simp: add.commute)
  show ?thesis
    using assms(2) n4(2)
    by (subst decode64_loop.simps) (simp only: if_True n1(1) n2(1) n3(1) n4(1) bindR.simps prod.case Let_def simp_thms)
qed

lemma decode64_loop_eq:
  assumes "drop s buf = base64 w @ rest" and "e = s + length (base64 w)"
  shows "decode64_loop buf e s out = Inr (out @ w)"
  using assms
proof (induction w arbitrary: s out rule: base64.induct)
  case 1
  then show ?case by (simp add: decode64_loop.simps)
next
  case (2 a)
  obtain c1 c2 where c: "unat c1 < 64" "unat c2 < 64" "encode_group [a] = [dtable ! unat c1, dtable ! unat c2, 0x3D, 0x3D]"
    and a: "push_bit 2 c1 OR drop_bit 4 (c2 AND 0x30) = a" by (metis encode_group_codes)
  from decode64_group [of s buf _ _ _ _ rest e out] 2 c a show ?case
    by (simp add: code_bytes CHAR64_eq Let_def)
next
  case (3 a b)
  obtain c1 c2 c3 where c: "unat c1 < 64" "unat c2 < 64" "unat c3 < 64"
      "encode_group [a, b] = [dtable ! unat c1, dtable ! unat c2, dtable ! unat c3, 0x3D]"
    and a: "push_bit 2 c1 OR drop_bit 4 (c2 AND 0x30) = a" "push_bit 4 (c2 AND 0x0F) OR drop_bit 2 (c3 AND 0x3C) = b"
    by (metis encode_group_codes)
  from decode64_group [of s buf _ _ _ _ rest e out] 3 c a show ?case
    by (simp add: code_bytes CHAR64_eq Let_def)
next
  case (4 a b c r)
  obtain c1 c2 c3 c4 where c: "unat c1 < 64" "unat c2 < 64" "unat c3 < 64" "unat c4 < 64"
      "encode_group [a, b, c] = [dtable ! unat c1, dtable ! unat c2, dtable ! unat c3, dtable ! unat c4]"
    and a: "push_bit 2 c1 OR drop_bit 4 (c2 AND 0x30) = a" "push_bit 4 (c2 AND 0x0F) OR drop_bit 2 (c3 AND 0x3C) = b"
      "push_bit 6 (c3 AND 0x03) OR c4 = c"
    by (metis encode_group_codes)
  from "4.prems" have d: "drop s buf = encode_group [a, b, c] @ base64 r @ rest" and e: "e = s + 4 + length (base64 r)"
    by simp_all
  from decode64_group [of s buf _ _ _ _ "base64 r @ rest" e out] d e c a
  have "decode64_loop buf e s out = decode64_loop buf e (s + 4) (out @ [a, b, c])" "drop (s + 4) buf = base64 r @ rest"
    by (simp_all add: code_bytes Let_def)
  then show ?case using "4.IH" [of "s + 4" "out @ [a, b, c]"] e by simp
qed

lemma hex_value_char: "hex_value (hex_char (drop_bit 4 b AND 0xF)) * 16 + hex_value (hex_char (b AND 0xF)) = (b :: u8)"
proof -
  have "list_all (\<lambda>n. let b = of_nat n :: u8 in hex_value (hex_char (drop_bit 4 b AND 0xF)) * 16 + hex_value (hex_char (b AND 0xF)) = b) [0..<256]"
    by code_simp
  moreover have "unat b \<in> set [0..<256]" using unsigned_less [of b, where ?'a = nat] by simp
  moreover have "of_nat (unat b) = b" by simp
  ultimately show ?thesis unfolding list_all_iff Let_def by metis
qed

lemma hex_loop_eq:
  assumes "drop s buf = concat (map (\<lambda>b. [hex_char (drop_bit 4 b AND 0xF), hex_char (b AND 0xF)]) w) @ rest"
    and "e = s + 2 * length w"
  shows "hex_loop buf e s = Inr w"
  using assms
proof (induction w arbitrary: s)
  case Nil
  then show ?case by (simp add: hex_loop.simps)
next
  case (Cons b w)
  then have "drop s buf = hex_char (drop_bit 4 b AND 0xF) # hex_char (b AND 0xF)
      # concat (map (\<lambda>b. [hex_char (drop_bit 4 b AND 0xF), hex_char (b AND 0xF)]) w) @ rest" by simp
  note d = drop_Cons_nth [OF this]
  note d2 = drop_Cons_nth [OF d(3)]
  have "hex_loop buf e (s + 2) = Inr w" using Cons d2(3) by (intro Cons.IH) simp_all
  then show ?case using Cons.prems(2) d d2 hex_value_char [of b] by (subst hex_loop.simps) simp
qed

lemma hex_char_digit: "n < 16 \<Longrightarrow> hex_char (of_nat n) = bytes_of_string ''0123456789ABCDEF'' ! n"
proof -
  assume "n < 16"
  moreover have "list_all (\<lambda>n. hex_char (of_nat n) = bytes_of_string ''0123456789ABCDEF'' ! n) [0..<16]" by code_simp
  ultimately show ?thesis by (simp only: list_all_iff set_upt atLeastLessThan_iff) simp
qed

lemma hex_chars: "hex_char (drop_bit 4 b AND 0xF) = bytes_of_string ''0123456789ABCDEF'' ! (unat b div 16)"
   "hex_char (b AND 0xF) = bytes_of_string ''0123456789ABCDEF'' ! (unat b mod 16)"
proof -
  have "drop_bit 4 b AND 0xF = take_bit 4 (drop_bit 4 b)" "b AND 0xF = take_bit 4 b"
    by (simp_all add: take_bit_eq_mask mask_eq_exp_minus_1)
  moreover have "take_bit 4 (drop_bit 4 b) = drop_bit 4 b"
    by (rule bit_word_eqI) (auto simp: bit_simps dest: bit_imp_le_length)
  moreover have "unat (drop_bit 4 b) = unat b div 16" "unat (take_bit 4 b) = unat b mod 16"
    using unat_byte_parts [of 4 0 0 b] unat_byte_parts [of 0 4 b 0] by simp_all
  ultimately have "drop_bit 4 b AND 0xF = of_nat (unat b div 16)" "b AND 0xF = of_nat (unat b mod 16)"
    by (metis of_nat_unat ucast_id)+
  then show "hex_char (drop_bit 4 b AND 0xF) = bytes_of_string ''0123456789ABCDEF'' ! (unat b div 16)"
     "hex_char (b AND 0xF) = bytes_of_string ''0123456789ABCDEF'' ! (unat b mod 16)"
    using hex_char_digit [of "unat b div 16"] hex_char_digit [of "unat b mod 16"] unat_byte [of b] by simp_all
qed

text \<open>C28 The conversions are those of RFC 4648 and inverse to each other. A text without null bytes is
  encoded as its base64 and decoded from it, and any bytes are written as their hexadecimal digits
  and read from them. The reference texts \<open>base64\<close> and \<open>hex_text\<close> are defined by arithmetic, apart
  from the code's tables. The decoder into an array gives back a length that is one too small, and a
  source with a null byte is excluded: the encoder stops there.\<close>

theorem codec_roundtrips:
  assumes "0 \<notin> set w" and "length w \<le> cap"
  shows "dsEncodeBase64 (w @ [0]) (length w) = Inr (base64 w)
    \<and> dsDecodeBase64 (base64 w) (length (base64 w)) = Inr w
    \<and> dsDecodeBase64_buf cap (base64 w) (length (base64 w)) = Inr (w, int (length w) - 1)
    \<and> (\<forall>v. dsEncodeHex v (length v) = Inr (hex_text v) \<and> length (hex_text v) = 2 * length v
          \<and> dsDecodeHex (hex_text v) (length (hex_text v)) = Inr v)"
proof (intro conjI allI)
  show "dsEncodeBase64 (w @ [0]) (length w) = Inr (base64 w)"
    using encode64_loop_eq [OF assms(1), of 0 "w @ [0]" "[]"] by (simp add: dsEncodeBase64_def)
  have d: "decode64_loop (base64 w) (length (base64 w)) 0 [] = Inr w"
    using decode64_loop_eq [of 0 "base64 w" w "[]" _ "[]"] by simp
  then show "dsDecodeBase64 (base64 w) (length (base64 w)) = Inr w"
    and "dsDecodeBase64_buf cap (base64 w) (length (base64 w)) = Inr (w, int (length w) - 1)"
    using assms(2) by (simp_all add: dsDecodeBase64_def dsDecodeBase64_buf_def)
  fix v :: bytes
  let ?h = "concat (map (\<lambda>b. [hex_char (drop_bit 4 b AND 0xF), hex_char (b AND 0xF)]) v)"
  have h: "?h = hex_text v"
    unfolding hex_text_def by (intro arg_cong [of _ _ concat] map_cong refl arg_cong2 [of _ _ _ _ "\<lambda>x y. [x, y]"] hex_chars)
  show l: "length (hex_text v) = 2 * length v" unfolding h [symmetric] by (induction v) simp_all
  show "dsEncodeHex v (length v) = Inr (hex_text v)" by (simp add: dsEncodeHex_def h)
  show "dsDecodeHex (hex_text v) (length (hex_text v)) = Inr v"
    using hex_loop_eq [of 0 "hex_text v" v "[]"] l by (simp add: dsDecodeHex_def h)
qed

theorem codec_roundtrips_witness:
  "dsEncodeBase64 ([104, 101, 108, 108, 111] @ [0]) (length [104, 101, 108, 108, 111 :: u8]) = Inr (bytes_of_string ''aGVsbG8='')
   \<and> dsDecodeBase64_buf 5 (bytes_of_string ''aGVsbG8='') (length ''aGVsbG8='') = Inr ([104, 101, 108, 108, 111], 4)"
proof -
  have "base64 [104, 101, 108, 108, 111] = bytes_of_string ''aGVsbG8=''"
    by (simp del: base64_groups add: base64.simps base64_digits_def base64_digit_def upt_rec)
  then show ?thesis using codec_roundtrips [of "[104, 101, 108, 108, 111]" 5] by (simp del: base64_groups)
qed

end
