(* ===== verification/SubnetsLoad.thy ===== *)
theory SubnetsLoad
  imports Subnets SlightFunctions ApprcProps
begin

text \<open>
  \<open>Subnets::load\<close> of \<open>src/src/tools/subnets.cxx\<close>: the subnets and the global record are read from
  the configuration. The keys are visited in the order of the table.
\<close>

section \<open>Loading\<close>

definition rc_ip :: "dsApprc \<Rightarrow> string \<Rightarrow> IPAddress res" where
  "rc_ip rc key = bindR (getstring rc key) IPAddress_s"

definition load_global :: "dsApprc \<Rightarrow> Subnet res" where
  "load_global rc =
     bindR (getstring rc ''global-domain-name'') (\<lambda>dom.
     bindR (rc_ip rc ''global-server-addr'') (\<lambda>a.
     bindR (rc_ip rc ''global-server-netmask'') (\<lambda>m.
     bindR (getint rc ''global-lease-time'') (\<lambda>lease.
     bindR (getint rc ''global-renew-time'') (\<lambda>renew.
     let lt = of_int lease :: u32; rt = of_int renew :: u32 in
     if rt > lt then
       Inl (SubnetException (''Renew time '' @ show_int (sint rt) @ '' should be less or equal than lease_time '' @ show_int (sint lt)))
     else
       Inr (Subnet_new\<lparr>domain_name := Some dom, addr := a, netmask := m, lease_time := Some lt, renew_time := Some rt,
              broadcast := IPAddress_u (get_ip_broadcast (ip_u_addr a) (ip_u_addr m))\<rparr>))))))"

definition is_subnet_key :: "string \<Rightarrow> bool" where
  "is_subnet_key key \<longleftrightarrow> dsStartsWith key ''subnet-'' \<and> dsEndsWith key ''-addr''"

definition subnet_name :: "string \<Rightarrow> string" where
  "subnet_name key = dsStrndup (drop 7 key) (int (length key) - 7 - 5)"

text \<open>The second name server: of the subnet, else the global one, else none.\<close>

definition load_nameserver2 :: "dsApprc \<Rightarrow> IPAddress res" where
  "load_nameserver2 rc =
     bindR (has_key rc ''-nameserver2'') (\<lambda>b.
     if b then rc_ip rc ''-nameserver2''
     else
       bindR (has_key rc ''global-nameserver2'') (\<lambda>b.
       if b then rc_ip rc ''global-nameserver2'' else Inr IPAddress_none))"

definition load_range :: "dsApprc \<Rightarrow> Subnet \<Rightarrow> Subnet res" where
  "load_range rc sub =
     bindR (has_key rc ''-range-start'') (\<lambda>b.
     if \<not> b then Inr sub
     else
       bindR (rc_ip rc ''-range-start'') (\<lambda>rs.
       bindR (rc_ip rc ''-range-end'') (\<lambda>re.
       let sub = sub\<lparr>range_start := rs, range_end := re\<rparr> in
       if \<not> myaddress sub rs \<or> \<not> myaddress sub re then Inl (SubnetException ''IP addresses range is out of subnet'')
       else Inr sub)))"

text \<open>The body of the loop for a subnet key: the configuration comes back with the name popped.\<close>

definition load_subnet :: "dsApprc \<Rightarrow> string \<Rightarrow> (dsApprc \<times> Subnet) res" where
  "load_subnet rc key =
     (let name = subnet_name key in
      bindR (rc_push rc name) (\<lambda>rc.
      bindR (rc_ip rc ''-addr'') (\<lambda>a.
      bindR (rc_ip rc ''-netmask'') (\<lambda>m.
      bindR (rc_ip rc ''-gateway'') (\<lambda>g.
      bindR (getstring rc ''global-nameserver1'') (\<lambda>ns.
      bindR (getstring_default rc ''-nameserver1'' ns) (\<lambda>ns.
      bindR (IPAddress_s ns) (\<lambda>n1.
      bindR (load_nameserver2 rc) (\<lambda>n2.
      bindR (load_range rc (Subnet_new\<lparr>sub_name := Some name, addr := a, netmask := m,
               broadcast := IPAddress_u (get_ip_broadcast (ip_u_addr a) (ip_u_addr m)),
               gateway := g, nameserver1 := n1, nameserver2 := n2\<rparr>)) (\<lambda>sub.
      bindR (rc_pop rc) (\<lambda>rc. Inr (rc, sub))))))))))))"

text \<open>\<open>linked\<close> tells whether \<open>prev\<close> is set: a second call finds \<open>_subnets\<close> set and \<open>prev\<close> null.\<close>

fun load_keys :: "dsApprc \<Rightarrow> Subnet list \<Rightarrow> bool \<Rightarrow> int list \<Rightarrow> (dsApprc \<times> Subnet list) res" where
  "load_keys rc subs linked [] = Inr (rc, subs)"
| "load_keys rc subs linked (i # is) =
     bindR (rc_walk rc i) (\<lambda>key.
     case key of
       None \<Rightarrow> load_keys rc subs linked is
     | Some k \<Rightarrow>
         if is_subnet_key k then
           bindR (load_subnet rc k) (\<lambda>(rc, sub).
           if subs \<noteq> [] \<and> \<not> linked then Inl MemFault else load_keys rc (subs @ [sub]) True is)
         else load_keys rc subs linked is)"

definition subnets_load :: "dsApprc \<Rightarrow> Subnets \<Rightarrow> (dsApprc \<times> Subnets) res" where
  "subnets_load rc sn =
     (let n = walk_size rc in
      bindR (load_global rc) (\<lambda>g.
      bindR (rc_push rc ''subnet'') (\<lambda>rc.
      bindR (load_keys rc (subnets sn) False [0..n - 1]) (\<lambda>(rc, subs).
      bindR (rc_pop rc) (\<lambda>rc. Inr (rc, \<lparr>subnets = subs, globalnet = Some g\<rparr>))))))"

section \<open>What loading establishes\<close>

definition subnet_loaded :: "Subnet \<Rightarrow> bool" where
  "subnet_loaded sub \<longleftrightarrow> broadcast sub = IPAddress_u (get_ip_broadcast (sub_u_addr sub) (ip_u_addr (netmask sub)))
     \<and> (range_start sub = IPAddress_none \<and> range_end sub = IPAddress_none
        \<or> myaddress sub (range_start sub) \<and> myaddress sub (range_end sub))"

lemma myaddress_update [simp]: "myaddress (sub\<lparr>range_start := rs, range_end := re\<rparr>) ip = myaddress sub ip"
  by (simp add: myaddress_def)

lemma load_subnet_loaded:
  "load_subnet rc key = Inr (rc', sub) \<Longrightarrow> subnet_loaded sub \<and> sub_name sub = Some (subnet_name key)"
  by (auto simp: load_subnet_def load_range_def Let_def subnet_loaded_def sub_u_addr_def Subnet_new_def split: if_splits)

lemma rc_push_h: "rc_push rc key = Inr rc' \<Longrightarrow> rc_h rc' = rc_h rc"
  by (auto simp: rc_push_def Let_def split: option.splits if_splits)

lemma rc_pop_h: "rc_pop rc = Inr rc' \<Longrightarrow> rc_h rc' = rc_h rc"
  by (auto simp: rc_pop_def split: option.splits if_splits)

lemma load_subnet_h: "load_subnet rc key = Inr (rc', sub) \<Longrightarrow> rc_h rc' = rc_h rc"
  by (auto simp: load_subnet_def Let_def dest!: rc_push_h rc_pop_h)

text \<open>The subnet keys of the table, in its order.\<close>

definition subnet_keys :: "string tableType \<Rightarrow> string list" where
  "subnet_keys t = filter is_subnet_key (map item_key (ht_items t))"

lemma rc_walk_in: "0 \<le> i \<Longrightarrow> i < int (length (rc_h rc)) \<Longrightarrow> rc_walk rc i = Inr (map_option item_key (rc_h rc ! nat i))"
  by (simp add: rc_walk_def ht_walk_def HSize_def slot_at_def)

lemma load_keys_loaded:
  assumes "load_keys rc subs linked (map int is) = Inr (rc', subs')" and "\<forall>i\<in>set is. i < length (rc_h rc)"
  shows "\<exists>new. subs' = subs @ new \<and> list_all subnet_loaded new \<and> rc_h rc' = rc_h rc
    \<and> map sub_name new = map (Some \<circ> subnet_name) (subnet_keys (map ((!) (rc_h rc)) is))"
  using assms
proof (induction "is" arbitrary: rc subs linked)
  case (Cons i "is")
  have w: "rc_walk rc (int i) = Inr (map_option item_key (rc_h rc ! i))" using Cons.prems(2) by (simp add: rc_walk_in)
  show ?case
  proof (cases "\<exists>it. rc_h rc ! i = Some it \<and> is_subnet_key (item_key it)")
    case True
    then obtain it where it: "rc_h rc ! i = Some it" "is_subnet_key (item_key it)" by blast
    with Cons.prems(1) w obtain rc1 sub where s: "load_subnet rc (item_key it) = Inr (rc1, sub)"
        "load_keys rc1 (subs @ [sub]) True (map int is) = Inr (rc', subs')"
      by (auto split: if_splits)
    from load_subnet_h [OF s(1)] have h: "rc_h rc1 = rc_h rc" .
    with Cons.IH [OF s(2)] Cons.prems(2) obtain new where new: "subs' = (subs @ [sub]) @ new" "list_all subnet_loaded new"
        "rc_h rc' = rc_h rc" "map sub_name new = map (Some \<circ> subnet_name) (subnet_keys (map ((!) (rc_h rc)) is))"
      by auto
    then show ?thesis
      using load_subnet_loaded [OF s(1)] it by (intro exI [of _ "sub # new"]) (simp add: subnet_keys_def ht_items_def)
  next
    case False
    then have "load_keys rc subs linked (map int is) = Inr (rc', subs')"
      using Cons.prems(1) w by (auto split: option.splits)
    moreover have "subnet_keys (map ((!) (rc_h rc)) (i # is)) = subnet_keys (map ((!) (rc_h rc)) is)"
      using False by (cases "rc_h rc ! i") (auto simp: subnet_keys_def ht_items_def)
    ultimately show ?thesis using Cons.IH Cons.prems(2) by simp
  qed
qed (simp add: subnet_keys_def ht_items_def)

lemma upto_int: "[0..int n - 1] = map int [0..<n]"
  by (induction n) (simp_all add: upto_rec2)

lemma subnets_load_outcome:
  assumes "subnets_load rc \<lparr>subnets = [], globalnet = gn\<rparr> = Inr (rc', sn)"
  shows "list_all subnet_loaded (subnets sn) \<and> rc_h rc' = rc_h rc
    \<and> map sub_name (subnets sn) = map (Some \<circ> subnet_name) (subnet_keys (rc_h rc))
    \<and> (\<exists>g lt rt. globalnet sn = Some g \<and> lease_time g = Some lt \<and> renew_time g = Some rt \<and> rt \<le> lt)"
proof -
  from assms obtain g rc1 rc2 subs where g: "load_global rc = Inr g" and 1: "rc_push rc ''subnet'' = Inr rc1"
      and 2: "load_keys rc1 [] False (map int [0..<length (rc_h rc)]) = Inr (rc2, subs)"
      and 3: "rc_pop rc2 = Inr rc'" "sn = \<lparr>subnets = subs, globalnet = Some g\<rparr>"
    by (auto simp: subnets_load_def Let_def walk_size_def HSize_def upto_int)
  have h: "rc_h rc1 = rc_h rc" using rc_push_h [OF 1] .
  obtain new where "subs = new" "list_all subnet_loaded new" "rc_h rc2 = rc_h rc"
      "map sub_name new = map (Some \<circ> subnet_name) (subnet_keys (map ((!) (rc_h rc)) [0..<length (rc_h rc)]))"
    using load_keys_loaded [OF 2] h by auto
  moreover have "map ((!) (rc_h rc)) [0..<length (rc_h rc)] = rc_h rc" by (rule map_nth)
  moreover have "\<exists>lt rt. lease_time g = Some lt \<and> renew_time g = Some rt \<and> rt \<le> lt"
    using g by (auto simp: load_global_def Let_def Subnet_new_def not_less split: if_splits)
  ultimately show ?thesis using 3 rc_pop_h [OF 3(1)] by auto
qed

section \<open>An example\<close>

text \<open>A configuration with one subnet in a table of 20 slots, each item where its search ends.\<close>

lemma s32_eval: "s32 i = (if - 2147483648 \<le> i \<and> i < 2147483648 then i else (i + 2147483648) mod 4294967296 - 2147483648)"
  by (simp add: s32_def)

lemma char_value_eval: "char_value c = (if (of_char c :: nat) < 128 then int (of_char c) else int (of_char c) - 256)"
  by (simp add: char_value_def Let_def)

lemmas hash_eval = HFuncHorner_def HFuncAddition_def s32_eval char_value_eval smod_int_alt_def

definition ex_item :: "string \<Rightarrow> string \<Rightarrow> string dsHashTableItem option" where
  "ex_item k v = Some \<lparr>item_key = k, item_body = Some v, purge_body = False\<rparr>"

definition ex_table :: "string tableType" where
  "ex_table =
    [None,
     None,
     None,
     ex_item ''database-leases'' ''/var/db/leases'',
     ex_item ''global-domain-name'' ''lan'',
     None,
     None,
     None,
     ex_item ''global-lease-time'' ''600'',
     ex_item ''global-server-addr'' ''10.0.0.10'',
     None,
     ex_item ''global-renew-time'' ''300'',
     None,
     ex_item ''global-server-netmask'' ''255.0.0.0'',
     None,
     ex_item ''subnet-a-addr'' ''10.1.0.0'',
     None,
     ex_item ''subnet-a-netmask'' ''255.255.0.0'',
     ex_item ''subnet-a-gateway'' ''10.1.0.1'',
     ex_item ''global-nameserver1'' ''10.0.0.1'']"

definition ex_rc :: dsApprc where
  "ex_rc = dsApprc_new\<lparr>rc_h := ex_table\<rparr>"

lemma ex_length [simp]: "length ex_table = 20"
  by (simp add: ex_table_def)

lemma ex_slots:
  "ex_table ! 0 = None"
  "ex_table ! 1 = None"
  "ex_table ! 2 = None"
  "ex_table ! 3 = ex_item ''database-leases'' ''/var/db/leases''"
  "ex_table ! 4 = ex_item ''global-domain-name'' ''lan''"
  "ex_table ! 5 = None"
  "ex_table ! 6 = None"
  "ex_table ! 7 = None"
  "ex_table ! 8 = ex_item ''global-lease-time'' ''600''"
  "ex_table ! 9 = ex_item ''global-server-addr'' ''10.0.0.10''"
  "ex_table ! 10 = None"
  "ex_table ! 11 = ex_item ''global-renew-time'' ''300''"
  "ex_table ! 12 = None"
  "ex_table ! 13 = ex_item ''global-server-netmask'' ''255.0.0.0''"
  "ex_table ! 14 = None"
  "ex_table ! 15 = ex_item ''subnet-a-addr'' ''10.1.0.0''"
  "ex_table ! 16 = None"
  "ex_table ! 17 = ex_item ''subnet-a-netmask'' ''255.255.0.0''"
  "ex_table ! 18 = ex_item ''subnet-a-gateway'' ''10.1.0.1''"
  "ex_table ! 19 = ex_item ''global-nameserver1'' ''10.0.0.1''"
  by (simp_all add: ex_table_def)

lemma hi_seek_loop_pos:
  "0 < fuel \<Longrightarrow> hi_seek_loop fuel t key start_pos hashV hmul =
     bindR (slot_at t hashV) (\<lambda>slot.
     case slot of
       None \<Rightarrow> Inr (None, hashV)
     | Some it \<Rightarrow>
         if item_key it = key then Inr (Some it, hashV)
         else
           let hashV = s32 (start_pos + s32 (hmul * HFuncHorner (HSize t) key)) smod HSize t in
           if start_pos \<noteq> hashV then hi_seek_loop (fuel - 1) t key start_pos hashV (s32 (hmul + 1))
           else Inr (None, -1))"
proof -
  assume "0 < fuel"
  then obtain n where n: "fuel = Suc n" by (auto simp: gr0_conv_Suc)
  show ?thesis unfolding n hi_seek_loop.simps diff_Suc_1 ..
qed

lemma ex_seeks:
  "ht_seek ex_table ''global-domain-name'' = Inr (Some ''lan'')"
  "ht_seek ex_table ''global-server-addr'' = Inr (Some ''10.0.0.10'')"
  "ht_seek ex_table ''global-server-netmask'' = Inr (Some ''255.0.0.0'')"
  "ht_seek ex_table ''global-lease-time'' = Inr (Some ''600'')"
  "ht_seek ex_table ''global-renew-time'' = Inr (Some ''300'')"
  "ht_seek ex_table ''global-nameserver1'' = Inr (Some ''10.0.0.1'')"
  "ht_seek ex_table ''subnet-a-addr'' = Inr (Some ''10.1.0.0'')"
  "ht_seek ex_table ''subnet-a-netmask'' = Inr (Some ''255.255.0.0'')"
  "ht_seek ex_table ''subnet-a-gateway'' = Inr (Some ''10.1.0.1'')"
  "ht_seek ex_table ''subnet-a-nameserver1'' = Inr None"
  "ht_seek ex_table ''subnet-a-nameserver2'' = Inr None"
  "ht_seek ex_table ''global-nameserver2'' = Inr None"
  "ht_seek ex_table ''subnet-a-range-start'' = Inr None"
  by (simp_all add: ht_seek_def ht_seek_item_def hi_seek_def hi_seek_loop_pos HSize_def slot_at_def ex_slots ex_item_def hash_eval Let_def)


definition ex_ip :: "string \<Rightarrow> IPAddress" where
  "ex_ip s = projr (IPAddress_s s)"

lemma ex_ips:
  "IPAddress_s ''10.0.0.10'' = Inr (ex_ip ''10.0.0.10'')"
  "IPAddress_s ''255.0.0.0'' = Inr (ex_ip ''255.0.0.0'')"
  "IPAddress_s ''10.0.0.1'' = Inr (ex_ip ''10.0.0.1'')"
  "IPAddress_s ''10.1.0.0'' = Inr (ex_ip ''10.1.0.0'')"
  "IPAddress_s ''255.255.0.0'' = Inr (ex_ip ''255.255.0.0'')"
  "IPAddress_s ''10.1.0.1'' = Inr (ex_ip ''10.1.0.1'')"
  by code_simp+

lemma ex_keys: "is_subnet_key ''subnet-a-addr''" "subnet_name ''subnet-a-addr'' = ''a''" 
  "\<not> is_subnet_key ''database-leases''" "\<not> is_subnet_key ''global-domain-name''" "\<not> is_subnet_key ''global-lease-time''" "\<not> is_subnet_key ''global-server-addr''" "\<not> is_subnet_key ''global-renew-time''"
  "\<not> is_subnet_key ''global-server-netmask''" "\<not> is_subnet_key ''subnet-a-netmask''" "\<not> is_subnet_key ''subnet-a-gateway''" "\<not> is_subnet_key ''global-nameserver1''"
  by (simp_all add: is_subnet_key_def dsStartsWith_def dsEndsWith_def subnet_name_def dsStrndup_def)

lemma ex_atol: "atol ''600'' = 600" "atol ''300'' = 300" by code_simp+

lemmas ex_defs = rc_ip_def getstring_def getstring_default_def getint_def has_key_def rc_seek_def char_at_def ex_seeks ex_ips ex_atol

lemma ex_rc_h: "rc_h ex_rc = ex_table" "keyst ex_rc = None" "key_delim ex_rc = CHR ''-''" "kslen ex_rc = 0"
  by (simp_all add: ex_rc_def dsApprc_new_def)

lemma ex_global: "isl (load_global ex_rc) = False"
  by (simp add: load_global_def ex_defs ex_rc_h s32_eval Let_def)

lemma ex_subnet:
  "\<exists>sub. load_subnet (ex_rc\<lparr>keyst := Some (''subnet'', 7), kslen := 6\<rparr>) ''subnet-a-addr''
     = Inr (ex_rc\<lparr>keyst := Some (''subnet'', 9), kslen := 9\<rparr>, sub) \<and> range_start sub = IPAddress_none"
  by (simp add: load_subnet_def ex_keys rc_push_def rc_pop_def load_nameserver2_def load_range_def ex_defs ex_rc_h Let_def Subnet_new_def)

lemma ex_walk: "0 \<le> i \<Longrightarrow> i < 20 \<Longrightarrow> rc_walk (ex_rc\<lparr>keyst := p, kslen := n\<rparr>) i = Inr (map_option item_key (ex_table ! nat i))"
  using rc_walk_in [of i "ex_rc\<lparr>keyst := p, kslen := n\<rparr>"] by (simp add: ex_rc_h)

lemma ex_push: "rc_push ex_rc ''subnet'' = Inr (ex_rc\<lparr>keyst := Some (''subnet'', 7), kslen := 6\<rparr>)"
  by (simp add: rc_push_def ex_rc_h)

lemma ex_load: "\<exists>sub g. subnets_load ex_rc \<lparr>subnets = [], globalnet = None\<rparr>
    = Inr (ex_rc, \<lparr>subnets = [sub], globalnet = Some g\<rparr>) \<and> range_start sub = IPAddress_none"
proof -
  obtain g where g: "load_global ex_rc = Inr g" using ex_global by (cases "load_global ex_rc") auto
  obtain sub where sub: "load_subnet (ex_rc\<lparr>keyst := Some (''subnet'', 7), kslen := 6\<rparr>) ''subnet-a-addr''
     = Inr (ex_rc\<lparr>keyst := Some (''subnet'', 9), kslen := 9\<rparr>, sub)" "range_start sub = IPAddress_none" using ex_subnet by blast
  have upto: "[0..19] = [0, 1, 2, 3, 4, 5, 6, 7, 8, 9, 10, 11, 12, 13, 14, 15, 16, 17, 18, 19 :: int]" by (simp add: upto.simps)
  have rc: "ex_rc\<lparr>keyst := None, kslen := 0\<rparr> = ex_rc" by (simp add: ex_rc_def dsApprc_new_def)
  show ?thesis
    by (simp add: subnets_load_def Let_def walk_size_def HSize_def ex_rc_h g ex_push rc_pop_def ex_walk ex_slots ex_slots(2) [simplified] ex_item_def ex_keys sub upto rc)
qed

section \<open>Properties\<close>

text \<open>C27: Loading the subnets, started once, gives one subnet for every key \<open>subnet-NAME-addr\<close> of the
  table, in the order of the table and with that name. Every subnet has the broadcast address of
  its address and mask and either no address range or one with both ends inside the subnet; the
  global record has a renew time that does not exceed the lease time; the table is not changed.\<close>

theorem subnets_load_wellformed:
  assumes "subnets_load rc \<lparr>subnets = [], globalnet = gn\<rparr> = Inr (rc', sn)"
  shows "list_all subnet_loaded (subnets sn) \<and> rc_h rc' = rc_h rc
    \<and> map sub_name (subnets sn) = map (Some \<circ> subnet_name) (subnet_keys (rc_h rc))
    \<and> (\<exists>g lt rt. globalnet sn = Some g \<and> lease_time g = Some lt \<and> renew_time g = Some rt \<and> rt \<le> lt)"
  using assms by (rule subnets_load_outcome)

theorem subnets_load_wellformed_witness:
  "\<exists>rc' sn. subnets_load ex_rc \<lparr>subnets = [], globalnet = None\<rparr> = Inr (rc', sn)
     \<and> list_all subnet_loaded (subnets sn) \<and> map sub_name (subnets sn) = [Some ''a'']"
proof -
  obtain rc' sn where l: "subnets_load ex_rc \<lparr>subnets = [], globalnet = None\<rparr> = Inr (rc', sn)"
    using ex_load by blast
  moreover have "subnet_keys (rc_h ex_rc) = [''subnet-a-addr'']"
    by (simp add: ex_rc_h subnet_keys_def ht_items_def ex_table_def ex_item_def ex_keys)
  ultimately show ?thesis using subnets_load_wellformed [OF l] by (auto simp: ex_keys)
qed

text \<open>A name with a hyphen is not popped as a whole: its part before the last hyphen stays on the
  stack, and the keys of all later subnets are searched below it.\<close>

theorem hyphenated_name_stays:
  assumes "stack_ok rc" and "keyst rc = Some (ks, n)" and "key_delim rc = CHR ''-''" and "CHR ''-'' \<notin> set b"
  shows "\<exists>rc1 rc2. rc_push rc (a @ ''-'' @ b) = Inr rc1 \<and> rc_pop rc1 = Inr rc2
    \<and> map_option fst (keyst rc2) = Some (ks @ ''-'' @ a)"
proof -
  have "strchr (rev (ks @ CHR ''-'' # a @ CHR ''-'' # b)) (CHR ''-'') = Some (length b)"
    using strchr_append [of "CHR ''-''" "rev b" "rev a @ CHR ''-'' # rev ks"] assms(4) by simp
  then show ?thesis
    using assms(1-3) by (auto simp: rc_push_def rc_pop_def stack_ok_def Let_def)
qed

end
