(* ===== verification/DhcpConstants.thy ===== *)
theory DhcpConstants
  imports Prelude
begin

text \<open>
  \<open>src/src/dhcp/dhcp_constants.h\<close> and the name tables of \<open>dhcp_packet.cxx\<close>. The message
  types are a datatype with their wire codes; the option codes the program uses are named,
  and the whole table of the header is kept to compare it with the table of printed names.
\<close>

section \<open>Codes\<close>

abbreviation BOOT_REQUEST :: u8 where "BOOT_REQUEST \<equiv> 1"
abbreviation BOOT_REPLY :: u8 where "BOOT_REPLY \<equiv> 2"

datatype dhcp_msg =
    DHCP_DISCOVER
  | DHCP_OFFER
  | DHCP_REQUEST
  | DHCP_DECLINE
  | DHCP_ACK
  | DHCP_NAK
  | DHCP_RELEASE
  | DHCP_INFORM
  | DHCP_FORCE_RENEW
  | DHCP_LEASE_QUERY
  | DHCP_LEASE_UNASSIGNED
  | DHCP_LEASE_UNKNOWN
  | DHCP_LEASE_ACTIVE

fun msg_code :: "dhcp_msg \<Rightarrow> u8" where
  "msg_code DHCP_DISCOVER = 1"
| "msg_code DHCP_OFFER = 2"
| "msg_code DHCP_REQUEST = 3"
| "msg_code DHCP_DECLINE = 4"
| "msg_code DHCP_ACK = 5"
| "msg_code DHCP_NAK = 6"
| "msg_code DHCP_RELEASE = 7"
| "msg_code DHCP_INFORM = 8"
| "msg_code DHCP_FORCE_RENEW = 9"
| "msg_code DHCP_LEASE_QUERY = 10"
| "msg_code DHCP_LEASE_UNASSIGNED = 11"
| "msg_code DHCP_LEASE_UNKNOWN = 12"
| "msg_code DHCP_LEASE_ACTIVE = 13"

abbreviation DHO_PAD :: u8 where "DHO_PAD \<equiv> 0"
abbreviation DHO_SUBNET :: u8 where "DHO_SUBNET \<equiv> 1"
abbreviation DHO_ROUTERS :: u8 where "DHO_ROUTERS \<equiv> 3"
abbreviation DHO_DOMAIN_NAME_SERVERS :: u8 where "DHO_DOMAIN_NAME_SERVERS \<equiv> 6"
abbreviation DHO_HOST_NAME :: u8 where "DHO_HOST_NAME \<equiv> 12"
abbreviation DHO_DOMAIN_NAME :: u8 where "DHO_DOMAIN_NAME \<equiv> 15"
abbreviation DHO_DHCP_REQUESTED_ADDRESS :: u8 where "DHO_DHCP_REQUESTED_ADDRESS \<equiv> 50"
abbreviation DHO_DHCP_LEASE_TIME :: u8 where "DHO_DHCP_LEASE_TIME \<equiv> 51"
abbreviation DHO_DHCP_MESSAGE_TYPE :: u8 where "DHO_DHCP_MESSAGE_TYPE \<equiv> 53"
abbreviation DHO_DHCP_SERVER_IDENTIFIER :: u8 where "DHO_DHCP_SERVER_IDENTIFIER \<equiv> 54"
abbreviation DHO_DHCP_PARAMETER_REQUEST_LIST :: u8 where "DHO_DHCP_PARAMETER_REQUEST_LIST \<equiv> 55"
abbreviation DHO_DHCP_RENEWAL_TIME :: u8 where "DHO_DHCP_RENEWAL_TIME \<equiv> 58"
abbreviation DHO_VENDOR_CLASS_IDENTIFIER :: u8 where "DHO_VENDOR_CLASS_IDENTIFIER \<equiv> 60"
abbreviation DHO_DHCP_CLIENT_IDENTIFIER :: u8 where "DHO_DHCP_CLIENT_IDENTIFIER \<equiv> 61"
abbreviation DHO_END :: u8 where "DHO_END \<equiv> 255"

definition dho_codes :: "(string \<times> nat) list" where
  "dho_codes =
     [
      (''DHO_PAD'', 0), (''DHO_SUBNET'', 1), (''DHO_TIME_OFFSET'', 2),
      (''DHO_ROUTERS'', 3), (''DHO_TIME_SERVERS'', 4), (''DHO_NAME_SERVERS'', 5),
      (''DHO_DOMAIN_NAME_SERVERS'', 6), (''DHO_LOG_SERVER'', 7), (''DHO_COOKIE_SERVERS'', 8),
      (''DHO_LPR_SERVERS'', 9), (''DHO_IMPRESS_SERVER'', 10), (''DHO_RESOURCE_LOCATION_SERVERS'', 11),
      (''DHO_HOST_NAME'', 12), (''DHO_BOOT_SIZE'', 13), (''DHO_MERIT_DUMP'', 14),
      (''DHO_DOMAIN_NAME'', 15), (''DHO_SWAP_SERVER'', 16), (''DHO_ROOT_PATH'', 17),
      (''DHO_EXTENSIONS_PATH'', 18), (''DHO_IP_FORWARDING'', 19), (''DHO_NON_LOCAL_SOURCE_ROUTING'', 20),
      (''DHO_POLICY_FILTER'', 21), (''DHO_MAX_DGRAM_REASSEMBLY'', 22), (''DHO_DEFAULT_IP_TTL'', 23),
      (''DHO_PATH_MTU_AGING_TIMEOUT'', 24), (''DHO_PATH_MTU_PLATEAU_TABLE'', 25), (''DHO_INTERFACE_MTU'', 26),
      (''DHO_ALL_SUBNETS_LOCAL'', 27), (''DHO_BROADCAST_ADDRESS'', 28), (''DHO_PERFORM_MASK_DISCOVERY'', 29),
      (''DHO_MASK_SUPPLIER'', 30), (''DHO_ROUTER_DISCOVERY'', 31), (''DHO_ROUTER_SOLICITATION_ADDRESS'', 32),
      (''DHO_STATIC_ROUTES'', 33), (''DHO_TRAILER_ENCAPSULATION'', 34), (''DHO_ARP_CACHE_TIMEOUT'', 35),
      (''DHO_IEEE802_3_ENCAPSULATION'', 36), (''DHO_DEFAULT_TCP_TTL'', 37), (''DHO_TCP_KEEPALIVE_INTERVAL'', 38),
      (''DHO_TCP_KEEPALIVE_GARBAGE'', 39), (''DHO_RESERVED'', 40), (''DHO_NIS_SERVERS'', 41),
      (''DHO_NTP_SERVERS'', 42), (''DHO_VENDOR_ENCAPSULATED_OPTIONS'', 43), (''DHO_NETBIOS_NAME_SERVERS'', 44),
      (''DHO_NETBIOS_DD_SERVER'', 45), (''DHO_NETBIOS_NODE_TYPE'', 46), (''DHO_NETBIOS_SCOPE'', 47),
      (''DHO_FONT_SERVERS'', 48), (''DHO_X_DISPLAY_MANAGER'', 49), (''DHO_DHCP_REQUESTED_ADDRESS'', 50),
      (''DHO_DHCP_LEASE_TIME'', 51), (''DHO_DHCP_OPTION_OVERLOAD'', 52), (''DHO_DHCP_MESSAGE_TYPE'', 53),
      (''DHO_DHCP_SERVER_IDENTIFIER'', 54), (''DHO_DHCP_PARAMETER_REQUEST_LIST'', 55), (''DHO_DHCP_MESSAGE'', 56),
      (''DHO_DHCP_MAX_MESSAGE_SIZE'', 57), (''DHO_DHCP_RENEWAL_TIME'', 58), (''DHO_DHCP_REBINDING_TIME'', 59),
      (''DHO_VENDOR_CLASS_IDENTIFIER'', 60), (''DHO_DHCP_CLIENT_IDENTIFIER'', 61), (''DHO_NWIP_DOMAIN_NAME'', 62),
      (''DHO_NWIP_SUBOPTIONS'', 63), (''DHO_NISPLUS_DOMAIN'', 64), (''DHO_NISPLUS_SERVER'', 65),
      (''DHO_TFTP_SERVER'', 66), (''DHO_BOOTFILE'', 67), (''DHO_MOBILE_IP_HOME_AGENT'', 68),
      (''DHO_SMTP_SERVER'', 69), (''DHO_POP3_SERVER'', 70), (''DHO_NNTP_SERVER'', 71),
      (''DHO_WWW_SERVER'', 72), (''DHO_FINGER_SERVER'', 73), (''DHO_IRC_SERVER'', 74),
      (''DHO_STREETTALK_SERVER'', 75), (''DHO_STDA_SERVER'', 76), (''DHO_USER_CLASS'', 77),
      (''DHO_FQDN'', 81), (''DHO_DHCP_AGENT_OPTIONS'', 82), (''DHO_NDS_SERVERS'', 85),
      (''DHO_NDS_TREE_NAME'', 86), (''DHO_NDS_CONTEXT'', 87), (''DHO_CLIENT_LAST_TRANSACTION_TIME'', 91),
      (''DHO_ASSOCIATED_IP'', 92), (''DHO_USER_AUTHENTICATION_PROTOCOL'', 98), (''DHO_AUTO_CONFIGURE'', 116),
      (''DHO_NAME_SERVICE_SEARCH'', 117), (''DHO_SUBNET_SELECTION'', 118), (''DHO_DOMAIN_SEARCH'', 119),
      (''DHO_CLASSLESS_ROUTE'', 121), (''DHO_END'', 255)
     ]"

abbreviation BOOTP_ABSOLUTE_MIN_LEN :: nat where "BOOTP_ABSOLUTE_MIN_LEN \<equiv> 236"
abbreviation DHCP_VEND_SIZE :: nat where "DHCP_VEND_SIZE \<equiv> 64"
abbreviation DHCP_MAX_MTU :: nat where "DHCP_MAX_MTU \<equiv> 4096"
abbreviation DHCP_SERVER_PORT :: u16 where "DHCP_SERVER_PORT \<equiv> 67"
abbreviation DHCP_CLIENT_PORT :: u16 where "DHCP_CLIENT_PORT \<equiv> 68"

section \<open>Names\<close>

definition dhcp_dho_names :: "string list" where
  "dhcp_dho_names =
     [
      ''DHO_PAD'', ''DHO_SUBNET'', ''DHO_TIME_OFFSET'',
      ''DHO_ROUTERS'', ''DHO_TIME_SERVERS'', ''DHO_NAME_SERVERS'',
      ''DHO_DOMAIN_NAME_SERVERS'', ''DHO_LOG_SERVER'', ''DHO_COOKIE_SERVERS'',
      ''DHO_LPR_SERVERS'', ''DHO_IMPRESS_SERVER'', ''DHO_RESOURCE_LOCATION_SERVERS'',
      ''DHO_HOST_NAME'', ''DHO_BOOT_SIZE'', ''DHO_MERIT_DUMP'',
      ''DHO_DOMAIN_NAME'', ''DHO_SWAP_SERVER'', ''DHO_ROOT_PATH'',
      ''DHO_EXTENSIONS_PATH'', ''DHO_IP_FORWARDING'', ''DHO_NON_LOCAL_SOURCE_ROUTING'',
      ''DHO_POLICY_FILTER'', ''DHO_MAX_DGRAM_REASSEMBLY'', ''DHO_DEFAULT_IP_TTL'',
      ''DHO_PATH_MTU_AGING_TIMEOUT'', ''DHO_PATH_MTU_PLATEAU_TABLE'', ''DHO_INTERFACE_MTU'',
      ''DHO_ALL_SUBNETS_LOCAL'', ''DHO_BROADCAST_ADDRESS'', ''DHO_PERFORM_MASK_DISCOVERY'',
      ''DHO_MASK_SUPPLIER'', ''DHO_ROUTER_DISCOVERY'', ''DHO_ROUTER_SOLICITATION_ADDRESS'',
      ''DHO_STATIC_ROUTES'', ''DHO_TRAILER_ENCAPSULATION'', ''DHO_ARP_CACHE_TIMEOUT'',
      ''DHO_IEEE802_3_ENCAPSULATION'', ''DHO_DEFAULT_TCP_TTL'', ''DHO_TCP_KEEPALIVE_INTERVAL'',
      ''DHO_TCP_KEEPALIVE_GARBAGE'', ''DHO_RESERVED'', ''DHO_NIS_SERVERS'',
      ''DHO_NTP_SERVERS'', ''DHO_VENDOR_ENCAPSULATED_OPTIONS'', ''DHO_NETBIOS_NAME_SERVERS'',
      ''DHO_NETBIOS_DD_SERVER'', ''DHO_NETBIOS_NODE_TYPE'', ''DHO_NETBIOS_SCOPE'',
      ''DHO_FONT_SERVERS'', ''DHO_X_DISPLAY_MANAGER'', ''DHO_DHCP_REQUESTED_ADDRESS'',
      ''DHO_DHCP_LEASE_TIME'', ''DHO_DHCP_OPTION_OVERLOAD'', ''DHO_DHCP_MESSAGE_TYPE'',
      ''DHO_DHCP_SERVER_IDENTIFIER'', ''DHO_DHCP_PARAMETER_REQUEST_LIST'', ''DHO_DHCP_MESSAGE'',
      ''DHO_DHCP_MAX_MESSAGE_SIZE'', ''DHO_DHCP_RENEWAL_TIME'', ''DHO_DHCP_REBINDING_TIME'',
      ''DHO_VENDOR_CLASS_IDENTIFIER'', ''DHO_DHCP_CLIENT_IDENTIFIER'', ''DHO_NWIP_DOMAIN_NAME'',
      ''DHO_NWIP_SUBOPTIONS'', ''DHO_NISPLUS_DOMAIN'', ''DHO_NISPLUS_SERVER'',
      ''DHO_TFTP_SERVER'', ''DHO_BOOTFILE'', ''DHO_MOBILE_IP_HOME_AGENT'',
      ''DHO_SMTP_SERVER'', ''DHO_POP3_SERVER'', ''DHO_NNTP_SERVER'',
      ''DHO_WWW_SERVER'', ''DHO_FINGER_SERVER'', ''DHO_IRC_SERVER'',
      ''DHO_STREETTALK_SERVER'', ''DHO_STDA_SERVER'', ''DHO_USER_CLASS'',
      ''DHO_FQDN'', ''DHO_DHCP_AGENT_OPTIONS'', ''DHO_NDS_SERVERS'',
      ''DHO_NDS_TREE_NAME'', ''DHO_NDS_CONTEXT'', ''DHO_CLIENT_LAST_TRANSACTION_TIME'',
      ''DHO_ASSOCIATED_IP'', ''DHO_USER_AUTHENTICATION_PROTOCOL'', ''DHO_AUTO_CONFIGURE'',
      ''DHO_NAME_SERVICE_SEARCH'', ''DHO_SUBNET_SELECTION'', ''DHO_DOMAIN_SEARCH'',
      ''DHO_CLASSLESS_ROUTE''
     ]"

definition dhcp_msgtype_names :: "string list" where
  "dhcp_msgtype_names =
     [
      ''DHCP_NONE'', ''DHCP_DISCOVER'', ''DHCP_OFFER'',
      ''DHCP_REQUEST'', ''DHCP_DECLINE'', ''DHCP_ACK'',
      ''DHCP_NAK'', ''DHCP_RELEASE'', ''DHCP_INFORM'',
      ''DHCP_FORCE_RENEW'', ''DHCP_LEASE_QUERY'', ''DHCP_LEASE_UNASSIGNED'',
      ''DHCP_LEASE_UNKNOWN'', ''DHCP_LEASE_ACTIVE''
     ]"

text \<open>
  The bound is compared as \<open>size_t\<close>, so that a negative index is larger than it.
\<close>

definition table_name :: "string list \<Rightarrow> int \<Rightarrow> string" where
  "table_name names i =
     (if (of_int i :: u64) > of_nat (length names) - 1 then ''INTERNAL_UNKNOWN''
      else names ! unat (of_int i :: u64))"

definition dho_name :: "int \<Rightarrow> string" where
  "dho_name i = table_name dhcp_dho_names i"

definition msgtype_name :: "int \<Rightarrow> string" where
  "msgtype_name mt = table_name dhcp_msgtype_names mt"

section \<open>Lemmas\<close>

lemma msg_code_inject [simp]: "msg_code m = msg_code m' \<longleftrightarrow> m = m'"
  by (cases m; cases m') simp_all

text \<open>Of the option codes of \<open>dhcp_constants.h\<close> exactly those up to 77 are printed with
  their own name: the name table is dense while the codes have gaps from there on, so every
  later code prints as another option or as unknown.\<close>

theorem dho_name_correct_codes:
  "filter (\<lambda>(name, c). dho_name (int c) = name) dho_codes = filter (\<lambda>(name, c). c \<le> 77) dho_codes"
  by code_simp

end
