(* ===== verification/IpAllocator.thy ===== *)
theory IpAllocator
  imports Subnets DhcpConstants Printf
begin

text \<open>
  \<open>src/src/alloc/ipallocator.h\<close> and \<open>ipallocator.cxx\<close>: the allocator base class. Its virtual
  functions are a record of state-passing functions (\<open>alloc_vtable\<close>), so that \<open>ip_alloc\<close>,
  \<open>ip_check\<close> and \<open>ip_invalidate\<close> call them through dynamic dispatch as the source does; the
  base class' own versions and those of \<open>IPAllocatorSQL\<close> (theory \<open>IpAllocatorSql\<close>) are two such
  records. The locale \<open>allocator_backend\<close> states what the base class relies on.

  Calls into the packet filter and the RADIUS client are recorded as events in the order the
  source makes them; both are compiled in and switched by their \<open>enabled\<close> flags, a build
  without them behaves as with the flag off. The configuration file is seen through the four
  functions of \<open>dsApprc\<close> that the allocator calls: \<open>getstring\<close> with a null default
  (\<open>env_getstring\<close>), \<open>getbool\<close>, \<open>getstring\<close> without a default and \<open>has_key\<close>. A reference parameter that a function only sets
  when it returns true is an \<open>option\<close> result. The clock delivers one reading per call.
\<close>

section \<open>State\<close>

datatype alloc_event =
    PF_add u32
  | PF_del u32
  | Acct int string string

record alloc_env =
  env_subnets :: Subnets
  pf_enabled :: bool
  rad_enabled :: bool
  env_getstring :: "string \<Rightarrow> string option res"
  env_getbool :: "string \<Rightarrow> int \<Rightarrow> int res"
  env_require :: "string \<Rightarrow> string res"
  env_has_key :: "string \<Rightarrow> bool res"
  env_clock :: "nat \<Rightarrow> u32"

record 'd alloc_state =
  leases_db :: 'd
  static_db :: "'d option"
  static_get_query :: "string option"
  clock_calls :: nat
  events :: "alloc_event list"

abbreviation RAD_SESSION_DHCP_START :: int where "RAD_SESSION_DHCP_START \<equiv> 11"
abbreviation RAD_SESSION_DHCP_END :: int where "RAD_SESSION_DHCP_END \<equiv> 12"

definition get_clock :: "alloc_env \<Rightarrow> ('d alloc_state, u32) proc" where
  "get_clock env = (\<lambda>s. (Inr (env_clock env (clock_calls s)), s\<lparr>clock_calls := Suc (clock_calls s)\<rparr>))"

definition emit :: "bool \<Rightarrow> alloc_event \<Rightarrow> ('d alloc_state, unit) proc" where
  "emit enabled ev = (if enabled then modifyP (\<lambda>s. s\<lparr>events := events s @ [ev]\<rparr>) else retP ())"

record 'd alloc_vtable =
  vt_get_static_ip :: "MACAddress \<Rightarrow> ('d alloc_state, (IPAddress \<times> int) option) proc"
  vt_get_leased_ip :: "MACAddress \<Rightarrow> ('d alloc_state, IPAddress option) proc"
  vt_get_new_ip :: "MACAddress \<Rightarrow> ('d alloc_state, IPAddress option) proc"
  vt_record_lease :: "MACAddress \<Rightarrow> IPAddress \<Rightarrow> string option \<Rightarrow> ('d alloc_state, unit) proc"
  vt_record_static_lease :: "MACAddress \<Rightarrow> IPAddress \<Rightarrow> string option \<Rightarrow> ('d alloc_state, unit) proc"

section \<open>The base class\<close>

definition base_get_static_ip :: "alloc_env \<Rightarrow> MACAddress \<Rightarrow> ('d alloc_state, (IPAddress \<times> int) option) proc" where
  "base_get_static_ip env mac =
     (let new_name = ''host-'' @ mac_s_addr mac in
      bindP (liftP (env_getstring env new_name)) (\<lambda>str_ip.
      case str_ip of
        Some text \<Rightarrow>
          bindP (liftP (IPAddress_s text)) (\<lambda>ip.
          bindP (liftP (env_getbool env (new_name @ ''-inet'') 0)) (\<lambda>inet_access.
          retP (Some (ip, inet_access))))
      | None \<Rightarrow> retP None))"

definition base_get_leased_ip :: "MACAddress \<Rightarrow> ('d alloc_state, IPAddress option) proc" where
  "base_get_leased_ip mac = retP None"

definition base_get_new_ip :: "MACAddress \<Rightarrow> ('d alloc_state, IPAddress option) proc" where
  "base_get_new_ip mac = retP None"

definition base_record_lease :: "MACAddress \<Rightarrow> IPAddress \<Rightarrow> string option \<Rightarrow> ('d alloc_state, unit) proc" where
  "base_record_lease mac ip auth_info = retP ()"

definition base_record_static_lease :: "MACAddress \<Rightarrow> IPAddress \<Rightarrow> string option \<Rightarrow> ('d alloc_state, unit) proc" where
  "base_record_static_lease mac ip auth_info = retP ()"

definition base_vtable :: "alloc_env \<Rightarrow> 'd alloc_vtable" where
  "base_vtable env =
     \<lparr>vt_get_static_ip = base_get_static_ip env, vt_get_leased_ip = base_get_leased_ip,
      vt_get_new_ip = base_get_new_ip, vt_record_lease = base_record_lease,
      vt_record_static_lease = base_record_static_lease\<rparr>"

definition update_lease :: "'d alloc_vtable \<Rightarrow> MACAddress \<Rightarrow> IPAddress \<Rightarrow> string option \<Rightarrow> ('d alloc_state, unit) proc" where
  "update_lease vt mac ip auth_info = vt_record_lease vt mac ip auth_info"

definition update_static_lease :: "'d alloc_vtable \<Rightarrow> MACAddress \<Rightarrow> IPAddress \<Rightarrow> string option \<Rightarrow> ('d alloc_state, unit) proc" where
  "update_static_lease vt mac ip auth_info = vt_record_static_lease vt mac ip auth_info"

text \<open>The three sources of an address in the order \<open>ip_alloc\<close> tries them: what follows a
  static entry, a known lease and a new lease.\<close>

definition alloc_static :: "alloc_env \<Rightarrow> 'd alloc_vtable \<Rightarrow> MACAddress \<Rightarrow> IPAddress \<Rightarrow> int \<Rightarrow> ('d alloc_state, IPAddress option) proc" where
  "alloc_static env vt mac ip inet_access =
     bindP (vt_record_static_lease vt mac ip (Some (if inet_access \<noteq> 0 then ''static'' else ''internal''))) (\<lambda>_.
     bindP (emit (inet_access \<noteq> 0 \<and> pf_enabled env) (PF_add (ip_u_addr ip))) (\<lambda>_.
     bindP (emit (rad_enabled env) (Acct RAD_SESSION_DHCP_START (mac_s_addr mac) (ip_s_addr ip))) (\<lambda>_.
     retP (Some ip))))"

definition alloc_leased :: "'d alloc_vtable \<Rightarrow> MACAddress \<Rightarrow> IPAddress \<Rightarrow> ('d alloc_state, IPAddress option) proc" where
  "alloc_leased vt mac ip = bindP (update_lease vt mac ip (Some ''leased'')) (\<lambda>_. retP (Some ip))"

definition alloc_new :: "alloc_env \<Rightarrow> 'd alloc_vtable \<Rightarrow> MACAddress \<Rightarrow> IPAddress \<Rightarrow> ('d alloc_state, IPAddress option) proc" where
  "alloc_new env vt mac ip =
     bindP (vt_record_lease vt mac ip (Some ''new'')) (\<lambda>_.
     bindP (emit (pf_enabled env) (PF_del (ip_u_addr ip))) (\<lambda>_.
     bindP (emit (rad_enabled env) (Acct RAD_SESSION_DHCP_START (mac_s_addr mac) (ip_s_addr ip))) (\<lambda>_.
     retP (Some ip))))"

definition ip_alloc :: "alloc_env \<Rightarrow> 'd alloc_vtable \<Rightarrow> MACAddress \<Rightarrow> ('d alloc_state, IPAddress option) proc" where
  "ip_alloc env vt mac =
     bindP (vt_get_static_ip vt mac) (\<lambda>static.
     case static of
       Some (ip, inet_access) \<Rightarrow> alloc_static env vt mac ip inet_access
     | None \<Rightarrow>
         bindP (vt_get_leased_ip vt mac) (\<lambda>leased.
         case leased of
           Some ip \<Rightarrow> alloc_leased vt mac ip
         | None \<Rightarrow>
             bindP (vt_get_new_ip vt mac) (\<lambda>fresh.
             case fresh of
               Some ip \<Rightarrow> alloc_new env vt mac ip
             | None \<Rightarrow> retP None)))"

definition ip_check :: "alloc_env \<Rightarrow> 'd alloc_vtable \<Rightarrow> MACAddress \<Rightarrow> IPAddress \<Rightarrow> ('d alloc_state, bool) proc" where
  "ip_check env vt mac ip =
     (case mysubnet (env_subnets env) ip of
        None \<Rightarrow> retP False
      | Some sub \<Rightarrow>
          bindP (vt_get_static_ip vt mac) (\<lambda>static.
          case static of
            Some (newip, inet_access) \<Rightarrow>
              if ip_neq ip newip then retP False
              else bindP (update_static_lease vt mac ip (Some ''static'')) (\<lambda>_. retP True)
          | None \<Rightarrow>
              if \<not> has_dynamic_range sub then retP False
              else
                bindP (vt_get_leased_ip vt mac) (\<lambda>leased.
                case leased of
                  Some newip \<Rightarrow>
                    if ip_neq ip newip then retP False
                    else bindP (update_lease vt mac ip None) (\<lambda>_. retP True)
                | None \<Rightarrow> retP False)))"

definition ip_free :: "alloc_env \<Rightarrow> MACAddress \<Rightarrow> IPAddress \<Rightarrow> ('d alloc_state, unit) proc" where
  "ip_free env mac ip =
     emit (rad_enabled env) (Acct RAD_SESSION_DHCP_END (mac_s_addr mac) (ip_s_addr ip))"

definition ip_invalidate :: "'d alloc_vtable \<Rightarrow> MACAddress \<Rightarrow> IPAddress \<Rightarrow> ('d alloc_state, unit) proc" where
  "ip_invalidate vt mac ip =
     (let badmac = MACAddress_u 0 in vt_record_lease vt badmac ip (Some ''invalidated''))"

section \<open>Lease tables\<close>

text \<open>
  The contract of a backend over the leases it keeps. \<open>rows\<close> is the content of the lease table.
  Recording touches the row of one address only, and either gives it the new owner or, when
  there is none, leaves the table alone (\<open>record_lease\<close>) or adds it (\<open>record_static_lease\<close>).
\<close>

record lease =
  lease_mac :: string
  lease_ip :: string
  lease_ts :: int
  lease_expire :: int
  lease_auth :: string

definition renewed :: "string \<Rightarrow> u32 \<Rightarrow> u32 \<Rightarrow> string option \<Rightarrow> lease \<Rightarrow> lease" where
  "renewed m now expire auth r =
     r\<lparr>lease_mac := m, lease_ts := sint now, lease_expire := sint expire,
       lease_auth := (case auth of None \<Rightarrow> lease_auth r | Some a \<Rightarrow> a)\<rparr>"

definition renew :: "string \<Rightarrow> string \<Rightarrow> u32 \<Rightarrow> u32 \<Rightarrow> string option \<Rightarrow> lease set \<Rightarrow> lease set" where
  "renew m i now expire auth R = (\<lambda>r. if lease_ip r = i then renewed m now expire auth r else r) ` R"

definition keyed :: "lease set \<Rightarrow> bool" where
  "keyed R \<longleftrightarrow> inj_on lease_ip R"

lemma renewed_sel [simp]:
  "lease_ip (renewed m now expire auth r) = lease_ip r"
  "lease_mac (renewed m now expire auth r) = m"
  "lease_expire (renewed m now expire auth r) = sint expire"
  "lease_auth (renewed m now expire (Some a) r) = a"
  by (simp_all add: renewed_def)

lemma renew_owner: "r \<in> R \<Longrightarrow> lease_ip r = i \<Longrightarrow> renewed m now expire auth r \<in> renew m i now expire auth R"
  by (auto simp: renew_def)

lemma renew_ips [simp]: "lease_ip ` renew m i now expire auth R = lease_ip ` R"
  unfolding renew_def image_image by (rule image_cong) simp_all

lemma keyed_renew [simp]: "keyed R \<Longrightarrow> keyed (renew m i now expire auth R)"
  by (auto simp: keyed_def renew_def inj_on_def)

lemma keyed_insert: "keyed R \<Longrightarrow> lease_ip r \<notin> lease_ip ` R \<Longrightarrow> keyed (insert r R)"
  by (auto simp: keyed_def inj_on_insert)

lemma renew_other: "lease_ip r \<noteq> i \<Longrightarrow> r \<in> renew m i now expire auth R \<longleftrightarrow> r \<in> R"
  by (auto simp: renew_def image_iff)

lemma renew_same:
  "lease_ip r = i \<Longrightarrow> r \<in> renew m i now expire auth R \<longleftrightarrow> (\<exists>r0 \<in> R. lease_ip r0 = i \<and> r = renewed m now expire auth r0)"
  by (auto simp: renew_def image_iff split: if_splits)

text \<open>\<open>touches_only i R R'\<close>: the rows of other addresses than \<open>i\<close> are the same.\<close>

definition touches_only :: "string \<Rightarrow> lease set \<Rightarrow> lease set \<Rightarrow> bool" where
  "touches_only i R R' \<longleftrightarrow> (\<forall>r. lease_ip r \<noteq> i \<longrightarrow> (r \<in> R' \<longleftrightarrow> r \<in> R))"

lemma touches_only_refl [simp]: "touches_only i R R"
  by (simp add: touches_only_def)

lemma touches_only_renew [simp]: "touches_only i R (renew m i now expire auth R)"
  by (simp add: touches_only_def renew_other)

lemma touches_only_insert [simp]: "lease_ip r = i \<Longrightarrow> touches_only i R (insert r R)"
  by (auto simp: touches_only_def)

lemma touches_onlyD: "touches_only i R R' \<Longrightarrow> lease_ip r \<noteq> i \<Longrightarrow> r \<in> R \<Longrightarrow> r \<in> R'"
  by (simp add: touches_only_def)

definition affects_rows :: "('d \<Rightarrow> lease set) \<Rightarrow> string \<Rightarrow> 'd alloc_state \<Rightarrow> 'd alloc_state \<Rightarrow> bool" where
  "affects_rows rows i s s' \<longleftrightarrow> touches_only i (rows (leases_db s)) (rows (leases_db s'))
     \<and> (keyed (rows (leases_db s)) \<longrightarrow> keyed (rows (leases_db s'))) \<and> clock_calls s \<le> clock_calls s'"

lemma affects_rows_trans: "affects_rows rows i s t \<Longrightarrow> affects_rows rows i t u \<Longrightarrow> affects_rows rows i s u"
  by (auto simp: affects_rows_def touches_only_def)

lemma emit_frame:
  assumes "emit b ev s = (x, s')"
  shows "x = Inr ()" and "leases_db s' = leases_db s" and "clock_calls s' = clock_calls s"
    and "static_db s' = static_db s" and "static_get_query s' = static_get_query s"
    and "events s' = (if b then events s @ [ev] else events s)"
  using assms by (auto simp: emit_def split: if_splits)

section \<open>What the base class relies on\<close>

locale allocator_backend =
  fixes env :: alloc_env
    and vt :: "'d alloc_vtable"
    and rows :: "'d \<Rightarrow> lease set"
  assumes static_frame: "vt_get_static_ip vt mac s = (x, s') \<Longrightarrow>
        rows (leases_db s') = rows (leases_db s) \<and> clock_calls s \<le> clock_calls s'"
    and leased_frame: "vt_get_leased_ip vt mac s = (y, s') \<Longrightarrow>
        rows (leases_db s') = rows (leases_db s) \<and> clock_calls s \<le> clock_calls s'"
    and leased_found: "vt_get_leased_ip vt mac s = (Inr (Some ip), s') \<Longrightarrow>
        \<exists>r \<in> rows (leases_db s). lease_mac r = mac_s_addr mac \<and> IPAddress_s (lease_ip r) = Inr ip"
    and new_frame: "vt_get_new_ip vt mac s = (y, s') \<Longrightarrow>
        rows (leases_db s') = rows (leases_db s) \<and> clock_calls s \<le> clock_calls s'"
    and new_found: "vt_get_new_ip vt mac s = (Inr (Some ip), s') \<Longrightarrow>
        \<exists>r \<in> rows (leases_db s). \<exists>n. clock_calls s \<le> n \<and> n < clock_calls s'
          \<and> lease_expire r < sint (env_clock env n) \<and> IPAddress_s (lease_ip r) = Inr ip"
    and record_frame: "vt_record_lease vt mac ip auth s = (z, s') \<Longrightarrow>
        touches_only (ip_s_addr ip) (rows (leases_db s)) (rows (leases_db s'))
        \<and> clock_calls s \<le> clock_calls s'"
    and record_keyed: "vt_record_lease vt mac ip auth s = (z, s') \<Longrightarrow>
        keyed (rows (leases_db s)) \<Longrightarrow> keyed (rows (leases_db s'))"
    and record_static_frame: "vt_record_static_lease vt mac ip auth s = (z, s') \<Longrightarrow>
        touches_only (ip_s_addr ip) (rows (leases_db s)) (rows (leases_db s'))
        \<and> clock_calls s \<le> clock_calls s'"
    and record_static_keyed: "vt_record_static_lease vt mac ip auth s = (z, s') \<Longrightarrow>
        keyed (rows (leases_db s)) \<Longrightarrow> keyed (rows (leases_db s'))"
begin

lemma leased_ip_text:
  "vt_get_leased_ip vt mac s = (Inr (Some ip), s') \<Longrightarrow>
     \<exists>r \<in> rows (leases_db s). lease_mac r = mac_s_addr mac \<and> lease_ip r = ip_s_addr ip"
  using leased_found by (fastforce simp: IPAddress_s_def strcpy20_def split: if_splits)

lemma new_ip_text:
  "vt_get_new_ip vt mac s = (Inr (Some ip), s') \<Longrightarrow>
     \<exists>r \<in> rows (leases_db s). \<exists>n. clock_calls s \<le> n \<and> n < clock_calls s'
       \<and> lease_expire r < sint (env_clock env n) \<and> lease_ip r = ip_s_addr ip"
  using new_found by (fastforce simp: IPAddress_s_def strcpy20_def split: if_splits)

text \<open>The effect of a run on the lease table: nothing but the row of one address.\<close>

abbreviation affects :: "string \<Rightarrow> 'd alloc_state \<Rightarrow> 'd alloc_state \<Rightarrow> bool" where
  "affects \<equiv> affects_rows rows"

lemmas affects_def = affects_rows_def

definition reads :: "'d alloc_state \<Rightarrow> 'd alloc_state \<Rightarrow> bool" where
  "reads s s' \<longleftrightarrow> rows (leases_db s') = rows (leases_db s) \<and> clock_calls s \<le> clock_calls s'"

lemma reads_affects: "reads s s' \<Longrightarrow> affects i s s'"
  by (simp add: reads_def affects_def)

lemma affects_then_reads: "affects i s t \<Longrightarrow> reads t u \<Longrightarrow> affects i s u"
  by (auto simp: reads_def affects_def)

lemma reads_then_affects: "reads s t \<Longrightarrow> affects i t u \<Longrightarrow> affects i s u"
  by (auto simp: reads_def affects_def)

lemma reads_trans: "reads s t \<Longrightarrow> reads t u \<Longrightarrow> reads s u"
  by (auto simp: reads_def)

lemma vt_reads:
  "vt_get_static_ip vt mac s = (x, s') \<Longrightarrow> reads s s'"
  "vt_get_leased_ip vt mac s = (y, s') \<Longrightarrow> reads s s'"
  "vt_get_new_ip vt mac s = (y, s') \<Longrightarrow> reads s s'"
  "emit b ev s = (z, s') \<Longrightarrow> reads s s'"
  using static_frame leased_frame new_frame by (auto simp: reads_def emit_frame)

lemma vt_affects:
  "vt_record_lease vt mac ip auth s = (z, s') \<Longrightarrow> affects (ip_s_addr ip) s s'"
  "vt_record_static_lease vt mac ip auth s = (z, s') \<Longrightarrow> affects (ip_s_addr ip) s s'"
  using record_frame record_keyed record_static_frame record_static_keyed by (auto simp: affects_def)

lemma alloc_affects:
  "alloc_static env vt mac ip acc s = (x, s') \<Longrightarrow> affects (ip_s_addr ip) s s'"
  "alloc_leased vt mac ip s = (x, s') \<Longrightarrow> affects (ip_s_addr ip) s s'"
  "alloc_new env vt mac ip s = (x, s') \<Longrightarrow> affects (ip_s_addr ip) s s'"
  unfolding alloc_static_def alloc_leased_def alloc_new_def update_lease_def
  by (auto elim!: bindP_elim dest!: vt_affects vt_reads(4) intro: affects_then_reads)

text \<open>What made \<open>ip_alloc\<close> choose the address it touched.\<close>

definition entitled :: "MACAddress \<Rightarrow> 'd alloc_state \<Rightarrow> 'd alloc_state \<Rightarrow> string \<Rightarrow> bool" where
  "entitled mac s s' i \<longleftrightarrow>
     (\<exists>ip acc s1. vt_get_static_ip vt mac s = (Inr (Some (ip, acc)), s1) \<and> ip_s_addr ip = i)
   \<or> (\<exists>r \<in> rows (leases_db s). lease_ip r = i \<and> lease_mac r = mac_s_addr mac)
   \<or> (\<exists>r \<in> rows (leases_db s). lease_ip r = i
        \<and> (\<exists>n. clock_calls s \<le> n \<and> n < clock_calls s' \<and> lease_expire r < sint (env_clock env n)))"

lemma ip_alloc_affects:
  assumes "ip_alloc env vt mac s = (x, s')"
  shows "reads s s' \<or> (\<exists>i. affects i s s' \<and> entitled mac s s' i)"
  using assms [unfolded ip_alloc_def]
proof (cases rule: bindP_elim)
  case (step static s1)
  note s1 = vt_reads(1) [OF step(1)]
  show ?thesis
  proof (cases static)
    case (Some v)
    with step show ?thesis
      by (auto simp: entitled_def split: prod.splits dest!: alloc_affects(1) intro: reads_then_affects [OF s1])
  next
    case None
    with step(2) show ?thesis
    proof (simp, elim bindP_elim)
      fix leased s2
      assume leased: "vt_get_leased_ip vt mac s1 = (Inr leased, s2)"
        and rest: "(case leased of Some ip \<Rightarrow> alloc_leased vt mac ip
          | None \<Rightarrow> bindP (vt_get_new_ip vt mac) (\<lambda>fresh. case fresh of
               Some ip \<Rightarrow> alloc_new env vt mac ip | None \<Rightarrow> retP None)) s2 = (x, s')"
      note s2 = reads_trans [OF s1 vt_reads(2) [OF leased]]
      show ?thesis
      proof (cases leased)
        case (Some ip)
        then show ?thesis
          using leased rest leased_ip_text [of mac s1 ip s2] s1 reads_then_affects [OF s2] alloc_affects(2)
          by (fastforce simp: entitled_def reads_def)
      next
        case None
        with rest show ?thesis
        proof (simp, elim bindP_elim)
          fix fresh s3
          assume fresh: "vt_get_new_ip vt mac s2 = (Inr fresh, s3)"
            and rest: "(case fresh of Some ip \<Rightarrow> alloc_new env vt mac ip | None \<Rightarrow> retP None) s3 = (x, s')"
          note s3 = reads_trans [OF s2 vt_reads(3) [OF fresh]]
          show ?thesis
          proof (cases fresh)
            case (Some ip)
            then have a: "affects (ip_s_addr ip) s3 s'" using rest alloc_affects(3) by simp
            then show ?thesis
              using fresh Some new_ip_text [of mac s2 ip s3] s2 reads_then_affects [OF s3 a]
              by (fastforce simp: entitled_def reads_def affects_def)
          qed (use rest s3 in simp)
        qed (use s2 in \<open>auto dest: vt_reads intro: reads_trans\<close>)
      qed
    qed (use s1 in \<open>auto dest: vt_reads intro: reads_trans\<close>)
  qed
qed (auto dest: vt_reads)

lemma ip_alloc_keyed:
  "ip_alloc env vt mac s = (x, s') \<Longrightarrow> keyed (rows (leases_db s)) \<Longrightarrow> keyed (rows (leases_db s'))"
  using ip_alloc_affects [of mac s x s'] by (auto simp: reads_def affects_def)

lemma ip_alloc_live_kept:
  assumes run: "ip_alloc env vt mac s = (x, s')" and key: "keyed (rows (leases_db s))"
    and row: "row \<in> rows (leases_db s)" and other: "lease_mac row \<noteq> mac_s_addr mac"
    and live: "\<And>n. clock_calls s \<le> n \<Longrightarrow> n < clock_calls s' \<Longrightarrow> sint (env_clock env n) \<le> lease_expire row"
    and static: "\<And>ip acc s1. vt_get_static_ip vt mac s = (Inr (Some (ip, acc)), s1) \<Longrightarrow> ip_s_addr ip \<noteq> lease_ip row"
  shows "row \<in> rows (leases_db s')"
proof -
  have same: "r = row" if "r \<in> rows (leases_db s)" "lease_ip r = lease_ip row" for r
    using key row that by (auto simp: keyed_def inj_on_def)
  consider "reads s s'" | i where "affects i s s'" "entitled mac s s' i"
    using ip_alloc_affects [OF run] by blast
  then show ?thesis
  proof cases
    case 2
    have own: False if "r \<in> rows (leases_db s)" "lease_ip r = lease_ip row" "lease_mac r = mac_s_addr mac" for r
      using same [OF that(1,2)] that(3) other by simp
    have gone: False if "r \<in> rows (leases_db s)" "lease_ip r = lease_ip row" "clock_calls s \<le> n"
        "n < clock_calls s'" "lease_expire r < sint (env_clock env n)" for r n
      using same [OF that(1,2)] live [OF that(3,4)] that(5) by simp
    have "i \<noteq> lease_ip row"
      using 2(2) unfolding entitled_def by (auto dest: static own gone)
    then show ?thesis using 2(1) row by (auto simp: affects_def touches_only_def)
  qed (use row in \<open>simp add: reads_def\<close>)
qed

lemma ip_check_affects:
  assumes "ip_check env vt mac ip s = (x, s')"
  shows "affects (ip_s_addr ip) s s'"
  using assms unfolding ip_check_def update_lease_def update_static_lease_def
  by (auto split: option.splits prod.splits if_splits elim!: bindP_elim
      dest!: vt_affects vt_reads intro: reads_affects reads_then_affects reads_trans)
     (auto simp: affects_def reads_def)

lemma ip_check_True:
  assumes "ip_check env vt mac ip s = (Inr True, s')"
  obtains (static) sub newip acc s1 s2 where
      "mysubnet (env_subnets env) ip = Some sub" "vt_get_static_ip vt mac s = (Inr (Some (newip, acc)), s1)"
      "ip_u_addr newip = ip_u_addr ip" "vt_record_static_lease vt mac ip (Some ''static'') s1 = (Inr (), s2)" "s2 = s'"
    | (leased) sub newip s1 s2 where
      "mysubnet (env_subnets env) ip = Some sub" "has_dynamic_range sub"
      "vt_get_static_ip vt mac s = (Inr None, s1)" "vt_get_leased_ip vt mac s1 = (Inr (Some newip), s2)"
      "ip_u_addr newip = ip_u_addr ip" "vt_record_lease vt mac ip None s2 = (Inr (), s')"
  using assms unfolding ip_check_def update_lease_def update_static_lease_def ip_neq_def
  by (fastforce split: option.splits prod.splits if_splits elim!: bindP_elim)

lemma ip_check_True_lease:
  assumes "ip_check env vt mac ip s = (Inr True, s')"
  shows "\<exists>sub. mysubnet (env_subnets env) ip = Some sub
     \<and> ((\<exists>newip acc s1. vt_get_static_ip vt mac s = (Inr (Some (newip, acc)), s1) \<and> ip_u_addr newip = ip_u_addr ip)
      \<or> (has_dynamic_range sub \<and> (\<exists>r \<in> rows (leases_db s). lease_mac r = mac_s_addr mac
            \<and> (\<exists>newip. IPAddress_s (lease_ip r) = Inr newip \<and> ip_u_addr newip = ip_u_addr ip))))"
  using assms
proof (cases rule: ip_check_True)
  case (leased sub newip s1 s2)
  then show ?thesis using leased_found static_frame by metis
qed blast

text \<open>Where the address that is granted or accepted comes from.\<close>

lemma ip_alloc_source:
  assumes "ip_alloc env vt mac s = (Inr (Some ip), s')"
  shows "(\<exists>acc s1. vt_get_static_ip vt mac s = (Inr (Some (ip, acc)), s1))
    \<or> (\<exists>r \<in> rows (leases_db s). IPAddress_s (lease_ip r) = Inr ip)"
proof -
  from assms obtain static s1 where s1: "vt_get_static_ip vt mac s = (Inr static, s1)"
    and rest: "(case static of Some (ip, acc) \<Rightarrow> alloc_static env vt mac ip acc
      | None \<Rightarrow> bindP (vt_get_leased_ip vt mac) (\<lambda>leased. case leased of Some ip \<Rightarrow> alloc_leased vt mac ip
        | None \<Rightarrow> bindP (vt_get_new_ip vt mac) (\<lambda>fresh. case fresh of
               Some ip \<Rightarrow> alloc_new env vt mac ip | None \<Rightarrow> retP None))) s1 = (Inr (Some ip), s')"
    unfolding ip_alloc_def bindP_eq_Inr by blast
  have frame: "rows (leases_db s1) = rows (leases_db s)" using static_frame [OF s1] by simp
  show ?thesis
  proof (cases static)
    case (Some v)
    with s1 rest show ?thesis by (auto simp: alloc_static_def bindP_eq_Inr split: prod.splits)
  next
    case None
    with rest obtain leased s2 where s2: "vt_get_leased_ip vt mac s1 = (Inr leased, s2)"
      and rest2: "(case leased of Some ip \<Rightarrow> alloc_leased vt mac ip
        | None \<Rightarrow> bindP (vt_get_new_ip vt mac) (\<lambda>fresh. case fresh of
               Some ip \<Rightarrow> alloc_new env vt mac ip | None \<Rightarrow> retP None)) s2 = (Inr (Some ip), s')"
      by (auto simp: bindP_eq_Inr)
    show ?thesis
    proof (cases leased)
      case (Some ip')
      with rest2 have "ip' = ip" by (auto simp: alloc_leased_def bindP_eq_Inr)
      with s2 Some leased_found frame show ?thesis by blast
    next
      case None
      with rest2 obtain s3 where "vt_get_new_ip vt mac s2 = (Inr (Some ip), s3)"
        by (auto simp: bindP_eq_Inr alloc_new_def split: option.splits)
      with new_found leased_frame [OF s2] frame show ?thesis by metis
    qed
  qed
qed

lemma ip_check_touch:
  assumes "ip_check env vt mac ip s = (x, s')"
  shows "reads s s' \<or> affects (ip_s_addr ip) s s'
    \<and> ((\<exists>newip acc s1. vt_get_static_ip vt mac s = (Inr (Some (newip, acc)), s1) \<and> ip_u_addr newip = ip_u_addr ip)
      \<or> (\<exists>r \<in> rows (leases_db s). lease_mac r = mac_s_addr mac
           \<and> (\<exists>newip. IPAddress_s (lease_ip r) = Inr newip \<and> ip_u_addr newip = ip_u_addr ip)))"
proof (cases "mysubnet (env_subnets env) ip")
  case None
  then show ?thesis using assms by (auto simp: ip_check_def reads_def)
next
  case (Some sub)
  note a = ip_check_affects [OF assms]
  from assms Some have "bindP (vt_get_static_ip vt mac) (\<lambda>static. case static of
      Some (newip, inet_access) \<Rightarrow>
        if ip_neq ip newip then retP False else bindP (update_static_lease vt mac ip (Some ''static'')) (\<lambda>_. retP True)
    | None \<Rightarrow> if \<not> has_dynamic_range sub then retP False
        else bindP (vt_get_leased_ip vt mac) (\<lambda>leased. case leased of
            Some newip \<Rightarrow> if ip_neq ip newip then retP False else bindP (update_lease vt mac ip None) (\<lambda>_. retP True)
          | None \<Rightarrow> retP False)) s = (x, s')"
    by (simp add: ip_check_def)
  then show ?thesis
  proof (cases rule: bindP_elim)
    case (step static s1)
    note s1 = vt_reads(1) [OF step(1)]
    show ?thesis
    proof (cases static)
      case (Some v)
      obtain newip acc where v: "v = (newip, acc)" by (cases v)
      show ?thesis
      proof (cases "ip_neq ip newip")
        case True
        with Some v step s1 show ?thesis by auto
      next
        case False
        with Some v step a show ?thesis by (auto simp: ip_neq_def)
      qed
    next
      case None
      show ?thesis
      proof (cases "has_dynamic_range sub")
        case True
        with None step have "bindP (vt_get_leased_ip vt mac) (\<lambda>leased. case leased of
            Some newip \<Rightarrow> if ip_neq ip newip then retP False else bindP (update_lease vt mac ip None) (\<lambda>_. retP True)
          | None \<Rightarrow> retP False) s1 = (x, s')" by simp
        then show ?thesis
        proof (cases rule: bindP_elim)
          case leased: (step leased s2)
          note s2 = reads_trans [OF s1 vt_reads(2) [OF leased(1)]]
          show ?thesis
          proof (cases "\<exists>newip. leased = Some newip \<and> \<not> ip_neq ip newip")
            case True
            then obtain newip where new: "leased = Some newip" "ip_u_addr newip = ip_u_addr ip" by (auto simp: ip_neq_def)
            with leased_found leased(1) s1 show ?thesis using a unfolding reads_def by metis
          next
            case False
            with leased(2) s2 show ?thesis by (auto split: option.splits)
          qed
        qed (use s1 in \<open>auto dest: vt_reads intro: reads_trans\<close>)
      qed (use None step s1 in auto)
    qed
  qed (auto dest: vt_reads)
qed

lemma ip_invalidate_affects: "ip_invalidate vt mac ip s = (x, s') \<Longrightarrow> affects (ip_s_addr ip) s s'"
  by (simp add: ip_invalidate_def vt_affects)

end

text \<open>A backend that also stores what it is told to record.\<close>

locale recording_backend = allocator_backend env vt rows
  for env :: alloc_env and vt :: "'d alloc_vtable" and rows :: "'d \<Rightarrow> lease set" +
  assumes recorded: "vt_record_lease vt mac ip auth s = (Inr (), s') \<Longrightarrow>
        r \<in> rows (leases_db s') \<Longrightarrow> lease_ip r = ip_s_addr ip \<Longrightarrow>
        lease_mac r = mac_s_addr mac
        \<and> (\<exists>lt. Option.bind (globalnet (env_subnets env)) lease_time = Some lt
             \<and> lease_expire r = sint (env_clock env (clock_calls s) + lt))
        \<and> (\<forall>a. auth = Some a \<longrightarrow> lease_auth r = a)"
    and record_ips: "vt_record_lease vt mac ip auth s = (z, s') \<Longrightarrow>
        lease_ip ` rows (leases_db s') = lease_ip ` rows (leases_db s)"
    and static_recorded: "vt_record_static_lease vt mac ip auth s = (Inr (), s') \<Longrightarrow>
        \<exists>r \<in> rows (leases_db s'). lease_ip r = ip_s_addr ip \<and> lease_mac r = mac_s_addr mac"
begin

lemma recorded_exists:
  assumes "vt_record_lease vt mac ip auth s = (Inr (), s')" and "ip_s_addr ip \<in> lease_ip ` rows (leases_db s)"
  shows "\<exists>r \<in> rows (leases_db s'). lease_ip r = ip_s_addr ip \<and> lease_mac r = mac_s_addr mac"
proof -
  from assms record_ips obtain r where "r \<in> rows (leases_db s')" "lease_ip r = ip_s_addr ip"
    by (metis imageE)
  then show ?thesis using recorded [OF assms(1)] by blast
qed

text \<open>A granted address is held by the client: the table has a row that says so.\<close>

lemma ip_alloc_owner:
  assumes "ip_alloc env vt mac s = (Inr (Some ip), s')"
  shows "\<exists>r \<in> rows (leases_db s'). lease_ip r = ip_s_addr ip \<and> lease_mac r = mac_s_addr mac"
  using assms [unfolded ip_alloc_def]
proof (cases rule: bindP_elim)
  case (step static s1)
  show ?thesis
  proof (cases static)
    case (Some v)
    with step(2) show ?thesis
      by (auto simp: alloc_static_def emit_frame split: prod.splits elim!: bindP_elim dest!: static_recorded)
  next
    case None
    with step(2) show ?thesis
    proof (simp, elim bindP_elim, simp)
      fix leased s2
      assume leased: "vt_get_leased_ip vt mac s1 = (Inr leased, s2)"
        and rest: "(case leased of Some ip \<Rightarrow> alloc_leased vt mac ip
          | None \<Rightarrow> bindP (vt_get_new_ip vt mac) (\<lambda>fresh. case fresh of
               Some ip \<Rightarrow> alloc_new env vt mac ip | None \<Rightarrow> retP None)) s2 = (Inr (Some ip), s')"
      show ?thesis
      proof (cases leased)
        case (Some ip')
        with rest have [simp]: "ip' = ip" and run: "vt_record_lease vt mac ip (Some ''leased'') s2 = (Inr (), s')"
          by (auto simp: alloc_leased_def update_lease_def elim!: bindP_elim)
        have "ip_s_addr ip \<in> lease_ip ` rows (leases_db s2)"
          using leased_ip_text leased leased_frame [OF leased] Some by (metis \<open>ip' = ip\<close> imageI)
        then show ?thesis using run by (rule recorded_exists [rotated])
      next
        case None
        with rest show ?thesis
        proof (simp, elim bindP_elim, simp)
          fix fresh s3
          assume fresh: "vt_get_new_ip vt mac s2 = (Inr fresh, s3)"
            and rest: "(case fresh of Some ip \<Rightarrow> alloc_new env vt mac ip | None \<Rightarrow> retP None) s3 = (Inr (Some ip), s')"
          then obtain s4 where f: "fresh = Some ip" and run: "vt_record_lease vt mac ip (Some ''new'') s3 = (Inr (), s4)"
            and s4: "leases_db s' = leases_db s4"
            by (auto simp: alloc_new_def emit_frame split: option.splits elim!: bindP_elim)
          have "ip_s_addr ip \<in> lease_ip ` rows (leases_db s3)"
            using new_ip_text fresh new_frame [OF fresh] f by (metis imageI)
          then show ?thesis using recorded_exists [OF run] s4 by simp
        qed
      qed
    qed
  qed
qed simp

end

end
