(* ===== verification/PfTable.thy ===== *)
theory PfTable
  imports IpAllocator Simulation
begin

text \<open>
  \<open>src/src/pf/pf.h\<close>, \<open>pf.cxx\<close> and \<open>pftable.h\<close>: the client of the packet filter. The structures
  passed to the kernel are those of \<open>pf/xnu/net/pfvar.h\<close>, with the fields that the source sets;
  the others are zero. The kernel is a parameter: a state and the \<open>ioctl\<close> on it. What the source
  relies on is \<open>pf_kernel\<close>: an address table is a set of addresses for each name; for a request
  about single hosts a name without a terminator is refused, and a failing call changes nothing. Error messages of the log are kept.
\<close>

section \<open>Requests\<close>

abbreviation (input) PF_TABLE_NAME_SIZE :: nat where "PF_TABLE_NAME_SIZE \<equiv> 32"
abbreviation (input) sizeof_pfr_addr :: int where "sizeof_pfr_addr \<equiv> 20"
abbreviation (input) AF_INET :: u8 where "AF_INET \<equiv> 2"

datatype pf_request = DIOCRADDADDRS | DIOCRDELADDRS | DIOCRCLRADDRS

record pfr_addr =
  pfra_ip4addr :: u32
  pfra_af :: u8
  pfra_net :: u8

record pfioc_table =
  pfrio_name :: bytes
  pfrio_buffer :: "pfr_addr list"
  pfrio_esize :: int
  pfrio_size :: int

definition strncpy :: "nat \<Rightarrow> string \<Rightarrow> bytes" where
  "strncpy n s = take n (bytes_of_string s @ replicate n 0)"

record 'k pf_api =
  pf_ioctl :: "'k \<Rightarrow> int \<Rightarrow> pf_request \<Rightarrow> pfioc_table \<Rightarrow> int \<times> 'k"
  pf_open :: "string \<Rightarrow> int"
  pf_strerror :: string

definition pftable_add :: "'k pf_api \<Rightarrow> int \<Rightarrow> string \<Rightarrow> u32 \<Rightarrow> u8 \<Rightarrow> 'k \<Rightarrow> int \<times> 'k" where
  "pftable_add api pfd tname ip prefix k =
     pf_ioctl api k pfd DIOCRADDADDRS
       \<lparr>pfrio_name = strncpy PF_TABLE_NAME_SIZE tname,
        pfrio_buffer = [\<lparr>pfra_ip4addr = ip, pfra_af = AF_INET, pfra_net = prefix\<rparr>], pfrio_esize = sizeof_pfr_addr, pfrio_size = 1\<rparr>"

definition pftable_del :: "'k pf_api \<Rightarrow> int \<Rightarrow> string \<Rightarrow> u32 \<Rightarrow> u8 \<Rightarrow> 'k \<Rightarrow> int \<times> 'k" where
  "pftable_del api pfd tname ip prefix k =
     pf_ioctl api k pfd DIOCRDELADDRS
       \<lparr>pfrio_name = strncpy PF_TABLE_NAME_SIZE tname,
        pfrio_buffer = [\<lparr>pfra_ip4addr = ip, pfra_af = AF_INET, pfra_net = prefix\<rparr>], pfrio_esize = sizeof_pfr_addr, pfrio_size = 1\<rparr>"

definition pftable_flush :: "'k pf_api \<Rightarrow> int \<Rightarrow> string \<Rightarrow> 'k \<Rightarrow> int \<times> 'k" where
  "pftable_flush api pfd tname k =
     pf_ioctl api k pfd DIOCRCLRADDRS
       \<lparr>pfrio_name = strncpy PF_TABLE_NAME_SIZE tname, pfrio_buffer = [], pfrio_esize = 0, pfrio_size = 0\<rparr>"

section \<open>The table class\<close>

record 'k PFTable =
  pf_active :: bool
  pf_fd :: int
  pf_device :: "string option"
  pf_default_table :: "string option"
  pf_kernel_state :: 'k
  pf_errors :: "string list"

definition PFTable_new :: "'k \<Rightarrow> 'k PFTable" where
  "PFTable_new k = \<lparr>pf_active = False, pf_fd = -1, pf_device = None, pf_default_table = None, pf_kernel_state = k, pf_errors = []\<rparr>"

definition pf_initialize :: "'k pf_api \<Rightarrow> string \<Rightarrow> string \<Rightarrow> 'k PFTable \<Rightarrow> 'k PFTable res" where
  "pf_initialize api device tname pt =
     (let fd = pf_open api device in
      if fd < 0 then Inl (PFException (''Not able to open pf device '' @ device @ '' ('' @ pf_strerror api @ '')''))
      else Inr (pt\<lparr>pf_default_table := Some tname, pf_device := Some device, pf_fd := fd, pf_active := True\<rparr>))"

text \<open>The result of a call: an error is only written to the log.\<close>

definition pf_report :: "'k pf_api \<Rightarrow> string \<Rightarrow> int \<times> 'k \<Rightarrow> 'k PFTable \<Rightarrow> 'k PFTable" where
  "pf_report api what rk pt =
     (case rk of (rc, k) \<Rightarrow>
        pt\<lparr>pf_kernel_state := k,
           pf_errors := (if rc < 0 then pf_errors pt @ [what @ '' ('' @ pf_strerror api @ '')''] else pf_errors pt)\<rparr>)"

definition pf_add_to :: "'k pf_api \<Rightarrow> string \<Rightarrow> u32 \<Rightarrow> 'k PFTable \<Rightarrow> 'k PFTable" where
  "pf_add_to api table ip_addr pt =
     pf_report api (''PF: Error adding '' @ ip_u2s ip_addr @ '' to '' @ quoted table)
       (pftable_add api (pf_fd pt) table ip_addr 32 (pf_kernel_state pt)) pt"

definition pf_del_from :: "'k pf_api \<Rightarrow> string \<Rightarrow> u32 \<Rightarrow> 'k PFTable \<Rightarrow> 'k PFTable" where
  "pf_del_from api table ip_addr pt =
     pf_report api (''PF: Error deleting '' @ ip_u2s ip_addr @ '' from '' @ quoted table)
       (pftable_del api (pf_fd pt) table ip_addr 32 (pf_kernel_state pt)) pt"

definition pf_flush_table :: "'k pf_api \<Rightarrow> string \<Rightarrow> 'k PFTable \<Rightarrow> 'k PFTable" where
  "pf_flush_table api table pt =
     pf_report api (''PF: Error flushing '' @ quoted table) (pftable_flush api (pf_fd pt) table (pf_kernel_state pt)) pt"

text \<open>The calls on the default table; a table that was never set is a null pointer to \<open>strncpy\<close>.\<close>

definition pf_add :: "'k pf_api \<Rightarrow> u32 \<Rightarrow> 'k PFTable \<Rightarrow> 'k PFTable res" where
  "pf_add api ip_addr pt = bindR (deref (pf_default_table pt)) (\<lambda>t. Inr (pf_add_to api t ip_addr pt))"

definition pf_del :: "'k pf_api \<Rightarrow> u32 \<Rightarrow> 'k PFTable \<Rightarrow> 'k PFTable res" where
  "pf_del api ip_addr pt = bindR (deref (pf_default_table pt)) (\<lambda>t. Inr (pf_del_from api t ip_addr pt))"

definition pf_flush :: "'k pf_api \<Rightarrow> 'k PFTable \<Rightarrow> 'k PFTable res" where
  "pf_flush api pt = bindR (deref (pf_default_table pt)) (\<lambda>t. Inr (pf_flush_table api t pt))"

definition pf_add_text :: "'k pf_api \<Rightarrow> string \<Rightarrow> 'k PFTable \<Rightarrow> 'k PFTable res" where
  "pf_add_text api ip_addr pt = bindR (ip_s2u ip_addr) (\<lambda>a. pf_add api a pt)"

definition pf_del_text :: "'k pf_api \<Rightarrow> string \<Rightarrow> 'k PFTable \<Rightarrow> 'k PFTable res" where
  "pf_del_text api ip_addr pt = bindR (ip_s2u ip_addr) (\<lambda>a. pf_del api a pt)"

section \<open>Tables as sets\<close>

text \<open>The kernel's side of the contract; \<open>tables\<close> reads the addresses of a table off its state. A name
  is the C string in its field, if it is terminated there.\<close>

definition pf_table_name :: "bytes \<Rightarrow> string option" where
  "pf_table_name b = (case cstr b of Inr s \<Rightarrow> Some s | Inl _ \<Rightarrow> None)"

definition pf_effect :: "pf_request \<Rightarrow> pfr_addr list \<Rightarrow> u32 set \<Rightarrow> u32 set" where
  "pf_effect rq as A =
     (case rq of
        DIOCRADDADDRS \<Rightarrow> A \<union> pfra_ip4addr ` set as
      | DIOCRDELADDRS \<Rightarrow> A - pfra_ip4addr ` set as
      | DIOCRCLRADDRS \<Rightarrow> {})"

text \<open>A request that is about single hosts: IPv4 addresses with all bits of the prefix, and the sizes of
  the buffer.\<close>

definition pf_host_request :: "pf_request \<Rightarrow> pfioc_table \<Rightarrow> bool" where
  "pf_host_request rq io \<longleftrightarrow>
     pfrio_size io = int (length (pfrio_buffer io))
     \<and> pfrio_esize io = (if rq = DIOCRCLRADDRS then 0 else sizeof_pfr_addr)
     \<and> (\<forall>a \<in> set (pfrio_buffer io). pfra_af a = AF_INET \<and> pfra_net a = 32)"

definition pf_kernel :: "'k pf_api \<Rightarrow> ('k \<Rightarrow> string \<Rightarrow> u32 set) \<Rightarrow> bool" where
  "pf_kernel api tables \<longleftrightarrow>
     (\<forall>k fd rq io rc k'. pf_host_request rq io \<longrightarrow> pf_ioctl api k fd rq io = (rc, k') \<longrightarrow>
        (case pf_table_name (pfrio_name io) of
           None \<Rightarrow> rc < 0 \<and> tables k' = tables k
         | Some t \<Rightarrow> tables k' = (if rc < 0 then tables k else (tables k)(t := pf_effect rq (pfrio_buffer io) (tables k t)))))"

datatype pf_op = Admit u32 | Expel u32 | Expel_all

text \<open>One call and whether it was reported as failed.\<close>

definition pf_step :: "'k pf_api \<Rightarrow> 'k PFTable \<Rightarrow> pf_op \<Rightarrow> (bool \<times> 'k PFTable) res" where
  "pf_step api pt op =
     bindR (case op of Admit a \<Rightarrow> pf_add api a pt | Expel a \<Rightarrow> pf_del api a pt | Expel_all \<Rightarrow> pf_flush api pt) (\<lambda>pt'.
     Inr (pf_errors pt' \<noteq> pf_errors pt, pt'))"

definition op_effect :: "pf_op \<Rightarrow> u32 set \<Rightarrow> u32 set" where
  "op_effect op A = (case op of Admit a \<Rightarrow> insert a A | Expel a \<Rightarrow> A - {a} | Expel_all \<Rightarrow> {})"


lemma table_name_strncpy:
  assumes "CHR 0x00 \<notin> set t"
  shows "pf_table_name (strncpy 32 t) = (if length t < 32 then Some t else None)"
proof (cases "length t < 32")
  case True
  then obtain n where "32 - length t = Suc n" by (metis Suc_diff_Suc)
  then have "strncpy 32 t = bytes_of_string t @ 0 # replicate n 0" using True by (simp add: strncpy_def)
  with True cstr_bytes_of_string [OF assms, of "replicate n 0"] show ?thesis by (simp add: pf_table_name_def)
next
  case False
  have fault: "CHR 0x00 \<notin> set s \<Longrightarrow> cstr (bytes_of_string s) = Inl MemFault" for s
  proof (induction s)
    case (Cons c s)
    have "byte_of_char c \<noteq> 0"
    proof
      assume "byte_of_char c = 0"
      then have "byte_of_char c = byte_of_char (CHR 0x00)" by simp
      then have "c = CHR 0x00" by (simp only: byte_of_char_eq_iff)
      with Cons.prems show False by simp
    qed
    with Cons show ?case by simp
  qed simp
  have "strncpy 32 t = bytes_of_string (take 32 t)" using False by (simp add: strncpy_def take_map)
  moreover have "CHR 0x00 \<notin> set (take 32 t)" using assms by (meson in_set_takeD)
  ultimately show ?thesis using False fault [of "take 32 t"] by (simp add: pf_table_name_def)
qed

lemma pf_step_effect:
  assumes "pf_kernel api tables" and "pf_default_table pt = Some t" and "CHR 0x00 \<notin> set t"
  shows "\<exists>failed pt'. pf_step api pt op = Inr (failed, pt') \<and> pf_default_table pt' = Some t
    \<and> (length t \<ge> 32 \<longrightarrow> failed) \<and> tables (pf_kernel_state pt') =
      (if failed then tables (pf_kernel_state pt) else (tables (pf_kernel_state pt))(t := op_effect op (tables (pf_kernel_state pt) t)))"
proof -
  note name = table_name_strncpy [OF assms(3)]
  have call: "\<exists>rc k'. pf_ioctl api (pf_kernel_state pt) fd rq io = (rc, k') \<and> (length t \<ge> 32 \<longrightarrow> rc < 0) \<and>
      tables k' = (if rc < 0 then tables (pf_kernel_state pt)
                   else (tables (pf_kernel_state pt))(t := pf_effect rq (pfrio_buffer io) (tables (pf_kernel_state pt) t)))"
    if "pfrio_name io = strncpy 32 t" and "pf_host_request rq io" for fd rq io
  proof -
    obtain rc k' where r: "pf_ioctl api (pf_kernel_state pt) fd rq io = (rc, k')" by fastforce
    with assms(1) have "case pf_table_name (pfrio_name io) of
        None \<Rightarrow> rc < 0 \<and> tables k' = tables (pf_kernel_state pt)
      | Some t \<Rightarrow> tables k' = (if rc < 0 then tables (pf_kernel_state pt)
          else (tables (pf_kernel_state pt))(t := pf_effect rq (pfrio_buffer io) (tables (pf_kernel_state pt) t)))"
      using that(2) unfolding pf_kernel_def by blast
    with r show ?thesis unfolding that(1) name by (cases "length t < 32") auto
  qed
  show ?thesis
  proof (cases op)
    case (Admit a)
    from call [of "\<lparr>pfrio_name = strncpy 32 t, pfrio_buffer = [\<lparr>pfra_ip4addr = a, pfra_af = 2, pfra_net = 32\<rparr>], pfrio_esize = 20, pfrio_size = 1\<rparr>" DIOCRADDADDRS "pf_fd pt"]
    show ?thesis using Admit assms(2)
      by (auto simp: pf_step_def pf_add_def pf_add_to_def pftable_add_def pf_report_def op_effect_def pf_effect_def pf_host_request_def)
  next
    case (Expel a)
    from call [of "\<lparr>pfrio_name = strncpy 32 t, pfrio_buffer = [\<lparr>pfra_ip4addr = a, pfra_af = 2, pfra_net = 32\<rparr>], pfrio_esize = 20, pfrio_size = 1\<rparr>" DIOCRDELADDRS "pf_fd pt"]
    show ?thesis using Expel assms(2)
      by (auto simp: pf_step_def pf_del_def pf_del_from_def pftable_del_def pf_report_def op_effect_def pf_effect_def pf_host_request_def)
  next
    case Expel_all
    from call [of "\<lparr>pfrio_name = strncpy 32 t, pfrio_buffer = [], pfrio_esize = 0, pfrio_size = 0\<rparr>" DIOCRCLRADDRS "pf_fd pt"]
    show ?thesis using Expel_all assms(2)
      by (auto simp: pf_step_def pf_flush_def pf_flush_table_def pftable_flush_def pf_report_def op_effect_def pf_effect_def pf_host_request_def)
  qed
qed

text \<open>The effect of the calls that were not reported as failed.\<close>

definition effects :: "pf_op list \<Rightarrow> bool list \<Rightarrow> u32 set \<Rightarrow> u32 set" where
  "effects ops failed A = fold (\<lambda>(op, f) A. if f then A else op_effect op A) (zip ops failed) A"

lemma effects_simps [simp]:
  "effects [] failed A = A" "effects (op # ops) (f # failed) A = effects ops failed (if f then A else op_effect op A)"
  by (simp_all add: effects_def)

text \<open>C30 The admission list is a set: whatever calls are made on the default table, each adds or removes
  its address unless it is reported as failed, no other table changes, and with a table name of 32
  or more characters every call fails without effect.\<close>

theorem pf_table_is_set:
  assumes "pf_kernel api tables" and "pf_default_table pt = Some t" and "CHR 0x00 \<notin> set t"
  shows "\<exists>failed pt'. run_ops (pf_step api) pt ops = Inr (failed, pt') \<and> length failed = length ops
    \<and> tables (pf_kernel_state pt') = (tables (pf_kernel_state pt))(t := effects ops failed (tables (pf_kernel_state pt) t))
    \<and> (length t \<ge> 32 \<longrightarrow> failed = replicate (length ops) True)"
  using assms(2)
proof (induction ops arbitrary: pt)
  case Nil
  then show ?case by simp
next
  case (Cons op ops)
  from pf_step_effect [OF assms(1) Cons.prems assms(3), of op] obtain f pt1 where
    step: "pf_step api pt op = Inr (f, pt1)" "pf_default_table pt1 = Some t" "length t \<ge> 32 \<longrightarrow> f"
      "tables (pf_kernel_state pt1) =
        (if f then tables (pf_kernel_state pt) else (tables (pf_kernel_state pt))(t := op_effect op (tables (pf_kernel_state pt) t)))"
    by blast
  from Cons.IH [OF step(2)] obtain fs pt' where
    "run_ops (pf_step api) pt1 ops = Inr (fs, pt')" "length fs = length ops"
    "tables (pf_kernel_state pt') = (tables (pf_kernel_state pt1))(t := effects ops fs (tables (pf_kernel_state pt1) t))"
    "length t \<ge> 32 \<longrightarrow> fs = replicate (length ops) True" by blast
  with step show ?case by (intro exI [of _ "f # fs"] exI [of _ pt']) (cases f; simp)
qed


text \<open>A kernel that keeps its tables in a map.\<close>

definition mem_pf_ioctl :: "(string \<Rightarrow> u32 set) \<Rightarrow> int \<Rightarrow> pf_request \<Rightarrow> pfioc_table \<Rightarrow> int \<times> (string \<Rightarrow> u32 set)" where
  "mem_pf_ioctl k fd rq io =
     (case pf_table_name (pfrio_name io) of
        None \<Rightarrow> (-1, k)
      | Some t \<Rightarrow> (0, k(t := pf_effect rq (pfrio_buffer io) (k t))))"

definition mem_pf :: "(string \<Rightarrow> u32 set) pf_api" where
  "mem_pf = \<lparr>pf_ioctl = mem_pf_ioctl, pf_open = (\<lambda>_. 3), pf_strerror = ''Invalid argument''\<rparr>"

lemma mem_pf_kernel: "pf_kernel mem_pf (\<lambda>k. k)"
  by (auto simp: pf_kernel_def mem_pf_def mem_pf_ioctl_def split: option.splits)

definition example_pf :: "(string \<Rightarrow> u32 set) PFTable" where
  "example_pf = \<lparr>pf_active = True, pf_fd = 3, pf_device = Some ''/dev/pf'', pf_default_table = Some ''admitted'',
     pf_kernel_state = (\<lambda>t. if t = ''admitted'' then {0x6500000A, 0x6600000A} else {}), pf_errors = []\<rparr>"

text \<open>Two hosts admitted and one expelled again.\<close>

theorem pf_table_is_set_witness:
  "\<exists>failed pt'. run_ops (pf_step mem_pf) example_pf [Admit 1, Expel 0x6500000A, Admit 2] = Inr (failed, pt') \<and> length failed = 3
    \<and> pf_kernel_state pt' = (pf_kernel_state example_pf)(''admitted'' :=
        effects [Admit 1, Expel 0x6500000A, Admit 2] failed {0x6500000A, 0x6600000A})"
proof -
  have pf: "pf_default_table example_pf = Some ''admitted''" "pf_kernel_state example_pf ''admitted'' = {0x6500000A, 0x6600000A}"
    by (simp_all add: example_pf_def)
  show ?thesis
    using pf_table_is_set [OF mem_pf_kernel pf(1), of "[Admit 1, Expel 0x6500000A, Admit 2]"] unfolding pf(2) by auto
qed

end
