(* ===== verification/RadiusConstants.thy ===== *)
theory RadiusConstants
  imports Printf
begin

text \<open>
  \<open>src/src/radius/radius_constants.h\<close> and the name tables of \<open>radius_packet.cxx\<close>. Adjacent
  string literals of the source without a comma between them are one entry of the table.
\<close>

abbreviation RADIUS_ACCT_PORT :: int where "RADIUS_ACCT_PORT \<equiv> 1813"
abbreviation RAD_ACCT_REQUEST :: u8 where "RAD_ACCT_REQUEST \<equiv> 4"
abbreviation RAD_ACCT_RESPONSE :: u8 where "RAD_ACCT_RESPONSE \<equiv> 5"

definition rad_attr_codes :: "(string \<times> nat) list" where
  "rad_attr_codes =
     [
      (''RAD_ATTR_USER_NAME'', 1), (''RAD_ATTR_USER_PASSWORD'', 2), (''RAD_ATTR_CHAP_PASSWORD'', 3),
      (''RAD_ATTR_NAS_IP_ADDRESS'', 4), (''RAD_ATTR_NAS_PORT'', 5), (''RAD_ATTR_SERVICE_TYPE'', 6),
      (''RAD_ATTR_FRAMED_PROTOCOL'', 7), (''RAD_ATTR_FRAMED_IP_ADDRESS'', 8), (''RAD_ATTR_FRAMED_IP_NETMASK'', 9),
      (''RAD_ATTR_FRAMED_ROUTING'', 10), (''RAD_ATTR_FILTER_ID'', 11), (''RAD_ATTR_FRAMED_MTU'', 12),
      (''RAD_ATTR_FRAMED_COMPRESSION'', 13), (''RAD_ATTR_LOGIN_IP_HOST'', 14), (''RAD_ATTR_LOGIN_SERVICE'', 15),
      (''RAD_ATTR_LOGIN_TCP_PORT'', 16), (''RAD_ATTR_OLD_PASSWORD'', 17), (''RAD_ATTR_REPLY_MESSAGE'', 18),
      (''RAD_ATTR_CALLBACK_NUMBER'', 19), (''RAD_ATTR_CALLBACK_ID'', 20), (''RAD_ATTR_EXPIRATION'', 21),
      (''RAD_ATTR_FRAMED_ROUTE'', 22), (''RAD_ATTR_FRAMED_IPXNET'', 23), (''RAD_ATTR_STATE'', 24),
      (''RAD_ATTR_CLASS'', 25), (''RAD_ATTR_VENDOR_SPECIFIC'', 26), (''RAD_ATTR_SESSION_TIMEOUT'', 27),
      (''RAD_ATTR_IDLE_TIMEOUT'', 28), (''RAD_ATTR_CALLED_STATION_ID'', 30), (''RAD_ATTR_CALLING_STATION_ID'', 31),
      (''RAD_ATTR_NAS_IDENTIFIER'', 32), (''RAD_ATTR_PROXY_STATE'', 33), (''RAD_ATTR_ACCT_STATUS_TYPE'', 40),
      (''RAD_ATTR_ACCT_DELAY_TIME'', 41), (''RAD_ATTR_ACCT_INPUT_OCTETS'', 42), (''RAD_ATTR_ACCT_OUTPUT_OCTETS'', 43),
      (''RAD_ATTR_ACCT_SESSION_ID'', 44), (''RAD_ATTR_ACCT_AUTHENTIC'', 45), (''RAD_ATTR_ACCT_SESSION_TIME'', 46),
      (''RAD_ATTR_ACCT_INPUT_PACKETS'', 47), (''RAD_ATTR_ACCT_OUTPUT_PACKETS'', 48), (''RAD_ATTR_ACCT_TERMINATE_CAUSE'', 49),
      (''RAD_ATTR_EVENT_TIMESTAMP'', 55), (''RAD_ATTR_CHAP_CHALLENGE'', 60), (''RAD_ATTR_NAS_PORT_TYPE'', 61),
      (''RAD_ATTR_PORT_LIMIT'', 62), (''RAD_ATTR_ARAP_PASSWORD'', 70), (''RAD_ATTR_ARAP_FEATURES'', 71),
      (''RAD_ATTR_ARAP_ZONE_ACCESS'', 72), (''RAD_ATTR_ARAP_SECURITY'', 73), (''RAD_ATTR_ARAP_SECURITY_DATA'', 74),
      (''RAD_ATTR_PASSWORD_RETRY'', 75), (''RAD_ATTR_PROMPT'', 76), (''RAD_ATTR_CONNECT_INFO'', 77),
      (''RAD_ATTR_CONFIGURATION_TOKEN'', 78), (''RAD_ATTR_EAP_MESSAGE'', 79), (''RAD_ATTR_MESSAGE_AUTHENTICATOR'', 80),
      (''RAD_ATTR_ARAP_CHALLENGE_RESPONSE'', 84), (''RAD_ATTR_NAS_PORT_ID_STRING'', 87), (''RAD_ATTR_FRAMED_POOL'', 88),
      (''RAD_ATTR_CHARGEABLE_USER_IDENTITY'', 89), (''RAD_ATTR_NAS_IPV6_ADDRESS'', 95)]"

abbreviation RAD_ATTR_USER_NAME :: u8 where "RAD_ATTR_USER_NAME \<equiv> 1"
abbreviation RAD_ATTR_NAS_IP_ADDRESS :: u8 where "RAD_ATTR_NAS_IP_ADDRESS \<equiv> 4"
abbreviation RAD_ATTR_CALLED_STATION_ID :: u8 where "RAD_ATTR_CALLED_STATION_ID \<equiv> 30"
abbreviation RAD_ATTR_CALLING_STATION_ID :: u8 where "RAD_ATTR_CALLING_STATION_ID \<equiv> 31"
abbreviation RAD_ATTR_ACCT_STATUS_TYPE :: u8 where "RAD_ATTR_ACCT_STATUS_TYPE \<equiv> 40"
abbreviation RAD_ATTR_ACCT_SESSION_ID :: u8 where "RAD_ATTR_ACCT_SESSION_ID \<equiv> 44"

section \<open>Names\<close>

definition radius_pkt_names :: "string list" where
  "radius_pkt_names =
     [''Unknown'', ''Access-Request'', ''Access-Accept'', ''Access-Reject'',
      ''Accounting-Request'', ''Accounting-Response'']"

definition radius_attr_names :: "string list" where
  "radius_attr_names =
     [
      ''Unknown'', ''User-Name'', ''User-Password'', ''CHAP-Password'',
      ''NAS-IP-Address'', ''NAS-Port'', ''Service-Type'', ''Framed-Protocol'',
      ''Framed-IP-Address'', ''Framed-IP-Netmask'', ''Framed-Routing'', ''Filter-Id'',
      ''Framed-MTU'', ''Framed-Compression'', ''Login-IP-Host'', ''Login-Service'',
      ''Login-TCP-Port'', ''User-Old-Password?'', ''Reply-Message'', ''Callback-Number'',
      ''Callback-Id'', ''Expiration?'', ''Framed-Route'', ''Framed-IPX-Network'',
      ''State'', ''Class'', ''Vendor-Specific'', ''Session-Timeout'',
      ''Idle-Timeout'', ''Termination-Action'', ''Called-Station-Id'', ''Calling-Station-Id'',
      ''NAS-Identifier'', ''Proxy-State'', ''Login-LAT-Service?'', ''Login-LAT-Node?'',
      ''Login-LAT-Group?'', ''Framed-AppleTalk-Link?'', ''Framed-AppleTalk-Network?'', ''Framed-AppleTalk-Zone?'',
      ''Acct-Status-Type'', ''Acct-Delay-Time'', ''Acct-Input-Octets'', ''Acct-Output-Octets'',
      ''Acct-Session-Id'', ''Acct-Authentic'', ''Acct-Session-Time'', ''Acct-Input-Packets'',
      ''Acct-Output-Packets'', ''Acct-Terminate-Cause'', ''Acct-Multi-Session-Id?'', ''Acct-Link-Count?'',
      ''Acct-Input-Gigawords'', ''Acct-Output-Gigawords'', ''Unknown?Event-Timestamp'', ''Egress-VLANID?'',
      ''Ingress-Filters?'', ''Egress-VLAN-Name?'', ''User-Priority-Table?'', ''CHAP-Challenge'',
      ''NAS-Port-Type'', ''Port-Limit'', ''Login-LAT-Port?'', ''Tunnel-Type?'',
      ''Tunnel-Medium-Type?'', ''Tunnel-Client-Endpoint?'', ''Tunnel-Server-Endpoint?'', ''Acct-Tunnel-Connection?'',
      ''Tunnel-Password?'', ''ARAP-Password'', ''ARAP-Features'', ''ARAP-Zone-Access'',
      ''ARAP-Security'', ''ARAP-Security-Data'', ''Password-Retry'', ''Prompt'',
      ''Connect-Info'', ''Configuration-Token'', ''EAP-Message'', ''Message-Authenticator'',
      ''Tunnel-Private-Group-ID?'', ''Tunnel-Assignment-ID?'', ''Tunnel-Preference?'', ''ARAP-Challenge-Response'',
      ''Acct-Interim-Interval?'', ''Acct-Tunnel-Packets-Lost?'', ''NAS-Port-Id'', ''Framed-Pool'',
      ''Cargeable-User-Identity'', ''Tunnel-Client-Auth-ID?'', ''Tunnel-Server-Auth-ID?'', ''NAS-Filter-Rule?'',
      ''Originating-Line-Info?'', ''NAS-IPv6-Address?'', ''Framed-Interface-Id?'', ''Framed-IPv6-Prefix?'',
      ''Login-IPv6-Host?'', ''Framed-IPv6-Route?'', ''Framed-IPv6-Pool?'', ''Error-Cause Attribute?'',
      ''EAP-Key-Name?'', ''Digest-Response?'', ''Digest-Realm?'', ''Digest-Nonce?'',
      ''Digest-Response-Auth?'', ''Digest-Nextnonce?'', ''Digest-Method?'', ''Digest-URI?'',
      ''Digest-Qop?'', ''Digest-Algorithm?'', ''Digest-Entity-Body-Hash?'', ''Digest-CNonce?'',
      ''Digest-Nonce-Count?'', ''Digest-Username?'', ''Digest-Opaque?'', ''Digest-Auth-Param?'',
      ''Digest-AKA-Auts?'', ''Digest-Domain?'', ''Digest-Stale?'', ''Digest-HA1?'',
      ''SIP-AOR?'', ''Delegated-IPv6-Prefix?'', ''MIP6-Feature-Vector?'', ''MIP6-Home-Link-Prefix?'',
      ''Operator-Name?'', ''Location-Information?'', ''Location-Data?'', ''Basic-Location-Policy-Rules?'',
      ''Extended-Location-Policy-Rules?'', ''Location-Capable?'', ''Requested-Location-Info?'', ''Framed-Management-Protocol?'',
      ''Management-Transport-Protection?'', ''Management-Policy-Id?'', ''Management-Privilege-Level?'', ''PKM-SS-Cert?'',
      ''PKM-CA-Cert?'', ''PKM-Config-Settings?'', ''PKM-Cryptosuite-List?'', ''PKM-SAID?'',
      ''PKM-SA-Descriptor?'', ''PKM-Auth-Key?'', ''DS-Lite-Tunnel-Name?'', ''Mobile-Node-Identifier?'',
      ''Service-Selection?'', ''PMIP6-Home-LMA-IPv6-Address?'', ''PMIP6-Visited-LMA-IPv6-Address?'', ''PMIP6-Home-LMA-IPv4-Address?'',
      ''PMIP6-Visited-LMA-IPv4-Address?'', ''PMIP6-Home-HN-Prefix?'', ''PMIP6-Visited-HN-Prefix?'', ''PMIP6-Home-Interface-ID?'',
      ''PMIP6-Visited-Interface-ID?'', ''PMIP6-Home-IPv4-HoA?'', ''PMIP6-Visited-IPv4-HoA?'', ''PMIP6-Home-DHCP4-Server-Address?'',
      ''PMIP6-Visited-DHCP4-Server-Address?'', ''PMIP6-Home-DHCP6-Server-Address?'', ''PMIP6-Visited-DHCP6-Server-Address?'', ''PMIP6-Home-IPv4-Gateway?'',
      ''PMIP6-Visited-IPv4-Gateway?'', ''EAP-Lower-Layer?'', ''GSS-Acceptor-Service-Name?'', ''GSS-Acceptor-Host-Name?'',
      ''GSS-Acceptor-Service-Specifics?'', ''GSS-Acceptor-Realm-Name?'', ''Framed-IPv6-Address?'', ''DNS-Server-IPv6-Address?'',
      ''Route-IPv6-Information?'', ''Delegated-IPv6-Prefix-Pool?'', ''Stateful-IPv6-Address-Pool?'', ''IPv6-6rd-Configuration?'',
      ''Allowed-Called-Station-Id?'', ''EAP-Peer-Id?'', ''EAP-Server-Id?'', ''Mobility-Domain-Id?'',
      ''Preauth-Timeout?'', ''Network-Id-Name?'', ''EAPoL-Announcement?'', ''WLAN-HESSID?'',
      ''WLAN-Venue-Info?'', ''WLAN-Venue-Language?'', ''WLAN-Venue-Name?'', ''WLAN-Reason-Code?'',
      ''WLAN-Pairwise-Cipher?'', ''WLAN-Group-Cipher?'', ''WLAN-AKM-Suite?'', ''WLAN-Group-Mgmt-Cipher?'',
      ''WLAN-RF-Band?'']"

definition rad_code_name :: "u16 \<Rightarrow> string" where
  "rad_code_name code =
     (if unat code > length radius_pkt_names - 1 then ''UNKNOWN'' else radius_pkt_names ! unat code)"

definition rad_attr_name :: "u16 \<Rightarrow> string" where
  "rad_attr_name type =
     (if unat type > length radius_attr_names - 1 then ''UNKNOWN'' else radius_attr_names ! unat type)"

section \<open>The printed names\<close>

text \<open>The entry that the table has for each code of \<open>radius_constants.h\<close>, its literals counted
  one by one.\<close>

definition rad_attr_labels :: "(nat \<times> string) list" where
  "rad_attr_labels =
     [
      (1, ''User-Name''), (2, ''User-Password''), (3, ''CHAP-Password''),
      (4, ''NAS-IP-Address''), (5, ''NAS-Port''), (6, ''Service-Type''),
      (7, ''Framed-Protocol''), (8, ''Framed-IP-Address''), (9, ''Framed-IP-Netmask''),
      (10, ''Framed-Routing''), (11, ''Filter-Id''), (12, ''Framed-MTU''),
      (13, ''Framed-Compression''), (14, ''Login-IP-Host''), (15, ''Login-Service''),
      (16, ''Login-TCP-Port''), (17, ''User-Old-Password?''), (18, ''Reply-Message''),
      (19, ''Callback-Number''), (20, ''Callback-Id''), (21, ''Expiration?''),
      (22, ''Framed-Route''), (23, ''Framed-IPX-Network''), (24, ''State''),
      (25, ''Class''), (26, ''Vendor-Specific''), (27, ''Session-Timeout''),
      (28, ''Idle-Timeout''), (30, ''Called-Station-Id''), (31, ''Calling-Station-Id''),
      (32, ''NAS-Identifier''), (33, ''Proxy-State''), (40, ''Acct-Status-Type''),
      (41, ''Acct-Delay-Time''), (42, ''Acct-Input-Octets''), (43, ''Acct-Output-Octets''),
      (44, ''Acct-Session-Id''), (45, ''Acct-Authentic''), (46, ''Acct-Session-Time''),
      (47, ''Acct-Input-Packets''), (48, ''Acct-Output-Packets''), (49, ''Acct-Terminate-Cause''),
      (55, ''Event-Timestamp''), (60, ''CHAP-Challenge''), (61, ''NAS-Port-Type''),
      (62, ''Port-Limit''), (70, ''ARAP-Password''), (71, ''ARAP-Features''),
      (72, ''ARAP-Zone-Access''), (73, ''ARAP-Security''), (74, ''ARAP-Security-Data''),
      (75, ''Password-Retry''), (76, ''Prompt''), (77, ''Connect-Info''),
      (78, ''Configuration-Token''), (79, ''EAP-Message''), (80, ''Message-Authenticator''),
      (84, ''ARAP-Challenge-Response''), (87, ''NAS-Port-Id''), (88, ''Framed-Pool''),
      (89, ''Cargeable-User-Identity''), (95, ''Framed-Interface-Id?'')]"

lemma rad_attr_labels_codes: "map fst rad_attr_labels = map snd rad_attr_codes"
  by (simp add: rad_attr_labels_def rad_attr_codes_def)

text \<open>Of the attribute codes of \<open>radius_constants.h\<close> exactly those below 55 are printed with the
  entry that the name table holds for them: the comma after the entry for 54 is missing,
  so that every later code is printed with the name of its successor.\<close>

theorem rad_attr_name_correct_codes:
  "filter (\<lambda>(c, label). rad_attr_name (of_nat c) = label) rad_attr_labels = filter (\<lambda>(c, label). c < 55) rad_attr_labels"
  by code_simp

end
