(* ===== verification/Md5.thy ===== *)
theory Md5
  imports Prelude
begin

text \<open>
  \<open>src/src/tools/md5.c\<close> and \<open>md5.h\<close>: the MD5 digest that authenticates RADIUS messages. The four
  registers are a tuple, a \<open>SET\<close> line of the source an operation on one of them, and the 64
  lines the four lists of operations. The lemmas relate the block function to the steps of RFC 1321,
  defined apart from it, and the incremental interface to the one-shot digest: padding, length and
  a fold over the blocks.
\<close>

section \<open>One block\<close>

type_synonym abcd = "u32 \<times> u32 \<times> u32 \<times> u32"

datatype md5_reg = RA | RB | RC | RD

definition T_MASK :: u32 where
  "T_MASK = NOT 0"

definition T_table :: "u32 list" where
  "T_table = [
     T_MASK XOR 0x28955b87, T_MASK XOR 0x173848a9, 0x242070db, T_MASK XOR 0x3e423111,
     T_MASK XOR 0x0a83f050, 0x4787c62a, T_MASK XOR 0x57cfb9ec, T_MASK XOR 0x02b96afe,
     0x698098d8, T_MASK XOR 0x74bb0850, T_MASK XOR 0x0000a44e, T_MASK XOR 0x76a32841,
     0x6b901122, T_MASK XOR 0x02678e6c, T_MASK XOR 0x5986bc71, 0x49b40821,
     T_MASK XOR 0x09e1da9d, T_MASK XOR 0x3fbf4cbf, 0x265e5a51, T_MASK XOR 0x16493855,
     T_MASK XOR 0x29d0efa2, 0x02441453, T_MASK XOR 0x275e197e, T_MASK XOR 0x182c0437,
     0x21e1cde6, T_MASK XOR 0x3cc8f829, T_MASK XOR 0x0b2af278, 0x455a14ed,
     T_MASK XOR 0x561c16fa, T_MASK XOR 0x03105c07, 0x676f02d9, T_MASK XOR 0x72d5b375,
     T_MASK XOR 0x0005c6bd, T_MASK XOR 0x788e097e, 0x6d9d6122, T_MASK XOR 0x021ac7f3,
     T_MASK XOR 0x5b4115bb, 0x4bdecfa9, T_MASK XOR 0x0944b49f, T_MASK XOR 0x4140438f,
     0x289b7ec6, T_MASK XOR 0x155ed805, T_MASK XOR 0x2b10cf7a, 0x04881d05,
     T_MASK XOR 0x262b2fc6, T_MASK XOR 0x1924661a, 0x1fa27cf8, T_MASK XOR 0x3b53a99a,
     T_MASK XOR 0x0bd6ddbb, 0x432aff97, T_MASK XOR 0x546bdc58, T_MASK XOR 0x036c5fc6,
     0x655b59c3, T_MASK XOR 0x70f3336d, T_MASK XOR 0x00100b82, T_MASK XOR 0x7a7ba22e,
     0x6fa87e4f, T_MASK XOR 0x01d3191f, T_MASK XOR 0x5cfebceb, 0x4e0811a1,
     T_MASK XOR 0x08ac817d, T_MASK XOR 0x42c50dca, 0x2ad7d2bb, T_MASK XOR 0x14792c6e]"

definition ROTATE_LEFT :: "u32 \<Rightarrow> nat \<Rightarrow> u32" where
  "ROTATE_LEFT x n = push_bit n x OR drop_bit (32 - n) x"

definition md5_F :: "u32 \<Rightarrow> u32 \<Rightarrow> u32 \<Rightarrow> u32" where
  "md5_F x y z = (x AND y) OR (NOT x AND z)"

definition md5_G :: "u32 \<Rightarrow> u32 \<Rightarrow> u32 \<Rightarrow> u32" where
  "md5_G x y z = (x AND z) OR (y AND NOT z)"

definition md5_H :: "u32 \<Rightarrow> u32 \<Rightarrow> u32 \<Rightarrow> u32" where
  "md5_H x y z = x XOR y XOR z"

definition md5_I :: "u32 \<Rightarrow> u32 \<Rightarrow> u32 \<Rightarrow> u32" where
  "md5_I x y z = y XOR (x OR NOT z)"

text \<open>\<open>SET(a, b, c, d, k, s, Ti)\<close>: the new value of the first register; the other arguments follow
  it cyclically. The operation names \<open>T\<close> by its number, counted from one.\<close>

definition SET_value :: "(u32 \<Rightarrow> u32 \<Rightarrow> u32 \<Rightarrow> u32) \<Rightarrow> u32 \<Rightarrow> u32 \<Rightarrow> u32 \<Rightarrow> u32 \<Rightarrow> u32 \<Rightarrow> nat \<Rightarrow> u32 \<Rightarrow> u32" where
  "SET_value f a b c d x s Ti = (let t = a + f b c d + x + Ti in ROTATE_LEFT t s + b)"

fun SET :: "(u32 \<Rightarrow> u32 \<Rightarrow> u32 \<Rightarrow> u32) \<Rightarrow> u32 list \<Rightarrow> md5_reg \<times> nat \<times> nat \<times> nat \<Rightarrow> abcd \<Rightarrow> abcd" where
  "SET f X (RA, k, s, i) (a, b, c, d) = (SET_value f a b c d (X ! k) s (T_table ! (i - 1)), b, c, d)"
| "SET f X (RD, k, s, i) (a, b, c, d) = (a, b, c, SET_value f d a b c (X ! k) s (T_table ! (i - 1)))"
| "SET f X (RC, k, s, i) (a, b, c, d) = (a, b, SET_value f c d a b (X ! k) s (T_table ! (i - 1)), d)"
| "SET f X (RB, k, s, i) (a, b, c, d) = (a, SET_value f b c d a (X ! k) s (T_table ! (i - 1)), c, d)"

definition round1_ops :: "(md5_reg \<times> nat \<times> nat \<times> nat) list" where
  "round1_ops = [
      (RA, 0, 7, 1), (RD, 1, 12, 2), (RC, 2, 17, 3), (RB, 3, 22, 4),
      (RA, 4, 7, 5), (RD, 5, 12, 6), (RC, 6, 17, 7), (RB, 7, 22, 8),
      (RA, 8, 7, 9), (RD, 9, 12, 10), (RC, 10, 17, 11), (RB, 11, 22, 12),
      (RA, 12, 7, 13), (RD, 13, 12, 14), (RC, 14, 17, 15), (RB, 15, 22, 16)]"

definition round2_ops :: "(md5_reg \<times> nat \<times> nat \<times> nat) list" where
  "round2_ops = [
      (RA, 1, 5, 17), (RD, 6, 9, 18), (RC, 11, 14, 19), (RB, 0, 20, 20),
      (RA, 5, 5, 21), (RD, 10, 9, 22), (RC, 15, 14, 23), (RB, 4, 20, 24),
      (RA, 9, 5, 25), (RD, 14, 9, 26), (RC, 3, 14, 27), (RB, 8, 20, 28),
      (RA, 13, 5, 29), (RD, 2, 9, 30), (RC, 7, 14, 31), (RB, 12, 20, 32)]"

definition round3_ops :: "(md5_reg \<times> nat \<times> nat \<times> nat) list" where
  "round3_ops = [
      (RA, 5, 4, 33), (RD, 8, 11, 34), (RC, 11, 16, 35), (RB, 14, 23, 36),
      (RA, 1, 4, 37), (RD, 4, 11, 38), (RC, 7, 16, 39), (RB, 10, 23, 40),
      (RA, 13, 4, 41), (RD, 0, 11, 42), (RC, 3, 16, 43), (RB, 6, 23, 44),
      (RA, 9, 4, 45), (RD, 12, 11, 46), (RC, 15, 16, 47), (RB, 2, 23, 48)]"

definition round4_ops :: "(md5_reg \<times> nat \<times> nat \<times> nat) list" where
  "round4_ops = [
      (RA, 0, 6, 49), (RD, 7, 10, 50), (RC, 14, 15, 51), (RB, 5, 21, 52),
      (RA, 12, 6, 53), (RD, 3, 10, 54), (RC, 10, 15, 55), (RB, 1, 21, 56),
      (RA, 8, 6, 57), (RD, 15, 10, 58), (RC, 6, 15, 59), (RB, 13, 21, 60),
      (RA, 4, 6, 61), (RD, 11, 10, 62), (RC, 2, 15, 63), (RB, 9, 21, 64)]"

definition md5_words :: "bytes \<Rightarrow> u32 list" where
  "md5_words data = map (\<lambda>i. le_word (take 4 (drop (4 * i) data))) [0..<16]"

definition md5_process :: "abcd \<Rightarrow> bytes \<Rightarrow> abcd" where
  "md5_process v data =
     (let X = md5_words data;
          v1 = foldl (\<lambda>w op. SET md5_F X op w) v round1_ops;
          v2 = foldl (\<lambda>w op. SET md5_G X op w) v1 round2_ops;
          v3 = foldl (\<lambda>w op. SET md5_H X op w) v2 round3_ops;
          v4 = foldl (\<lambda>w op. SET md5_I X op w) v3 round4_ops
      in case (v, v4) of ((a0, b0, c0, d0), (a, b, c, d)) \<Rightarrow> (a0 + a, b0 + b, c0 + c, d0 + d))"

section \<open>The incremental interface\<close>

record md5_state =
  count0 :: u32
  count1 :: u32
  abcd_regs :: abcd
  md5_buf :: bytes

text \<open>\<open>md5_init\<close> leaves the block buffer as it was.\<close>

definition md5_init :: "bytes \<Rightarrow> md5_state" where
  "md5_init garbage =
     \<lparr>count0 = 0, count1 = 0,
      abcd_regs = (0x67452301, T_MASK XOR 0x10325476, T_MASK XOR 0x67452301, 0x10325476), md5_buf = garbage\<rparr>"

fun md5_full_blocks :: "abcd \<Rightarrow> bytes \<Rightarrow> nat \<Rightarrow> nat \<Rightarrow> (abcd \<times> nat \<times> nat) res" where
  "md5_full_blocks v data p left =
     (if left < 64 then Inr (v, p, left)
      else bindR (read_range data p 64) (\<lambda>blk. md5_full_blocks (md5_process v blk) data (p + 64) (left - 64)))"

declare md5_full_blocks.simps [simp del]

text \<open>From the initial partial block on; \<open>nbytes\<close> is positive here.\<close>

definition md5_rest :: "md5_state \<Rightarrow> bytes \<Rightarrow> nat \<Rightarrow> nat \<Rightarrow> md5_state res" where
  "md5_rest pms data p left =
     bindR (md5_full_blocks (abcd_regs pms) data p left) (\<lambda>(v, p, left).
     let pms = pms\<lparr>abcd_regs := v\<rparr> in
     if left \<noteq> 0 then
       bindR (read_range data p left) (\<lambda>tail.
       bindR (write_range (md5_buf pms) 0 tail) (\<lambda>b. Inr (pms\<lparr>md5_buf := b\<rparr>)))
     else Inr pms)"

definition md5_append :: "md5_state \<Rightarrow> bytes \<Rightarrow> int \<Rightarrow> md5_state res" where
  "md5_append pms data nbytes =
     (let offset = unat (drop_bit 3 (count0 pms) AND 63);
          nbits = push_bit 3 (of_int nbytes :: u32);
          n = nat nbytes in
      if nbytes \<le> 0 then Inr pms
      else
        let c0 = count0 pms + nbits;
            c1 = count1 pms + of_int (drop_bit 29 nbytes) + (if c0 < nbits then 1 else 0);
            pms = pms\<lparr>count0 := c0, count1 := c1\<rparr> in
        if offset \<noteq> 0 then
          let copy = (if offset + n > 64 then 64 - offset else n) in
          bindR (read_range data 0 copy) (\<lambda>bs.
          bindR (write_range (md5_buf pms) offset bs) (\<lambda>b.
          let pms = pms\<lparr>md5_buf := b\<rparr> in
          if offset + copy < 64 then Inr pms
          else md5_rest (pms\<lparr>abcd_regs := md5_process (abcd_regs pms) b\<rparr>) data copy (n - copy)))
        else md5_rest pms data 0 n)"

definition md5_pad :: bytes where
  "md5_pad = 0x80 # replicate 63 0"

definition abcd_bytes :: "abcd \<Rightarrow> bytes" where
  "abcd_bytes v = (case v of (a, b, c, d) \<Rightarrow> le_bytes 4 a @ le_bytes 4 b @ le_bytes 4 c @ le_bytes 4 d)"

definition md5_finish :: "md5_state \<Rightarrow> (md5_state \<times> bytes) res" where
  "md5_finish pms =
     (let data = le_bytes 4 (count0 pms) @ le_bytes 4 (count1 pms) in
      bindR (md5_append pms md5_pad (uint ((55 - drop_bit 3 (count0 pms)) AND 63) + 1)) (\<lambda>pms.
      bindR (md5_append pms data 8) (\<lambda>pms.
      Inr (pms, abcd_bytes (abcd_regs pms)))))"

section \<open>MD5 as RFC 1321 states it\<close>

text \<open>The reference is written from the RFC and shares no operation with the code above: words and
  bytes are converted by arithmetic, a step computes one register from all four and rotates their
  names, where the code changes one register in place, and a round is given by its function,
  word order and rotations. The table \<open>T[i]\<close> is the integer part of \<open>2 ^ 32 * abs (sin i)\<close>.\<close>

definition rfc_T :: "u32 list" where
  "rfc_T = [
     0xd76aa478, 0xe8c7b756, 0x242070db, 0xc1bdceee, 0xf57c0faf, 0x4787c62a,
     0xa8304613, 0xfd469501, 0x698098d8, 0x8b44f7af, 0xffff5bb1, 0x895cd7be,
     0x6b901122, 0xfd987193, 0xa679438e, 0x49b40821, 0xf61e2562, 0xc040b340,
     0x265e5a51, 0xe9b6c7aa, 0xd62f105d, 0x02441453, 0xd8a1e681, 0xe7d3fbc8,
     0x21e1cde6, 0xc33707d6, 0xf4d50d87, 0x455a14ed, 0xa9e3e905, 0xfcefa3f8,
     0x676f02d9, 0x8d2a4c8a, 0xfffa3942, 0x8771f681, 0x6d9d6122, 0xfde5380c,
     0xa4beea44, 0x4bdecfa9, 0xf6bb4b60, 0xbebfbc70, 0x289b7ec6, 0xeaa127fa,
     0xd4ef3085, 0x04881d05, 0xd9d4d039, 0xe6db99e5, 0x1fa27cf8, 0xc4ac5665,
     0xf4292244, 0x432aff97, 0xab9423a7, 0xfc93a039, 0x655b59c3, 0x8f0ccc92,
     0xffeff47d, 0x85845dd1, 0x6fa87e4f, 0xfe2ce6e0, 0xa3014314, 0x4e0811a1,
     0xf7537e82, 0xbd3af235, 0x2ad7d2bb, 0xeb86d391]"

definition rfc_fun :: "nat \<Rightarrow> u32 \<Rightarrow> u32 \<Rightarrow> u32 \<Rightarrow> u32" where
  "rfc_fun r x y z = [(x AND y) OR (NOT x AND z), (x AND z) OR (y AND NOT z), x XOR y XOR z, y XOR (x OR NOT z)] ! r"

definition rfc_index :: "nat \<Rightarrow> nat \<Rightarrow> nat" where
  "rfc_index r i = [i, 5 * i + 1, 3 * i + 5, 7 * i] ! r mod 16"

definition rfc_shift :: "nat \<Rightarrow> nat \<Rightarrow> nat" where
  "rfc_shift r i = [[7, 12, 17, 22], [5, 9, 14, 20], [4, 11, 16, 23], [6, 10, 15, 21]] ! r ! (i mod 4)"

fun rfc_step :: "u32 list \<Rightarrow> abcd \<Rightarrow> nat \<Rightarrow> abcd" where
  "rfc_step X (A, B, C, D) i =
     (let r = i div 16 in
      (D, B + word_rotl (rfc_shift r i) (A + rfc_fun r B C D + X ! rfc_index r i + rfc_T ! i), B, C))"

definition rfc_words :: "bytes \<Rightarrow> u32 list" where
  "rfc_words blk = map (\<lambda>k. of_nat (\<Sum>j<4. unat (blk ! (4 * k + j)) * 256 ^ j)) [0..<16]"

fun rfc_add :: "abcd \<Rightarrow> abcd \<Rightarrow> abcd" where
  "rfc_add (A, B, C, D) (A', B', C', D') = (A + A', B + B', C + C', D + D')"

definition rfc_block :: "abcd \<Rightarrow> bytes \<Rightarrow> abcd" where
  "rfc_block v blk = rfc_add v (foldl (rfc_step (rfc_words blk)) v [0..<64])"

definition rfc_bytes :: "nat \<Rightarrow> nat \<Rightarrow> bytes" where
  "rfc_bytes n x = map (\<lambda>i. of_nat (x div 256 ^ i mod 256)) [0..<n]"

abbreviation md5_iv :: abcd where
  "md5_iv \<equiv> (0x67452301, 0xEFCDAB89, 0x98BADCFE, 0x10325476)"

definition md5_padded :: "bytes \<Rightarrow> bytes" where
  "md5_padded msg = msg @ 0x80 # replicate (nat ((55 - int (length msg)) mod 64)) 0
     @ rfc_bytes 8 (8 * length msg)"

definition full_blocks :: "bytes \<Rightarrow> bytes list" where
  "full_blocks bs = map (\<lambda>i. take 64 (drop (64 * i) bs)) [0..<length bs div 64]"

definition md5_rfc :: "bytes \<Rightarrow> bytes" where
  "md5_rfc msg = (case foldl rfc_block md5_iv (full_blocks (md5_padded msg)) of (A, B, C, D) \<Rightarrow>
     concat (map (\<lambda>w. rfc_bytes 4 (unat w)) [A, B, C, D]))"

section \<open>The code's block function is the RFC's\<close>

lemma le_word_sum: "(le_word bs :: 'a::len word) = of_nat (\<Sum>j<length bs. unat (bs ! j) * 256 ^ j)"
proof (induction bs)
  case (Cons b bs)
  let ?s = "\<Sum>j<length bs. unat (bs ! j) * 256 ^ j"
  have "(ucast b :: 'a word) OR push_bit 8 (le_word bs) = ucast b + push_bit 8 (le_word bs)"
    by (rule word_OR_add) (auto simp: bit_simps dest: bit_imp_le_length)
  also have "\<dots> = of_nat (unat b + 256 * ?s)"
    by (simp only: Cons push_bit_eq_mult of_nat_add of_nat_mult of_nat_unat) simp
  also have "unat b + 256 * ?s = (\<Sum>j<length (b # bs). unat ((b # bs) ! j) * 256 ^ j)"
    by (simp add: sum.lessThan_Suc_shift sum_distrib_left mult.left_commute del: sum.lessThan_Suc)
  finally show ?case by simp
qed simp

lemma le_bytes_arith: "le_bytes n w = rfc_bytes n (unat w)"
proof -
  have "(ucast (drop_bit (8 * i) w) :: u8) = of_nat (unat w div 256 ^ i mod 256)" for i
    unfolding word_unat_eq_iff unsigned_ucast_eq unsigned_drop_bit_eq
    by (simp add: take_bit_eq_mod drop_bit_eq_div power_mult unat_of_nat)
  then show ?thesis by (simp add: le_bytes_def rfc_bytes_def)
qed

lemma words_rfc: "length blk = 64 \<Longrightarrow> md5_words blk = rfc_words blk"
  by (auto simp: md5_words_def rfc_words_def le_word_sum)

lemma ROTATE_LEFT_rotl: "0 < n \<Longrightarrow> n < 32 \<Longrightarrow> ROTATE_LEFT x n = word_rotl n x"
proof (rule bit_word_eqI)
  fix m assume n: "0 < n" "n < 32" and m: "m < LENGTH(32)"
  have "(m + 32 - n) mod 32 = (if n \<le> m then m - n else 32 + m - n)"
  proof (cases "n \<le> m")
    case True
    then have "m + 32 - n = m - n + 32" by simp
    then show ?thesis using True m by (simp only: mod_add_self2) simp
  qed (use m in simp)
  then show "bit (ROTATE_LEFT x n) m = bit (word_rotl n x) m"
    using n m by (auto simp: ROTATE_LEFT_def bit_simps dest: bit_imp_le_length)
qed

lemma T_table_eq: "T_table = [
     0xd76aa478, 0xe8c7b756, 0x242070db, 0xc1bdceee, 0xf57c0faf, 0x4787c62a,
     0xa8304613, 0xfd469501, 0x698098d8, 0x8b44f7af, 0xffff5bb1, 0x895cd7be,
     0x6b901122, 0xfd987193, 0xa679438e, 0x49b40821, 0xf61e2562, 0xc040b340,
     0x265e5a51, 0xe9b6c7aa, 0xd62f105d, 0x02441453, 0xd8a1e681, 0xe7d3fbc8,
     0x21e1cde6, 0xc33707d6, 0xf4d50d87, 0x455a14ed, 0xa9e3e905, 0xfcefa3f8,
     0x676f02d9, 0x8d2a4c8a, 0xfffa3942, 0x8771f681, 0x6d9d6122, 0xfde5380c,
     0xa4beea44, 0x4bdecfa9, 0xf6bb4b60, 0xbebfbc70, 0x289b7ec6, 0xeaa127fa,
     0xd4ef3085, 0x04881d05, 0xd9d4d039, 0xe6db99e5, 0x1fa27cf8, 0xc4ac5665,
     0xf4292244, 0x432aff97, 0xab9423a7, 0xfc93a039, 0x655b59c3, 0x8f0ccc92,
     0xffeff47d, 0x85845dd1, 0x6fa87e4f, 0xfe2ce6e0, 0xa3014314, 0x4e0811a1,
     0xf7537e82, 0xbd3af235, 0x2ad7d2bb, 0xeb86d391]"
  by (simp add: T_table_def T_MASK_def)

text \<open>The operations of the source in the RFC's terms: the registers rotate, and the word, the rotation
  and the table entry of an operation are those of its number.\<close>

definition rfc_ops :: "nat \<Rightarrow> nat \<Rightarrow> nat \<Rightarrow> nat list \<Rightarrow> (md5_reg \<times> nat \<times> nat \<times> nat) list" where
  "rfc_ops r m c ss = map (\<lambda>i. ([RA, RD, RC, RB] ! (i mod 4), (m * i + c) mod 16, ss ! (i mod 4), 16 * r + i + 1)) [0..<16]"

lemma round_ops_rfc:
  "round1_ops = rfc_ops 0 1 0 [7, 12, 17, 22]" "round2_ops = rfc_ops 1 5 1 [5, 9, 14, 20]"
  "round3_ops = rfc_ops 2 3 5 [4, 11, 16, 23]" "round4_ops = rfc_ops 3 7 0 [6, 10, 15, 21]"
  by code_simp+

definition md5_tail :: "bytes \<Rightarrow> bytes" where
  "md5_tail bs = drop (64 * (length bs div 64)) bs"

lemma rfc_bytes_64: "rfc_bytes 8 (unat (of_nat x :: u64)) = rfc_bytes 8 x"
proof -
  have "x mod 2 ^ 64 div 256 ^ i mod 256 = x div 256 ^ i mod 256" if "i < 8" for i :: nat
  proof -
    have "x mod 2 ^ 64 div 256 ^ i mod 256 = take_bit 8 (drop_bit (8 * i) (take_bit 64 x))"
      by (simp add: take_bit_eq_mod drop_bit_eq_div power_mult)
    also have "\<dots> = take_bit 8 (drop_bit (8 * i) x)"
      by (rule bit_eqI) (use that in \<open>auto simp: bit_simps\<close>)
    finally show ?thesis by (simp add: take_bit_eq_mod drop_bit_eq_div power_mult)
  qed
  then show ?thesis by (simp add: rfc_bytes_def unat_of_nat)
qed

text \<open>The registers as the RFC's step number \<open>n\<close> names them.\<close>

definition rfc_view :: "nat \<Rightarrow> abcd \<Rightarrow> abcd" where
  "rfc_view n v = (case v of (a, b, c, d) \<Rightarrow> [(a, b, c, d), (d, a, b, c), (c, d, a, b), (b, c, d, a)] ! (n mod 4))"

lemma less_4_cases: "r < 4 \<Longrightarrow> r = 0 \<or> r = 1 \<or> r = 2 \<or> r = 3" for r :: nat
  by auto

lemma map_plus_upt: "map ((+) k) [0..<m] = [k..<k + m]"
proof -
  have "(+) k = (\<lambda>i. i + k)" by (simp add: fun_eq_iff)
  then show ?thesis using map_add_upt [of k m] by (simp only: add.commute [of k m])
qed

lemma SET_value_rotl:
  "0 < s \<Longrightarrow> s < 32 \<Longrightarrow> SET_value f a b c d x s Ti = b + word_rotl s (a + f b c d + x + Ti)"
  by (simp add: SET_value_def Let_def ROTATE_LEFT_rotl)

lemma rfc_index_op: "r < 4 \<Longrightarrow> rfc_index r (16 * r + n) = ([1, 5, 3, 7] ! r * n + [0, 1, 5, 0] ! r) mod 16"
proof -
  assume r: "r < 4"
  have "k * (16 * r + n) + c = k * n + c + 16 * (k * r)" for k c :: nat by (simp add: algebra_simps)
  then have m: "(k * (16 * r + n) + c) mod 16 = (k * n + c) mod 16" for k c :: nat by (simp only: mod_mult_self2)
  show ?thesis
    using less_4_cases [OF r] m [of 1 0] m [of 5 1] m [of 3 5] m [of 7 0] by (auto simp: rfc_index_def)
qed

lemma rfc_shift_op:
  "rfc_shift r (16 * r + n) = rfc_shift r (n mod 4)" "r < 4 \<Longrightarrow> 0 < rfc_shift r i \<and> rfc_shift r i < 32"
proof -
  have "(16 * r + n) mod 4 = n mod 4" by presburger
  then show "rfc_shift r (16 * r + n) = rfc_shift r (n mod 4)" by (simp only: rfc_shift_def mod_mod_trivial)
  show "0 < rfc_shift r i \<and> rfc_shift r i < 32" if "r < 4"
    using less_4_cases [OF that] less_4_cases [of "i mod 4"] by (auto simp: rfc_shift_def)
qed

lemma SET_rfc_step:
  assumes "r < 4" and "n < 16"
  shows "rfc_step X (rfc_view n w) (16 * r + n)
     = rfc_view (Suc n) (SET (rfc_fun r) X (rfc_ops r ([1, 5, 3, 7] ! r) ([0, 1, 5, 0] ! r) (map (rfc_shift r) [0..<4]) ! n) w)"
proof -
  obtain a b c d where w: "w = (a, b, c, d)" by (metis prod_cases4)
  have T: "T_table = rfc_T" by (simp only: T_table_eq rfc_T_def)
  have r: "(16 * r + n) div 16 = r" using assms(2) by simp
  consider "n mod 4 = 0" "Suc n mod 4 = 1" | "n mod 4 = 1" "Suc n mod 4 = 2" | "n mod 4 = 2" "Suc n mod 4 = 3" | "n mod 4 = 3" "Suc n mod 4 = 0"
    using less_4_cases [of "n mod 4"] by (auto simp: mod_Suc)
  then show ?thesis
    using assms rfc_shift_op(2) [OF assms(1), of "n mod 4"]
    by cases (simp_all add: w rfc_ops_def rfc_view_def Let_def SET_value_rotl r T rfc_index_op rfc_shift_op(1))
qed

lemma rfc_round:
  assumes r: "r < 4" and ops: "ops = rfc_ops r ([1, 5, 3, 7] ! r) ([0, 1, 5, 0] ! r) (map (rfc_shift r) [0..<4])"
    and n: "n \<le> 16"
  shows "foldl (rfc_step X) v (map ((+) (16 * r)) [0..<n]) = rfc_view n (foldl (\<lambda>w op. SET (rfc_fun r) X op w) v (take n ops))"
  using n
proof (induction n)
  case (Suc n)
  then have "take (Suc n) ops = take n ops @ [ops ! n]"
    by (intro take_Suc_conv_app_nth) (simp add: ops rfc_ops_def)
  with Suc SET_rfc_step [OF r, of n X] show ?case by (simp add: ops)
qed (simp add: rfc_view_def split: prod.splits)

lemma md5_process_rfc:
  assumes "length blk = 64"
  shows "md5_process v blk = rfc_block v blk"
proof -
  let ?X = "rfc_words blk"
  have f: "md5_F = rfc_fun 0" "md5_G = rfc_fun 1" "md5_H = rfc_fun 2" "md5_I = rfc_fun 3"
    by (intro ext; simp add: rfc_fun_def md5_F_def md5_G_def md5_H_def md5_I_def)+
  have round: "foldl (\<lambda>w op. SET (rfc_fun r) ?X op w) v ops = foldl (rfc_step ?X) v [16 * r..<16 * r + 16]"
    if "r < 4" "ops = rfc_ops r ([1, 5, 3, 7] ! r) ([0, 1, 5, 0] ! r) (map (rfc_shift r) [0..<4])" for r ops v
  proof -
    have "length ops = 16" using that(2) by (simp add: rfc_ops_def)
    then show ?thesis
      using rfc_round [OF that, of 16 ?X v]
      by (simp only: map_plus_upt) (simp add: rfc_view_def split: prod.splits)
  qed
  have s: "map (rfc_shift r) [0..<4] = [[7, 12, 17, 22], [5, 9, 14, 20], [4, 11, 16, 23], [6, 10, 15, 21]] ! r" if "r < 4" for r
    using less_4_cases [OF that] by (auto simp: rfc_shift_def upt_rec)
  have rounds: "foldl (\<lambda>w op. SET md5_F ?X op w) v round1_ops = foldl (rfc_step ?X) v [0..<16]"
      "foldl (\<lambda>w op. SET md5_G ?X op w) v round2_ops = foldl (rfc_step ?X) v [16..<32]"
      "foldl (\<lambda>w op. SET md5_H ?X op w) v round3_ops = foldl (rfc_step ?X) v [32..<48]"
      "foldl (\<lambda>w op. SET md5_I ?X op w) v round4_ops = foldl (rfc_step ?X) v [48..<64]" for v
    using round [of 0 round1_ops v] round [of 1 round2_ops v] round [of 2 round3_ops v] round [of 3 round4_ops v]
    by (simp_all add: f round_ops_rfc s)
  have "[0..<64] = [0..<16] @ [16..<32] @ [32..<48] @ [48..<64 :: nat]" by (simp add: upt_rec)
  then have "foldl (rfc_step ?X) v [0..<64] = foldl (rfc_step ?X) (foldl (rfc_step ?X) (foldl (rfc_step ?X)
      (foldl (rfc_step ?X) v [0..<16]) [16..<32]) [32..<48]) [48..<64]" by (simp only: foldl_append)
  then show ?thesis
    by (cases v; cases "foldl (rfc_step ?X) v [0..<64]")
      (simp only: md5_process_def rfc_block_def Let_def words_rfc [OF assms] rounds prod.case rfc_add.simps)
qed

section \<open>Blocks\<close>

lemma full_blocks_append:
  assumes "length pre = 64 * k"
  shows "full_blocks (pre @ post) = full_blocks pre @ full_blocks post"
proof -
  have "map (\<lambda>i. k + i) [0..<m] = [k..<k + m]" for m
    using map_add_upt [of k m] by (simp add: add.commute)
  then have "[0..<length (pre @ post) div 64] = [0..<k] @ map (\<lambda>i. k + i) [0..<length post div 64]"
    using assms by (simp add: upt_add_eq_append [of 0, simplified])
  moreover have "take 64 (drop (64 * i) (pre @ post)) = take 64 (drop (64 * i) pre)" if "i < k" for i
    using assms that by simp
  moreover have "drop (64 * (k + i)) (pre @ post) = drop (64 * i) post" for i
    using assms by simp
  ultimately show ?thesis using assms by (simp add: full_blocks_def)
qed

definition md5_hash :: "abcd \<Rightarrow> bytes \<Rightarrow> abcd" where
  "md5_hash v bs = foldl md5_process v (full_blocks bs)"

lemma md5_hash_append:
  "length pre = 64 * k \<Longrightarrow> md5_hash v (pre @ post) = md5_hash (md5_hash v pre) post"
  by (simp add: md5_hash_def full_blocks_append)

lemma md5_tail_append: "length pre = 64 * k \<Longrightarrow> md5_tail (pre @ post) = md5_tail post"
  by (simp add: md5_tail_def)

lemma md5_hash_block: "length b = 64 \<Longrightarrow> md5_hash v b = md5_process v b"
  by (simp add: md5_hash_def full_blocks_def)

lemma md5_hash_short: "length b < 64 \<Longrightarrow> md5_hash v b = v"
  by (simp add: md5_hash_def full_blocks_def)

lemma length_md5_tail [simp]: "length (md5_tail bs) = length bs mod 64"
  by (simp add: md5_tail_def minus_mult_div_eq_mod)

lemma md5_split:
  obtains pre where "bs = pre @ md5_tail bs" "length pre = 64 * (length bs div 64)"
  by (rule that [of "take (64 * (length bs div 64)) bs"]) (simp_all add: md5_tail_def)

lemma md5_full_blocks_eq:
  assumes "p + left \<le> length data"
  shows "md5_full_blocks v data p left
     = Inr (md5_hash v (take left (drop p data)), p + 64 * (left div 64), left mod 64)"
  using assms
proof (induction v data p left rule: md5_full_blocks.induct)
  case (1 v data p left)
  show ?case
  proof (cases "left < 64")
    case True
    then show ?thesis by (subst md5_full_blocks.simps) (simp add: md5_hash_short)
  next
    case False
    have "take left (drop p data) = take 64 (drop p data) @ take (left - 64) (drop (p + 64) data)"
      using take_add [of 64 "left - 64" "drop p data"] False by (simp add: add.commute)
    then have "md5_hash v (take left (drop p data))
        = md5_hash (md5_process v (take 64 (drop p data))) (take (left - 64) (drop (p + 64) data))"
      using md5_hash_append [of "take 64 (drop p data)" 1] "1.prems" False by (simp add: md5_hash_block)
    moreover have "left div 64 = Suc ((left - 64) div 64)" "left mod 64 = (left - 64) mod 64"
      using False by (simp_all add: le_div_geq le_mod_geq)
    ultimately show ?thesis
      using False 1 by (subst md5_full_blocks.simps) simp
  qed
qed

section \<open>The incremental interface computes the hash\<close>

definition md5_inv :: "md5_state \<Rightarrow> bytes \<Rightarrow> bool" where
  "md5_inv pms msg \<longleftrightarrow> abcd_regs pms = md5_hash md5_iv msg \<and> length (md5_buf pms) = 64
     \<and> take (length msg mod 64) (md5_buf pms) = md5_tail msg
     \<and> count0 pms = of_nat (8 * length msg) \<and> count1 pms = of_nat (8 * length msg div 2 ^ 32)"

lemma md5_init_inv: "length garbage = 64 \<Longrightarrow> md5_inv (md5_init garbage) []"
  by (simp add: md5_inv_def md5_init_def md5_hash_short md5_tail_def T_MASK_def)

text \<open>What \<open>md5_rest\<close> does when the message so far ends with a block.\<close>

lemma md5_rest_run:
  assumes "p + left \<le> length data" and "length (md5_buf pms) = 64"
  shows "\<exists>b. md5_rest pms data p left = Inr (pms\<lparr>abcd_regs := md5_hash (abcd_regs pms) (take left (drop p data)), md5_buf := b\<rparr>)
    \<and> length b = 64 \<and> take (left mod 64) b = md5_tail (take left (drop p data))"
proof -
  let ?t = "md5_tail (take left (drop p data))"
  have t: "take (left mod 64) (drop (p + 64 * (left div 64)) data) = ?t"
    using assms(1) by (simp add: md5_tail_def drop_take minus_mult_div_eq_mod add.commute)
  have l: "length ?t = left mod 64" using assms(1) by simp
  show ?thesis
  proof (cases "left mod 64 = 0")
    case True
    then have "?t = []" using l by (simp only: length_0_conv [symmetric])
    with True show ?thesis
      using assms by (intro exI [of _ "md5_buf pms"]) (simp add: md5_rest_def md5_full_blocks_eq)
  next
    case False
    have "left mod 64 < 64" by simp
    then have "length ?t \<le> 64" using l by linarith
    moreover have "p + 64 * (left div 64) + left mod 64 \<le> length data" using assms(1) by simp
    ultimately show ?thesis
      using False assms t l
      by (intro exI [of _ "?t @ drop (left mod 64) (md5_buf pms)"]) (simp add: md5_rest_def md5_full_blocks_eq)
  qed
qed

lemma carry_less: "x < M \<Longrightarrow> y < M \<Longrightarrow> (x + y) mod M < y \<longleftrightarrow> M \<le> x + y" for x y M :: nat
  by (cases "x + y < M") (auto simp: mod_if)

lemma carry_div: "x < M \<Longrightarrow> y < M \<Longrightarrow> (x + y) div M = (if M \<le> x + y then 1 else 0)" for x y M :: nat
  by (auto simp: div_if)

lemma count_step:
  assumes "0 < n" and "n < 2 ^ 31"
  shows "of_nat (8 * len) + push_bit 3 (of_int (int n)) = (of_nat (8 * (len + n)) :: u32)"
    and "of_nat (8 * len div 2 ^ 32) + of_int (drop_bit 29 (int n))
           + (if (of_nat (8 * len) + push_bit 3 (of_int (int n)) :: u32) < push_bit 3 (of_int (int n)) then 1 else 0)
         = (of_nat (8 * (len + n) div 2 ^ 32) :: u32)"
proof -
  define L where "L = 8 * len"
  define N where "N = 8 * n"
  have p: "push_bit 3 (of_int (int n)) = (of_nat N :: u32)" by (simp add: push_bit_eq_mult N_def)
  show "of_nat (8 * len) + push_bit 3 (of_int (int n)) = (of_nat (8 * (len + n)) :: u32)"
    unfolding p by (simp add: N_def algebra_simps)
  have d: "of_int (drop_bit 29 (int n)) = (of_nat (N div 2 ^ 32) :: u32)"
  proof -
    have "drop_bit 29 (int n) = int (n div 2 ^ 29)" by (simp add: drop_bit_eq_div zdiv_int)
    moreover have "(8 * n) div (8 * 2 ^ 29) = n div 2 ^ 29" by (rule div_mult_mult1) simp
    ultimately show ?thesis by (simp add: N_def)
  qed
  have c: "(of_nat L + of_nat N :: u32) < of_nat N \<longleftrightarrow> (L mod 2 ^ 32 + N mod 2 ^ 32) \<ge> 2 ^ 32"
  proof -
    have "unat (of_nat L + of_nat N :: u32) = (L mod 2 ^ 32 + N mod 2 ^ 32) mod 2 ^ 32"
      by (simp add: unat_of_nat mod_add_eq flip: of_nat_add)
    then have "(of_nat L + of_nat N :: u32) < of_nat N \<longleftrightarrow> (L mod 2 ^ 32 + N mod 2 ^ 32) mod 2 ^ 32 < N mod 2 ^ 32"
      by (simp add: word_less_nat_alt unat_of_nat)
    then show ?thesis by (simp only: carry_less [of "L mod 2 ^ 32" "2 ^ 32" "N mod 2 ^ 32"] mod_less_divisor zero_less_power zero_less_numeral)
  qed
  have "(L + N) div 2 ^ 32 = L div 2 ^ 32 + N div 2 ^ 32 + (L mod 2 ^ 32 + N mod 2 ^ 32) div 2 ^ 32"
    by (rule div_add1_eq)
  moreover have "(L mod 2 ^ 32 + N mod 2 ^ 32) div 2 ^ 32 = (if L mod 2 ^ 32 + N mod 2 ^ 32 \<ge> 2 ^ 32 then 1 else 0)"
    by (rule carry_div) simp_all
  ultimately show "of_nat (8 * len div 2 ^ 32) + of_int (drop_bit 29 (int n))
      + (if (of_nat (8 * len) + push_bit 3 (of_int (int n)) :: u32) < push_bit 3 (of_int (int n)) then 1 else 0)
      = (of_nat (8 * (len + n) div 2 ^ 32) :: u32)"
    unfolding p d using c unfolding L_def N_def by (simp add: distrib_left)
qed

lemma unat_and_63: "unat (v AND 63) = unat v mod 64" for v :: u32
proof -
  have "v AND 63 = take_bit 6 v" by (simp add: take_bit_eq_mask mask_eq_exp_minus_1)
  then show ?thesis by (simp only:) (simp add: take_bit_eq_mod unat_mod_distrib)
qed

lemma unat_offset: "unat (drop_bit 3 w AND 63) = unat w div 8 mod 64" for w :: u32
  unfolding unat_and_63 by (simp add: drop_bit_eq_div unat_div_distrib)

lemma offset_eq: "unat (drop_bit 3 (of_nat (8 * len) :: u32) AND 63) = len mod 64"
proof -
  have "unat (of_nat (8 * len) :: u32) = 8 * len mod (8 * 2 ^ 29)" by (simp only: unat_of_nat) simp
  also have "\<dots> = 8 * (len mod 2 ^ 29)" by (rule mult_mod_right [symmetric])
  finally have "unat (of_nat (8 * len) :: u32) div 8 = len mod 2 ^ 29" by simp
  moreover have "len mod 2 ^ 29 mod 64 = len mod 64" by (rule mod_mod_cancel) simp
  ultimately show ?thesis unfolding unat_offset by simp
qed

lemma md5_tail_short: "length bs < 64 \<Longrightarrow> md5_tail bs = bs"
  by (simp add: md5_tail_def)

text \<open>The state after the length has been updated.\<close>

definition counted :: "md5_state \<Rightarrow> nat \<Rightarrow> md5_state" where
  "counted pms len = pms\<lparr>count0 := of_nat (8 * len), count1 := of_nat (8 * len div 2 ^ 32)\<rparr>"

lemma md5_append_unfold:
  assumes "md5_inv pms msg" and "0 < n" and "n < 2 ^ 31"
  shows "md5_append pms data (int n) =
    (let offset = length msg mod 64; pms = counted pms (length msg + n) in
     if offset \<noteq> 0 then
       let copy = (if offset + n > 64 then 64 - offset else n) in
       bindR (read_range data 0 copy) (\<lambda>bs.
       bindR (write_range (md5_buf pms) offset bs) (\<lambda>b.
       let pms = pms\<lparr>md5_buf := b\<rparr> in
       if offset + copy < 64 then Inr pms
       else md5_rest (pms\<lparr>abcd_regs := md5_process (abcd_regs pms) b\<rparr>) data copy (n - copy)))
     else md5_rest pms data 0 n)"
proof -
  have c: "count0 pms = of_nat (8 * length msg)" "count1 pms = of_nat (8 * length msg div 2 ^ 32)"
    using assms(1) by (simp_all add: md5_inv_def)
  have "\<not> int n \<le> 0" using assms(2) by simp
  then show ?thesis
    unfolding md5_append_def Let_def c offset_eq nat_int counted_def
    unfolding count_step(2) [OF assms(2,3)] unfolding count_step(1) [OF assms(2,3)] by (simp only: if_False)
qed

lemma md5_append_inv:
  assumes inv: "md5_inv pms msg" and n: "n \<le> length data" "n < 2 ^ 31"
  shows "\<exists>pms'. md5_append pms data (int n) = Inr pms' \<and> md5_inv pms' (msg @ take n data)"
proof (cases "n = 0")
  case True
  then show ?thesis using inv by (simp add: md5_append_def)
next
  case False
  let ?o = "length msg mod 64" and ?p = "counted pms (length msg + n)" and ?d = "take n data"
  have cnt: "count0 ?p = of_nat (8 * length (msg @ ?d))" "count1 ?p = of_nat (8 * length (msg @ ?d) div 2 ^ 32)"
    using n(1) by (simp_all add: counted_def)
  have sel: "abcd_regs ?p = md5_hash md5_iv msg" "length (md5_buf ?p) = 64" "take ?o (md5_buf ?p) = md5_tail msg"
    using inv by (simp_all add: md5_inv_def counted_def)
  obtain pre where pre: "msg = pre @ md5_tail msg" "length pre = 64 * (length msg div 64)" by (rule md5_split)
  have o: "?o < 64" by simp
  have len: "length (md5_tail msg @ ?d) = ?o + n" using n(1) by simp
  have "md5_hash md5_iv (pre @ md5_tail msg) = md5_hash md5_iv pre"
    by (simp add: md5_hash_append [OF pre(2)] md5_hash_short)
  then have hash: "md5_hash md5_iv msg = md5_hash md5_iv pre" by (simp only: pre(1) [symmetric])
  have "msg @ ?d = pre @ (md5_tail msg @ ?d)" using arg_cong [OF pre(1), of "\<lambda>m. m @ ?d"] by simp
  then have all: "md5_hash md5_iv (msg @ ?d) = md5_hash (md5_hash md5_iv pre) (md5_tail msg @ ?d)"
      "md5_tail (msg @ ?d) = md5_tail (md5_tail msg @ ?d)"
    by (simp_all only: md5_hash_append [OF pre(2)] md5_tail_append [OF pre(2)])
  have modlen: "length (msg @ ?d) mod 64 = (?o + n) mod 64"
    using n(1) by (simp add: mod_add_left_eq)
  note unf = md5_append_unfold [OF inv _ n(2), of data]
  consider (whole) "?o = 0" | (part) "?o \<noteq> 0" "?o + n < 64" | (fill) "?o \<noteq> 0" "64 \<le> ?o + n" by linarith
  then show ?thesis
  proof cases
    case whole
    then have t: "md5_tail msg = []" by (metis length_md5_tail length_0_conv)
    from md5_rest_run [of 0 n data ?p] n(1) sel(2) obtain b where
      "md5_rest ?p data 0 n = Inr (?p\<lparr>abcd_regs := md5_hash (abcd_regs ?p) ?d, md5_buf := b\<rparr>)"
      "length b = 64" "take (n mod 64) b = md5_tail ?d" by auto
    then show ?thesis
      using False whole unf cnt sel all hash modlen t by (simp add: Let_def md5_inv_def)
  next
    case part
    let ?b = "md5_tail msg @ ?d @ drop (?o + n) (md5_buf ?p)"
    have "md5_append pms data (int n) = Inr (?p\<lparr>md5_buf := ?b\<rparr>)"
      using False part unf sel n(1) by (simp add: Let_def)
    moreover have "md5_tail (md5_tail msg @ ?d) = md5_tail msg @ ?d" "md5_hash md5_iv (msg @ ?d) = md5_hash md5_iv msg"
      using part len all hash by (simp_all add: md5_tail_short md5_hash_short)
    ultimately show ?thesis
      using part cnt sel all modlen n(1) by (simp add: md5_inv_def)
  next
    case fill
    let ?c = "64 - ?o"
    have c: "(if ?o + n > 64 then 64 - ?o else n) = ?c" "?c \<le> n" using fill o by auto
    let ?blk = "md5_tail msg @ take ?c data"
    have blk: "length ?blk = 64" using fill o n(1) c by simp
    have d: "md5_tail msg @ ?d = ?blk @ take (n - ?c) (drop ?c data)"
      using take_add [of ?c "n - ?c" data] c(2) by simp
    let ?q = "?p\<lparr>md5_buf := ?blk, abcd_regs := md5_process (abcd_regs ?p) ?blk\<rparr>"
    have run: "md5_append pms data (int n) = md5_rest ?q data ?c (n - ?c)"
      using False fill unf sel n(1) c o blk by (simp add: Let_def)
    from md5_rest_run [of ?c "n - ?c" data ?q] n(1) c(2) blk obtain b where
      b: "md5_rest ?q data ?c (n - ?c) = Inr (?q\<lparr>abcd_regs := md5_hash (abcd_regs ?q) (take (n - ?c) (drop ?c data)), md5_buf := b\<rparr>)"
      "length b = 64" "take ((n - ?c) mod 64) b = md5_tail (take (n - ?c) (drop ?c data))" by auto
    have 1: "md5_hash md5_iv (msg @ ?d) = md5_hash (md5_process (md5_hash md5_iv pre) ?blk) (take (n - ?c) (drop ?c data))"
      unfolding all(1) d using blk md5_hash_append [of ?blk 1] by (simp add: md5_hash_block)
    have 2: "md5_tail (msg @ ?d) = md5_tail (take (n - ?c) (drop ?c data))"
      unfolding all(2) d using blk md5_tail_append [of ?blk 1] by simp
    have 3: "length (msg @ ?d) mod 64 = (n - ?c) mod 64"
    proof -
      have "n - ?c = ?o + n - 64" using fill o by linarith
      then show ?thesis unfolding modlen by (simp only: le_mod_geq [OF fill(2)])
    qed
    have "abcd_regs ?q = md5_process (md5_hash md5_iv pre) ?blk" using sel(1) hash by simp
    then have 4: "abcd_regs (?q\<lparr>abcd_regs := md5_hash (abcd_regs ?q) (take (n - ?c) (drop ?c data)), md5_buf := b\<rparr>)
        = md5_hash md5_iv (msg @ ?d)" unfolding 1 by simp
    have 5: "count0 (?q\<lparr>abcd_regs := v, md5_buf := b\<rparr>) = of_nat (8 * length (msg @ ?d))"
      "count1 (?q\<lparr>abcd_regs := v, md5_buf := b\<rparr>) = of_nat (8 * length (msg @ ?d) div 2 ^ 32)"
      "md5_buf (?q\<lparr>abcd_regs := v, md5_buf := b\<rparr>) = b" for v using cnt by (simp_all del: length_append)
    have "md5_inv (?q\<lparr>abcd_regs := md5_hash (abcd_regs ?q) (take (n - ?c) (drop ?c data)), md5_buf := b\<rparr>) (msg @ ?d)"
      unfolding md5_inv_def 4 5 3 2 by (intro conjI refl b(2,3))
    then show ?thesis unfolding run b(1) by blast
  qed
qed

text \<open>Feeding the pieces of a message one after the other.\<close>

fun md5_feed :: "md5_state \<Rightarrow> bytes list \<Rightarrow> md5_state res" where
  "md5_feed pms [] = Inr pms"
| "md5_feed pms (d # ds) = bindR (md5_append pms d (int (length d))) (\<lambda>pms. md5_feed pms ds)"

lemma md5_feed_inv:
  assumes "md5_inv pms msg" and "list_all (\<lambda>d. length d < 2 ^ 31) ds"
  shows "\<exists>pms'. md5_feed pms ds = Inr pms' \<and> md5_inv pms' (msg @ concat ds)"
  using assms
proof (induction ds arbitrary: pms msg)
  case (Cons d ds)
  then obtain pms1 where 1: "md5_append pms d (int (length d)) = Inr pms1" "md5_inv pms1 (msg @ d)"
    using md5_append_inv [of pms msg "length d" d] by auto
  from Cons.IH [OF 1(2)] Cons.prems(2) show ?case using 1(1) by simp
qed simp

lemma pad_count:
  "uint ((55 - drop_bit 3 (of_nat (8 * len) :: u32)) AND 63) = (55 - int len) mod 64"
proof -
  define w where "w = drop_bit 3 (of_nat (8 * len) :: u32)"
  have w: "uint w mod 64 = int len mod 64"
  proof -
    have "unat w mod 64 = len mod 64" using offset_eq [of len] unfolding w_def unat_and_63 .
    then have "int (unat w mod 64) = int (len mod 64)" by (rule arg_cong)
    then show ?thesis by (simp add: zmod_int)
  qed
  have "(55 - w) AND 63 = take_bit 6 (55 - w)" by (simp add: take_bit_eq_mask mask_eq_exp_minus_1)
  then have "uint ((55 - w) AND 63) = uint (55 - w) mod 64"
    by (simp only: unsigned_take_bit_eq) (simp add: take_bit_eq_mod)
  also have "\<dots> = (55 - uint w) mod 2 ^ 32 mod 64"
    by (simp add: uint_word_ariths)
  also have "\<dots> = (55 - uint w) mod 64" by (rule mod_mod_cancel) simp
  also have "\<dots> = (55 - int len) mod 64" using w by (metis mod_diff_right_eq)
  finally show ?thesis by (simp add: w_def)
qed

lemma length_bytes64:
  "le_bytes 4 (of_nat x :: u32) @ le_bytes 4 (of_nat (x div 2 ^ 32) :: u32) = le_bytes 8 (of_nat x :: u64)"
proof (rule nth_equalityI)
  fix i assume "i < length (le_bytes 4 (of_nat x :: u32) @ le_bytes 4 (of_nat (x div 2 ^ 32) :: u32))"
  then have i: "i < 8" by simp
  have d: "bit (x div 4294967296) n \<longleftrightarrow> bit x (32 + n)" for n
    using bit_drop_bit_eq [of 32 x] by (simp add: drop_bit_eq_div fun_eq_iff add.commute)
  show "(le_bytes 4 (of_nat x :: u32) @ le_bytes 4 (of_nat (x div 2 ^ 32) :: u32)) ! i = le_bytes 8 (of_nat x :: u64) ! i"
    using i by (cases "i < 4"; intro bit_word_eqI)
      (auto simp: nth_append bit_simps d algebra_simps)
qed simp

lemma md5_hash_rfc: "md5_hash v bs = foldl rfc_block v (full_blocks bs)"
proof -
  have "foldl md5_process v bss = foldl rfc_block v bss" if "\<forall>b\<in>set bss. length b = 64" for bss
    using that by (induction bss arbitrary: v) (simp_all add: md5_process_rfc)
  moreover have "\<forall>b\<in>set (full_blocks bs). length b = 64"
  proof -
    have "64 \<le> length bs - 64 * i" if "i < length bs div 64" for i using that by linarith
    then show ?thesis by (auto simp: full_blocks_def)
  qed
  ultimately show ?thesis by (simp add: md5_hash_def)
qed

lemma abcd_bytes_rfc: "abcd_bytes (md5_hash md5_iv (md5_padded msg)) = md5_rfc msg"
  by (simp add: md5_rfc_def md5_hash_rfc abcd_bytes_def le_bytes_arith split: prod.split)

lemma length_md5_rfc [simp]: "length (md5_rfc m) = 16"
  by (simp add: md5_rfc_def rfc_bytes_def split: prod.splits)

lemma md5_finish_rfc:
  assumes "md5_inv pms msg"
  shows "\<exists>pms'. md5_finish pms = Inr (pms', md5_rfc msg)"
proof -
  define k where "k = nat ((55 - int (length msg)) mod 64)"
  have k: "uint ((55 - drop_bit 3 (count0 pms)) AND 63) + 1 = int (Suc k)" "k < 64"
    using assms pad_count [of "length msg"] by (simp_all add: md5_inv_def k_def)
  have pad: "take (Suc k) md5_pad = 0x80 # replicate k 0" "Suc k \<le> length md5_pad"
    using k(2) by (simp_all add: md5_pad_def)
  obtain pms1 where 1: "md5_append pms md5_pad (int (Suc k)) = Inr pms1" "md5_inv pms1 (msg @ 0x80 # replicate k 0)"
    using md5_append_inv [OF assms pad(2)] pad(1) k(2) by auto
  have data: "le_bytes 4 (count0 pms) @ le_bytes 4 (count1 pms) = rfc_bytes 8 (8 * length msg)"
    using assms length_bytes64 [of "8 * length msg"]
    by (simp only: md5_inv_def le_bytes_arith [of 8] rfc_bytes_64)
  have len: "length (rfc_bytes 8 (8 * length msg)) = 8" by (simp add: rfc_bytes_def)
  obtain pms2 where 2: "md5_append pms1 (rfc_bytes 8 (8 * length msg)) 8 = Inr pms2"
      "md5_inv pms2 (md5_padded msg)"
    using md5_append_inv [OF 1(2), of 8 "rfc_bytes 8 (8 * length msg)"] len
    by (auto simp: md5_padded_def k_def)
  show ?thesis
    using 1(1) 2 unfolding md5_finish_def Let_def data k(1)
    by (simp add: abcd_bytes_rfc [symmetric] md5_inv_def del: of_nat_Suc)
qed

section \<open>Properties\<close>

definition md5_stream :: "bytes \<Rightarrow> bytes list \<Rightarrow> bytes res" where
  "md5_stream garbage ds =
     bindR (md5_feed (md5_init garbage) ds) (\<lambda>pms. bindR (md5_finish pms) (\<lambda>(_, digest). Inr digest))"

lemma md5_stream_rfc:
  assumes "length garbage = 64" and "list_all (\<lambda>d. length d < 2 ^ 31) ds"
  shows "md5_stream garbage ds = Inr (md5_rfc (concat ds))"
proof -
  obtain pms where 1: "md5_feed (md5_init garbage) ds = Inr pms" "md5_inv pms (concat ds)"
    using md5_feed_inv [OF md5_init_inv [OF assms(1)] assms(2)] by auto
  obtain pms' where "md5_finish pms = Inr (pms', md5_rfc (concat ds))" using md5_finish_rfc [OF 1(2)] by blast
  with 1(1) show ?thesis by (simp add: md5_stream_def)
qed

text \<open>C20 The incremental MD5 is the MD5 of RFC 1321. In however many pieces a message is passed to
  \<open>md5_append\<close>, and whatever the block buffer held before, \<open>md5_finish\<close> returns the digest of
  the concatenated pieces: the 64 steps of the RFC over every block of the message padded with its
  length in bits as a 64-bit number. \<open>md5_rfc\<close> is written from the RFC and uses neither
  \<open>md5_process\<close> nor its functions, tables and byte conversions. No access leaves the buffers.\<close>

theorem md5_incremental:
  assumes "length garbage = 64" and "list_all (\<lambda>d. length d < 2 ^ 31) ds"
  shows "md5_stream garbage ds = Inr (md5_rfc (concat ds)) \<and> length (md5_rfc (concat ds)) = 16"
  using md5_stream_rfc [OF assms] by simp

lemmas md5_eval = SET_value_def md5_F_def md5_G_def md5_H_def md5_I_def ROTATE_LEFT_def T_table_eq
  round1_ops_def round2_ops_def round3_ops_def round4_ops_def

text \<open>The digest of the empty message, round by round.\<close>

lemma md5_empty_round1:
  "foldl (\<lambda>w op. SET md5_F [0x80, 0, 0, 0, 0, 0, 0, 0, 0, 0, 0, 0, 0, 0, 0, 0] op w) (0x67452301, 0xEFCDAB89, 0x98BADCFE, 0x10325476) round1_ops = (0xF56C7CF1, 0xD6819C6A, 0x5AA53F75, 0x374943A7)"
  by (simp add: md5_eval)

lemma md5_empty_round2:
  "foldl (\<lambda>w op. SET md5_G [0x80, 0, 0, 0, 0, 0, 0, 0, 0, 0, 0, 0, 0, 0, 0, 0] op w) (0xF56C7CF1, 0xD6819C6A, 0x5AA53F75, 0x374943A7) round2_ops = (0x13707036, 0xA2205F1F, 0x1C31C384, 0xAE7813DB)"
  by (simp add: md5_eval)

lemma md5_empty_round3:
  "foldl (\<lambda>w op. SET md5_H [0x80, 0, 0, 0, 0, 0, 0, 0, 0, 0, 0, 0, 0, 0, 0, 0] op w) (0x13707036, 0xA2205F1F, 0x1C31C384, 0xAE7813DB) round3_ops = (0x3F55EDFD, 0xCA7D2DBD, 0x68D84EA2, 0x22A31F54)"
  by (simp add: md5_eval)

lemma md5_empty_round4:
  "foldl (\<lambda>w op. SET md5_I [0x80, 0, 0, 0, 0, 0, 0, 0, 0, 0, 0, 0, 0, 0, 0, 0] op w) (0x3F55EDFD, 0xCA7D2DBD, 0x68D84EA2, 0x22A31F54) round4_ops = (0x7246FAD3, 0x14E45506, 0xFF4EA3EB, 0x6E10A476)"
  by (simp add: md5_eval)

lemma md5_empty_block: "md5_process md5_iv (0x80 # replicate 63 0) = (0xD98C1DD4, 0x04B2008F, 0x980980E9, 0x7E42F8EC)"
proof -
  have "md5_words (0x80 # replicate 63 0) = [0x80, 0, 0, 0, 0, 0, 0, 0, 0, 0, 0, 0, 0, 0, 0, 0]"
    by code_simp
  then show ?thesis
    by (simp only: md5_process_def Let_def md5_empty_round1 md5_empty_round2 md5_empty_round3 md5_empty_round4 prod.case) simp
qed

theorem md5_incremental_witness:
  "md5_stream (replicate 64 7) [[], []] = Inr [0xD4, 0x1D, 0x8C, 0xD9, 0x8F, 0x00, 0xB2, 0x04, 0xE9, 0x80, 0x09, 0x98, 0xEC, 0xF8, 0x42, 0x7E]"
proof -
  have "md5_padded [] = 0x80 # replicate 63 0"
    by (simp add: md5_padded_def rfc_bytes_def map_replicate_const replicate_add [of 55 8, simplified, symmetric])
  then have "md5_rfc [] = abcd_bytes (0xD98C1DD4, 0x04B2008F, 0x980980E9, 0x7E42F8EC)"
    using md5_empty_block by (simp add: abcd_bytes_rfc [symmetric] md5_hash_block)
  also have "\<dots> = [0xD4, 0x1D, 0x8C, 0xD9, 0x8F, 0x00, 0xB2, 0x04, 0xE9, 0x80, 0x09, 0x98, 0xEC, 0xF8, 0x42, 0x7E]"
    by code_simp
  finally show ?thesis using md5_incremental [of "replicate 64 7" "[[], []]"] by simp
qed

end
