(* ===== verification/DhcpPacket.thy ===== *)
theory DhcpPacket
  imports Subnets DhcpConstants Printf
begin

text \<open>
  \<open>src/src/dhcp/dhcp_packet.h\<close> and \<open>dhcp_packet.cxx\<close>: the packet object, reading it from and
  writing it to a byte buffer, and the factory functions of the four replies.

  Buffers are byte lists with bounds-checked accesses. The option array keeps its 32 slots.
  A null \<open>value\<close> pointer is \<open>None\<close>. The upper half of the DNS buffer from \<open>new unsigned
  char[8]\<close> is an argument (\<open>junk\<close>) wherever the source may leave it unwritten.
\<close>

section \<open>Packets\<close>

abbreviation MAX_DHCP_OPTIONS :: nat where "MAX_DHCP_OPTIONS \<equiv> 32"

record DHCP_Option =
  opt_code :: u8
  opt_length :: u8
  opt_value :: "bytes option"

text \<open>\<open>memset(this, 0, sizeof(*this))\<close> in the packet constructor runs after the option
  constructors, so that the options of a new packet are all zero.\<close>

definition null_option :: DHCP_Option where
  "null_option = \<lparr>opt_code = 0, opt_length = 0, opt_value = None\<rparr>"

definition set_value_u8 :: "u8 \<Rightarrow> u8 \<Rightarrow> DHCP_Option" where
  "set_value_u8 p_code p_val = \<lparr>opt_code = p_code, opt_length = 1, opt_value = Some [p_val]\<rparr>"

definition set_value_u32 :: "u8 \<Rightarrow> u32 \<Rightarrow> DHCP_Option" where
  "set_value_u32 p_code p_val =
     \<lparr>opt_code = p_code, opt_length = 4, opt_value = Some (le_bytes 4 p_val)\<rparr>"

text \<open>The length of a string value is cut to the eight bits of the \<open>length\<close> field.\<close>

definition set_value_str :: "u8 \<Rightarrow> string \<Rightarrow> DHCP_Option" where
  "set_value_str p_code p_val =
     \<lparr>opt_code = p_code, opt_length = of_nat (length p_val),
      opt_value = Some (bytes_of_string p_val)\<rparr>"

record DHCP_Packet =
  pkt_op :: u8
  htype :: u8
  hlen :: u8
  hops :: u8
  xid :: u32
  secs :: u16
  flags :: u16
  ciaddr :: u32
  yiaddr :: u32
  siaddr :: u32
  giaddr :: u32
  chaddr :: bytes
  sname :: bytes
  file_field :: bytes
  pkt_options :: "DHCP_Option list"

definition DHCP_Packet_new :: DHCP_Packet where
  "DHCP_Packet_new =
     \<lparr>pkt_op = 0, htype = 0, hlen = 0, hops = 0, xid = 0, secs = 0, flags = 0,
      ciaddr = 0, yiaddr = 0, siaddr = 0, giaddr = 0,
      chaddr = replicate 16 0, sname = replicate 64 0, file_field = replicate 128 0,
      pkt_options = replicate MAX_DHCP_OPTIONS null_option\<rparr>"

section \<open>Reading a packet\<close>

definition DHCP_MAGIC_COOKIE :: bytes where
  "DHCP_MAGIC_COOKIE = [0x63, 0x82, 0x53, 0x63]"

definition check_magic_cookie :: "bytes \<Rightarrow> int \<Rightarrow> bool res" where
  "check_magic_cookie buffer len =
     (if len < 240 then Inr False
      else bindR (read_range buffer 236 4) (\<lambda>c. Inr (c = DHCP_MAGIC_COOKIE)))"

definition read16 :: "bytes \<Rightarrow> nat \<Rightarrow> u16 res" where
  "read16 buffer off = bindR (read_range buffer off 2) (\<lambda>b. Inr (le_word b))"

definition read32 :: "bytes \<Rightarrow> nat \<Rightarrow> u32 res" where
  "read32 buffer off = bindR (read_range buffer off 4) (\<lambda>b. Inr (le_word b))"

definition read64 :: "bytes \<Rightarrow> nat \<Rightarrow> u64 res" where
  "read64 buffer off = bindR (read_range buffer off 8) (\<lambda>b. Inr (le_word b))"

text \<open>The option loop of \<open>marshall\<close>, with \<open>option_idx\<close> and \<open>option_offset\<close>.\<close>

function marshall_loop ::
    "bytes \<Rightarrow> int \<Rightarrow> nat \<Rightarrow> nat \<Rightarrow> DHCP_Option list \<Rightarrow> (nat \<times> DHCP_Option list) res" where
  "marshall_loop buffer pktlength option_idx option_offset opts =
     (if int option_offset > pktlength - 1 then Inr (option_idx, opts)
      else if option_idx = MAX_DHCP_OPTIONS then Inr (option_idx, opts)
      else bindR (read_at buffer option_offset) (\<lambda>c.
        if c = DHO_PAD
        then marshall_loop buffer pktlength option_idx (option_offset + 1) opts
        else if c = DHO_END
        then Inr (option_idx, opts[option_idx := (opts ! option_idx)\<lparr>opt_code := c\<rparr>])
        else
          bindR (read_at buffer (option_offset + 1)) (\<lambda>l.
          bindR (read_range buffer (option_offset + 2) (unat l)) (\<lambda>v.
          marshall_loop buffer pktlength (option_idx + 1) (option_offset + (unat l + 2))
            (opts[option_idx := \<lparr>opt_code = c, opt_length = l, opt_value = Some v\<rparr>])))))"
  by auto
termination
  by (relation "measure (\<lambda>(_, pktlength, _, option_offset, _). nat (pktlength - int option_offset))")
    (auto intro: order.strict_trans1 [of _ 0])

declare marshall_loop.simps [simp del]

definition marshall :: "DHCP_Packet \<Rightarrow> bytes \<Rightarrow> int \<Rightarrow> DHCP_Packet res" where
  "marshall pkt buffer pktlength =
     bindR (check_magic_cookie buffer pktlength) (\<lambda>ok.
     if \<not> ok then Inl (DHCP_PacketException ''Invalid dhcp magic cookie'')
     else
       bindR (read_at buffer 0) (\<lambda>v_op.
       bindR (read_at buffer 1) (\<lambda>v_htype.
       bindR (read_at buffer 2) (\<lambda>v_hlen.
       bindR (read_at buffer 3) (\<lambda>v_hops.
       bindR (read32 buffer 4) (\<lambda>v_xid.
       bindR (read16 buffer 8) (\<lambda>v_secs.
       bindR (read16 buffer 10) (\<lambda>v_flags.
       bindR (read32 buffer 12) (\<lambda>v_ciaddr.
       bindR (read32 buffer 16) (\<lambda>v_yiaddr.
       bindR (read32 buffer 20) (\<lambda>v_siaddr.
       bindR (read32 buffer 24) (\<lambda>v_giaddr.
       bindR (read_range buffer 28 16) (\<lambda>v_chaddr.
       bindR (read_range buffer 44 64) (\<lambda>v_sname.
       bindR (read_range buffer 108 128) (\<lambda>v_file.
       bindR (marshall_loop buffer pktlength 0 240 (pkt_options pkt)) (\<lambda>(option_idx, opts).
       if option_idx < length opts
       then Inr (pkt\<lparr>pkt_op := v_op, htype := v_htype, hlen := v_hlen, hops := v_hops, xid := v_xid,
              secs := v_secs, flags := v_flags, ciaddr := v_ciaddr, yiaddr := v_yiaddr,
              siaddr := v_siaddr, giaddr := v_giaddr, chaddr := v_chaddr, sname := v_sname,
              file_field := v_file,
              pkt_options := opts[option_idx := (opts ! option_idx)\<lparr>opt_code := DHO_END\<rparr>]\<rparr>)
       else Inl MemFault))))))))))))))))"

definition parse_request :: "bytes \<Rightarrow> int \<Rightarrow> DHCP_Packet res" where
  "parse_request buffer len = marshall DHCP_Packet_new buffer len"

section \<open>Writing a packet\<close>

text \<open>The loops over the options stop at \<open>DHO_END\<close> only; past the array they leave it.\<close>

fun options_length :: "DHCP_Option list \<Rightarrow> nat \<Rightarrow> nat res" where
  "options_length [] packet_len = Inl MemFault"
| "options_length (opt # opts) packet_len =
     (if opt_code opt = DHO_END then Inr packet_len
      else options_length opts (packet_len + (unat (opt_length opt) + 2)))"

fun write_fields :: "bytes \<Rightarrow> (nat \<times> bytes) list \<Rightarrow> bytes res" where
  "write_fields buffer [] = Inr buffer"
| "write_fields buffer ((off, v) # fs) =
     bindR (write_range buffer off v) (\<lambda>buffer'. write_fields buffer' fs)"

fun write_options :: "DHCP_Option list \<Rightarrow> bytes \<Rightarrow> nat \<Rightarrow> (bytes \<times> nat) res" where
  "write_options [] buffer option_offset = Inl MemFault"
| "write_options (opt # opts) buffer option_offset =
     (if opt_code opt = DHO_END then Inr (buffer, option_offset)
      else
        bindR (deref (opt_value opt)) (\<lambda>value.
        bindR (read_range value 0 (unat (opt_length opt))) (\<lambda>v.
        bindR (write_fields buffer
                 [(option_offset, [opt_code opt]), (option_offset + 1, [opt_length opt]),
                  (option_offset + 2, v)]) (\<lambda>buffer'.
        write_options opts buffer' (option_offset + (unat (opt_length opt) + 2))))))"

definition header_fields :: "DHCP_Packet \<Rightarrow> (nat \<times> bytes) list" where
  "header_fields pkt =
     [(0, [pkt_op pkt]), (1, [htype pkt]), (2, [hlen pkt]), (3, [hops pkt]),
      (4, le_bytes 4 (xid pkt)), (8, le_bytes 2 (secs pkt)), (10, le_bytes 2 (flags pkt)),
      (12, le_bytes 4 (ciaddr pkt)), (16, le_bytes 4 (yiaddr pkt)),
      (20, le_bytes 4 (siaddr pkt)), (24, le_bytes 4 (giaddr pkt)),
      (28, chaddr pkt), (44, sname pkt), (108, file_field pkt), (236, DHCP_MAGIC_COOKIE)]"

definition unmarshall :: "DHCP_Packet \<Rightarrow> bytes \<Rightarrow> (bytes \<times> nat) res" where
  "unmarshall pkt buffer =
     bindR (options_length (pkt_options pkt) (BOOTP_ABSOLUTE_MIN_LEN + length DHCP_MAGIC_COOKIE)) (\<lambda>n.
     let packet_len = n + 1;
         padding_len = (if packet_len < BOOTP_ABSOLUTE_MIN_LEN + DHCP_VEND_SIZE
                        then DHCP_VEND_SIZE + BOOTP_ABSOLUTE_MIN_LEN - packet_len else 0);
         packet_len = (if packet_len < BOOTP_ABSOLUTE_MIN_LEN + DHCP_VEND_SIZE
                       then DHCP_VEND_SIZE + BOOTP_ABSOLUTE_MIN_LEN else packet_len)
     in
       bindR (write_fields buffer (header_fields pkt)) (\<lambda>buffer.
       bindR (write_options (pkt_options pkt) buffer 240) (\<lambda>(buffer, option_offset).
       bindR (write_range buffer option_offset [DHO_END]) (\<lambda>buffer.
       bindR (if padding_len > 0
              then write_range buffer (option_offset + 1) (replicate padding_len 0)
              else Inr buffer) (\<lambda>buffer.
       Inr (buffer, packet_len))))))"

section \<open>Accessors\<close>

fun get_message_type_loop :: "DHCP_Option list \<Rightarrow> int res" where
  "get_message_type_loop [] = Inl MemFault"
| "get_message_type_loop (opt # opts) =
     (if opt_code opt = DHO_END then Inr (- 1)
      else if opt_code opt = DHO_DHCP_MESSAGE_TYPE
      then bindR (deref (opt_value opt)) (\<lambda>value. bindR (read_at value 0) (\<lambda>b. Inr (uint (b AND 0xFF))))
      else get_message_type_loop opts)"

definition get_message_type :: "DHCP_Packet \<Rightarrow> int res" where
  "get_message_type pkt = get_message_type_loop (pkt_options pkt)"

fun get_requested_address_loop :: "DHCP_Option list \<Rightarrow> IPAddress res" where
  "get_requested_address_loop [] = Inl MemFault"
| "get_requested_address_loop (opt # opts) =
     (if opt_code opt = DHO_END then Inr IPAddress_none
      else if opt_code opt = DHO_DHCP_REQUESTED_ADDRESS
      then bindR (deref (opt_value opt)) (\<lambda>value. bindR (read32 value 0) (\<lambda>u. Inr (IPAddress_u u)))
      else get_requested_address_loop opts)"

definition get_requested_address :: "DHCP_Packet \<Rightarrow> IPAddress res" where
  "get_requested_address pkt =
     (if ciaddr pkt \<noteq> 0 then Inr (IPAddress_u (ciaddr pkt))
      else get_requested_address_loop (pkt_options pkt))"

definition get_ciaddr :: "DHCP_Packet \<Rightarrow> u32" where
  "get_ciaddr pkt = ciaddr pkt"

definition pkt_mac :: "DHCP_Packet \<Rightarrow> MACAddress" where
  "pkt_mac pkt = MACAddress_u (le_word (take 8 (chaddr pkt)))"

definition pkt_ip :: "DHCP_Packet \<Rightarrow> IPAddress" where
  "pkt_ip pkt = IPAddress_u (ciaddr pkt)"

text \<open>\<open>DHCP_Packet::msgtype_name\<close> passes the type through an \<open>unsigned char\<close>.\<close>

definition pkt_msgtype_name :: "DHCP_Packet \<Rightarrow> string res" where
  "pkt_msgtype_name pkt =
     bindR (get_message_type pkt) (\<lambda>mt. Inr (msgtype_name (uint (of_int mt :: u8))))"

section \<open>Dumps\<close>

text \<open>
  The text of each \<open>dsLog::print\<close> call; \<open>print_start\<close>, \<open>print_add\<close> and \<open>print_eol\<close> build one
  line. \<open>%x\<close> of a \<open>short\<close> prints its value converted to \<open>unsigned int\<close>.
\<close>

definition option_bytes :: "DHCP_Option \<Rightarrow> bytes res" where
  "option_bytes opt =
     (if opt_length opt = 0 then Inr []
      else bindR (deref (opt_value opt)) (\<lambda>value. read_range value 0 (unat (opt_length opt))))"

definition print_value :: "(u8 \<Rightarrow> string) \<Rightarrow> DHCP_Option \<Rightarrow> string res" where
  "print_value fmt opt =
     bindR (option_bytes opt) (\<lambda>v.
     Inr (''       '' @ dho_name (uint (opt_code opt)) @ ''('' @ show_int (uint (opt_code opt)) @ '') {''
          @ concat (map fmt v) @ ''}''))"

definition option_dump :: "DHCP_Option \<Rightarrow> string res" where
  "option_dump opt =
     (let c = opt_code opt;
          head = ''       '' @ dho_name (uint c) @ ''('' @ show_int (uint c) @ '') ''
      in
      if c = DHO_DHCP_MESSAGE_TYPE then
        bindR (deref (opt_value opt)) (\<lambda>value. bindR (read_at value 0) (\<lambda>mt.
        Inr (head @ ''*** '' @ msgtype_name (uint (mt AND 0xFF)))))
      else if c = DHO_DHCP_CLIENT_IDENTIFIER then
        bindR (deref (opt_value opt)) (\<lambda>value. bindR (read_at value 0) (\<lambda>ht.
        bindR (read64 value 1) (\<lambda>m.
        Inr (head @ show_hex (unat (ht AND 0xFF)) @ '' '' @ mac_u2s m))))
      else if c = DHO_DHCP_SERVER_IDENTIFIER then
        bindR (deref (opt_value opt)) (\<lambda>value. bindR (read32 value 0) (\<lambda>u.
        Inr (head @ show_hex (unat u) @ '' '' @ ip_u2s u)))
      else if c = DHO_DHCP_PARAMETER_REQUEST_LIST then
        print_value (\<lambda>b. show_nat (unat b) @ '' '') opt
      else if c = DHO_VENDOR_CLASS_IDENTIFIER \<or> c = DHO_HOST_NAME then
        print_value (\<lambda>b. [char_of_byte b]) opt
      else if c = DHO_DHCP_REQUESTED_ADDRESS then
        bindR (deref (opt_value opt)) (\<lambda>value. bindR (read32 value 0) (\<lambda>u.
        Inr (head @ ip_u2s u)))
      else print_value (\<lambda>b. show_hex (unat b) @ '' '') opt)"

fun options_dump :: "DHCP_Option list \<Rightarrow> string list res" where
  "options_dump [] = Inl MemFault"
| "options_dump (opt # opts) =
     (if opt_code opt = DHO_END then Inr []
      else bindR (option_dump opt) (\<lambda>l. bindR (options_dump opts) (\<lambda>ls. Inr (l # ls))))"

definition packet_dump :: "DHCP_Packet \<Rightarrow> string list res" where
  "packet_dump pkt =
     (let mac_str = mac_u2s (le_word (take 8 (chaddr pkt))) in
      bindR (cstr (sname pkt)) (\<lambda>v_sname.
      bindR (cstr (file_field pkt)) (\<lambda>v_file.
      bindR (options_dump (pkt_options pkt)) (\<lambda>opts.
      Inr ([''--------------DUMP DHCP PACKET-------------'',
            ''op     = '' @ show_int (sint (pkt_op pkt)),
            ''htype  = '' @ show_int (sint (htype pkt)),
            ''hlen   = '' @ show_int (sint (hlen pkt)),
            ''hops   = '' @ show_int (sint (hops pkt)),
            ''xid    = '' @ show_hex (unat (xid pkt)),
            ''secs   = '' @ show_hex (unat (scast (secs pkt) :: u32)),
            ''flags  = '' @ show_hex (unat (scast (flags pkt) :: u32)),
            ''ciaddr = '' @ ip_u2s (ciaddr pkt),
            ''yiaddr = '' @ ip_u2s (yiaddr pkt),
            ''siaddr = '' @ ip_u2s (siaddr pkt),
            ''giaddr = '' @ ip_u2s (giaddr pkt),
            ''chaddr = '' @ mac_str,
            ''sname  = '' @ v_sname,
            ''file   = '' @ v_file,
            ''---------------------------------------------'']
           @ opts)))))"

section \<open>Replies\<close>

definition reply_header :: "DHCP_Packet \<Rightarrow> u32 \<Rightarrow> u32 \<Rightarrow> DHCP_Packet" where
  "reply_header request v_ciaddr v_yiaddr =
     DHCP_Packet_new\<lparr>pkt_op := BOOT_REPLY, htype := htype request, hlen := hlen request, hops := 0,
       xid := xid request, secs := 0, ciaddr := v_ciaddr, yiaddr := v_yiaddr, siaddr := 0,
       flags := flags request, giaddr := giaddr request, chaddr := chaddr request,
       sname := replicate 64 0, file_field := replicate 128 0\<rparr>"

text \<open>Filling \<open>_options[option_idx]\<close> with \<open>option_idx\<close> counting up, then the end mark.\<close>

fun put_options :: "nat \<Rightarrow> DHCP_Option list \<Rightarrow> DHCP_Option list \<Rightarrow> DHCP_Option list" where
  "put_options option_idx [] slots =
     slots[option_idx := (slots ! option_idx)\<lparr>opt_code := DHO_END\<rparr>]"
| "put_options option_idx (opt # opts) slots =
     put_options (option_idx + 1) opts (slots[option_idx := opt])"

definition dns_option :: "u32 \<Rightarrow> Subnet \<Rightarrow> DHCP_Option" where
  "dns_option junk mysub =
     (let dns = le_bytes 4 (ip_u_addr (nameserver1 mysub))
                @ le_bytes 4 (if ip_u_addr (nameserver2 mysub) \<noteq> INADDR_NONE
                              then ip_u_addr (nameserver2 mysub) else junk)
      in \<lparr>opt_code = DHO_DOMAIN_NAME_SERVERS, opt_length = 8, opt_value = Some dns\<rparr>)"

definition out_of_range_text :: "IPAddress \<Rightarrow> string" where
  "out_of_range_text ip =
     ''ip '' @ [CHR 0x27] @ ip_s_addr ip @ [CHR 0x27] @ '' is not within allowed range''"

definition create_dhcp_offer ::
    "Subnets \<Rightarrow> u32 \<Rightarrow> DHCP_Packet \<Rightarrow> IPAddress \<Rightarrow> DHCP_Packet res" where
  "create_dhcp_offer sn junk request ip =
     (let response = reply_header request 0 (ip_u_addr ip) in
      case mysubnet sn ip of
        None \<Rightarrow> Inl (DHCP_PacketException (out_of_range_text ip))
      | Some mysub \<Rightarrow>
          bindR (deref (globalnet sn)) (\<lambda>global.
          bindR (read_init (lease_time global)) (\<lambda>v_lease_time.
          bindR (read_init (renew_time global)) (\<lambda>v_renew_time.
          bindR (deref (domain_name global)) (\<lambda>v_domain_name.
          Inr (response\<lparr>pkt_options := put_options 0
            [set_value_u8 DHO_DHCP_MESSAGE_TYPE (msg_code DHCP_OFFER),
             set_value_u32 DHO_DHCP_SERVER_IDENTIFIER (sub_u_addr global),
             set_value_u32 DHO_DHCP_LEASE_TIME (htonl v_lease_time),
             set_value_u32 DHO_DHCP_RENEWAL_TIME (htonl v_renew_time),
             set_value_str DHO_DOMAIN_NAME v_domain_name,
             set_value_u32 DHO_SUBNET (ip_u_addr (netmask mysub)),
             set_value_u32 DHO_ROUTERS (ip_u_addr (gateway mysub)),
             dns_option junk mysub] (pkt_options response)\<rparr>))))))"

text \<open>\<open>create_dhcp_ack\<close> and \<open>create_dhcp_ack2\<close> return null instead of raising.\<close>

definition create_dhcp_ack ::
    "Subnets \<Rightarrow> u32 \<Rightarrow> DHCP_Packet \<Rightarrow> IPAddress \<Rightarrow> DHCP_Packet option res" where
  "create_dhcp_ack sn junk request ip =
     (let response = reply_header request 0 (ip_u_addr ip) in
      case mysubnet sn ip of
        None \<Rightarrow> Inr None
      | Some mysub \<Rightarrow>
          bindR (deref (globalnet sn)) (\<lambda>global.
          bindR (read_init (lease_time global)) (\<lambda>v_lease_time.
          bindR (read_init (renew_time global)) (\<lambda>v_renew_time.
          bindR (deref (domain_name global)) (\<lambda>v_domain_name.
          Inr (Some (response\<lparr>pkt_options := put_options 0
            [set_value_u8 DHO_DHCP_MESSAGE_TYPE (msg_code DHCP_ACK),
             set_value_u32 DHO_DHCP_SERVER_IDENTIFIER (sub_u_addr global),
             set_value_u32 DHO_DHCP_LEASE_TIME (htonl v_lease_time),
             set_value_u32 DHO_DHCP_RENEWAL_TIME (htonl v_renew_time),
             set_value_str DHO_DOMAIN_NAME v_domain_name,
             set_value_u32 DHO_ROUTERS (ip_u_addr (gateway mysub)),
             set_value_u32 DHO_SUBNET (ip_u_addr (netmask mysub)),
             dns_option junk mysub] (pkt_options response)\<rparr>)))))))"

definition create_dhcp_ack2 ::
    "Subnets \<Rightarrow> u32 \<Rightarrow> DHCP_Packet \<Rightarrow> IPAddress \<Rightarrow> DHCP_Packet option res" where
  "create_dhcp_ack2 sn junk request ip =
     (let response = reply_header request (ciaddr request) 0 in
      case mysubnet sn ip of
        None \<Rightarrow> Inr None
      | Some mysub \<Rightarrow>
          bindR (deref (globalnet sn)) (\<lambda>global.
          bindR (deref (domain_name global)) (\<lambda>v_domain_name.
          Inr (Some (response\<lparr>pkt_options := put_options 0
            [set_value_u8 DHO_DHCP_MESSAGE_TYPE (msg_code DHCP_ACK),
             set_value_u32 DHO_DHCP_SERVER_IDENTIFIER (sub_u_addr global),
             set_value_str DHO_DOMAIN_NAME v_domain_name,
             set_value_u32 DHO_ROUTERS (ip_u_addr (gateway mysub)),
             set_value_u32 DHO_SUBNET (ip_u_addr (netmask mysub)),
             dns_option junk mysub] (pkt_options response)\<rparr>)))))"

definition create_dhcp_nak :: "Subnets \<Rightarrow> DHCP_Packet \<Rightarrow> IPAddress \<Rightarrow> DHCP_Packet res" where
  "create_dhcp_nak sn request ip =
     (let response = reply_header request 0 0 in
      bindR (deref (globalnet sn)) (\<lambda>global.
      Inr (response\<lparr>pkt_options := put_options 0
        [set_value_u8 DHO_DHCP_MESSAGE_TYPE (msg_code DHCP_NAK),
         set_value_u32 DHO_DHCP_SERVER_IDENTIFIER (sub_u_addr global)] (pkt_options response)\<rparr>)))"

end
