(* ===== verification/DhcpWire.thy ===== *)
theory DhcpWire
  imports DhcpPacket
begin

text \<open>
  The wire format of DHCP packets as a reference encoding, and the correctness of
  \<open>DHCP_Packet::marshall\<close>, \<open>unmarshall\<close> and the accessors with respect to it: writing
  produces the encoding, reading inverts it, whatever padding lies between the options, and
  every packet that reading accepts has a terminated option list.
\<close>

section \<open>Reference encoding\<close>

datatype option_item = Pad | Opt u8 bytes

fun item_bytes :: "option_item \<Rightarrow> bytes" where
  "item_bytes Pad = [DHO_PAD]"
| "item_bytes (Opt c v) = c # of_nat (length v) # v"

fun item_ok :: "option_item \<Rightarrow> bool" where
  "item_ok Pad \<longleftrightarrow> True"
| "item_ok (Opt c v) \<longleftrightarrow> c \<noteq> DHO_PAD \<and> c \<noteq> DHO_END \<and> length v < 256"

fun item_option :: "option_item \<Rightarrow> DHCP_Option list" where
  "item_option Pad = []"
| "item_option (Opt c v) = [\<lparr>opt_code = c, opt_length = of_nat (length v), opt_value = Some v\<rparr>]"

abbreviation encode_items :: "option_item list \<Rightarrow> bytes" where
  "encode_items items \<equiv> concat (map item_bytes items)"

abbreviation item_options :: "option_item list \<Rightarrow> DHCP_Option list" where
  "item_options items \<equiv> concat (map item_option items)"

definition wf_header :: "DHCP_Packet \<Rightarrow> bool" where
  "wf_header pkt \<longleftrightarrow> length (chaddr pkt) = 16 \<and> length (sname pkt) = 64 \<and> length (file_field pkt) = 128"

definition header_bytes :: "DHCP_Packet \<Rightarrow> bytes" where
  "header_bytes pkt = concat (map snd (header_fields pkt))"

text \<open>The options of a packet are those before the end mark.\<close>

definition live_options :: "DHCP_Packet \<Rightarrow> DHCP_Option list" where
  "live_options pkt = takeWhile (\<lambda>opt. opt_code opt \<noteq> DHO_END) (pkt_options pkt)"

definition option_wf :: "DHCP_Option \<Rightarrow> bool" where
  "option_wf opt \<longleftrightarrow>
     opt_code opt \<noteq> DHO_END \<and> (\<exists>v. opt_value opt = Some v \<and> unat (opt_length opt) \<le> length v)"

definition option_wire :: "DHCP_Option \<Rightarrow> bytes" where
  "option_wire opt =
     opt_code opt # opt_length opt # take (unat (opt_length opt)) (the (opt_value opt))"

abbreviation wire_options :: "DHCP_Option list \<Rightarrow> bytes" where
  "wire_options opts \<equiv> concat (map option_wire opts)"

definition terminated :: "DHCP_Packet \<Rightarrow> bool" where
  "terminated pkt \<longleftrightarrow> length (pkt_options pkt) = MAX_DHCP_OPTIONS
     \<and> (\<exists>opt \<in> set (pkt_options pkt). opt_code opt = DHO_END)
     \<and> (\<forall>opt \<in> set (live_options pkt). option_wf opt)"

definition wire :: "DHCP_Packet \<Rightarrow> bytes" where
  "wire pkt =
     (let body = header_bytes pkt @ wire_options (live_options pkt) @ [DHO_END]
      in body @ replicate (300 - length body) 0)"

section \<open>Writing\<close>

fun contiguous :: "nat \<Rightarrow> (nat \<times> bytes) list \<Rightarrow> bool" where
  "contiguous off [] \<longleftrightarrow> True"
| "contiguous off ((p, v) # fs) \<longleftrightarrow> p = off \<and> contiguous (off + length v) fs"

lemma write_fields_contiguous:
  assumes "contiguous off fs" and "off + length (concat (map snd fs)) \<le> length buf"
  shows "write_fields buf fs = Inr (overlay buf off (concat (map snd fs)))"
  using assms
proof (induction off fs arbitrary: buf rule: contiguous.induct)
  case (2 off p v fs)
  then show ?case by (simp add: write_range_overlay overlay_overlay del: write_range_Inr)
qed simp

lemma live_options_Cons [simp]:
  "live_options (pkt\<lparr>pkt_options := opt # opts\<rparr>)
   = (if opt_code opt = DHO_END then [] else opt # live_options (pkt\<lparr>pkt_options := opts\<rparr>))"
  by (simp add: live_options_def)

lemma options_split:
  assumes "terminated pkt"
  obtains e rest where "pkt_options pkt = live_options pkt @ e # rest" and "opt_code e = DHO_END"
proof -
  let ?P = "\<lambda>opt. opt_code opt \<noteq> DHO_END"
  have "dropWhile ?P (pkt_options pkt) \<noteq> []"
    using assms by (auto simp: terminated_def dropWhile_eq_Nil_conv)
  then obtain e rest where d: "dropWhile ?P (pkt_options pkt) = e # rest" by (cases "dropWhile ?P (pkt_options pkt)") auto
  then have "opt_code e = DHO_END" using hd_dropWhile [of ?P "pkt_options pkt"] by auto
  moreover have "pkt_options pkt = live_options pkt @ e # rest"
    unfolding live_options_def d [symmetric] by simp
  ultimately show thesis using that by blast
qed

lemma length_option_wire: "option_wf opt \<Longrightarrow> length (option_wire opt) = unat (opt_length opt) + 2"
  by (auto simp: option_wf_def option_wire_def)

lemma options_length_eq:
  assumes "\<forall>opt \<in> set opts. option_wf opt" and "opt_code e = DHO_END"
  shows "options_length (opts @ e # rest) n = Inr (n + length (wire_options opts))"
  using assms
proof (induction opts arbitrary: n)
  case (Cons opt opts)
  then have "opt_code opt \<noteq> DHO_END" by (simp add: option_wf_def)
  with Cons show ?case by (simp add: length_option_wire)
qed simp

lemma write_options_eq:
  assumes "\<forall>opt \<in> set opts. option_wf opt" and "opt_code e = DHO_END"
    and "off + length (wire_options opts) \<le> length buf"
  shows "write_options (opts @ e # rest) buf off
         = Inr (overlay buf off (wire_options opts), off + length (wire_options opts))"
  using assms
proof (induction opts arbitrary: buf off)
  case (Cons opt opts)
  then obtain v where v: "opt_value opt = Some v" and l: "unat (opt_length opt) \<le> length v"
    and c: "opt_code opt \<noteq> DHO_END" by (auto simp: option_wf_def)
  let ?fs = "[(off, [opt_code opt]), (off + 1, [opt_length opt]), (off + 2, take (unat (opt_length opt)) v)]"
  have w: "concat (map snd ?fs) = option_wire opt" using v by (simp add: option_wire_def)
  have len: "length (option_wire opt) = unat (opt_length opt) + 2"
    using Cons.prems by (simp add: length_option_wire)
  have "contiguous off ?fs" by simp
  then have "write_fields buf ?fs = Inr (overlay buf off (option_wire opt))"
    using write_fields_contiguous [of off ?fs buf] Cons.prems(3) unfolding w by simp
  then show ?case
    using c v l len Cons by (simp add: overlay_overlay add.assoc del: write_fields.simps)
qed simp

lemma header_contiguous: "wf_header pkt \<Longrightarrow> contiguous 0 (header_fields pkt)"
  by (simp add: header_fields_def wf_header_def)

lemma length_header_bytes [simp]: "wf_header pkt \<Longrightarrow> length (header_bytes pkt) = 240"
  by (simp add: header_bytes_def header_fields_def wf_header_def DHCP_MAGIC_COOKIE_def)

lemma length_wire: "300 \<le> length (wire pkt)"
  by (simp add: wire_def Let_def)

lemma unmarshall_wire:
  assumes "wf_header pkt" and t: "terminated pkt" and fits: "length (wire pkt) \<le> length buf"
  shows "unmarshall pkt buf = Inr (wire pkt @ drop (length (wire pkt)) buf, length (wire pkt))"
proof -
  obtain e rest where opts: "pkt_options pkt = live_options pkt @ e # rest" and e: "opt_code e = DHO_END"
    using t by (rule options_split)
  have wf: "\<forall>opt \<in> set (live_options pkt). option_wf opt" using t by (simp add: terminated_def)
  let ?w = "wire_options (live_options pkt)"
  define pad where "pad = 300 - (241 + length ?w)"
  have wire: "wire pkt = header_bytes pkt @ ?w @ [DHO_END] @ replicate pad 0"
    using assms(1) by (simp add: wire_def Let_def pad_def)
  have len: "length (wire pkt) = 241 + length ?w + pad" using assms(1) by (simp add: wire)
  have 1: "options_length (pkt_options pkt) (BOOTP_ABSOLUTE_MIN_LEN + length DHCP_MAGIC_COOKIE)
           = Inr (240 + length ?w)"
    using options_length_eq [OF wf e] by (simp add: opts DHCP_MAGIC_COOKIE_def)
  have 2: "write_fields buf (header_fields pkt) = Inr (overlay buf 0 (header_bytes pkt))"
    using write_fields_contiguous [OF header_contiguous [OF assms(1)]] fits len assms(1)
    by (simp flip: header_bytes_def)
  have 3: "write_options (pkt_options pkt) (overlay buf 0 (header_bytes pkt)) 240
           = Inr (overlay buf 0 (header_bytes pkt @ ?w), 240 + length ?w)"
    using write_options_eq [OF wf e] fits len assms(1) by (simp add: opts overlay_overlay)
  let ?b3 = "overlay buf 0 (header_bytes pkt @ ?w @ [DHO_END])"
  have 4: "write_range (overlay buf 0 (header_bytes pkt @ ?w)) (240 + length ?w) [DHO_END] = Inr ?b3"
    using fits len assms(1) by (simp add: write_range_overlay overlay_overlay del: write_range_Inr)
  have all: "wire pkt @ drop (length (wire pkt)) buf = overlay buf 0 (wire pkt)"
    by (simp add: overlay_def)
  have 5: "write_range ?b3 (240 + length ?w + 1) (replicate pad 0) = Inr (overlay buf 0 (wire pkt))"
    using fits len assms(1)
    by (simp add: write_range_overlay overlay_overlay wire del: write_range_Inr)
  have 6: "pad = 0 \<Longrightarrow> ?b3 = overlay buf 0 (wire pkt)" by (simp add: wire)
  show ?thesis
    unfolding unmarshall_def 1 2 3 4 bindR.simps prod.case Let_def
    using 5 6 len unfolding all by (auto simp: pad_def)
qed

section \<open>Reading\<close>

lemma marshall_loop_full [simp]: "marshall_loop buffer n 32 off opts = Inr (32, opts)"
  by (subst marshall_loop.simps) simp

text \<open>The loop consumes any sequence of padding and options.\<close>

lemma marshall_loop_items:
  assumes "list_all item_ok items" and "length opts = 32"
    and "idx + length (item_options items) \<le> 32"
    and "drop off buffer = encode_items items @ rest"
    and "int (off + length (encode_items items)) \<le> n"
  shows "marshall_loop buffer n idx off opts =
     marshall_loop buffer n (idx + length (item_options items)) (off + length (encode_items items))
       (overlay opts idx (item_options items))"
  using assms
proof (induction items arbitrary: idx off opts)
  case (Cons item items)
  show ?case
  proof (cases item)
    case Pad
    then have "drop off buffer = DHO_PAD # encode_items items @ rest" using Cons.prems by simp
    note d = drop_Cons_nth [OF this]
    show ?thesis
    proof (cases "idx = 32")
      case False
      with d have "marshall_loop buffer n idx off opts = marshall_loop buffer n idx (Suc off) opts"
        using Cons.prems Pad by (subst marshall_loop.simps) simp
      with Cons Pad d show ?thesis by simp
    next
      case True
      have "length (item_options items) = 0" using Cons.prems(3) Pad unfolding True by simp
      then have e: "item_options items = []" by (simp only: length_0_conv)
      show ?thesis unfolding True Pad by (simp add: e)
    qed
  next
    case (Opt c v)
    let ?opt = "\<lparr>opt_code = c, opt_length = of_nat (length v) :: u8, opt_value = Some v\<rparr>"
    have c: "c \<noteq> DHO_PAD" "c \<noteq> DHO_END" and l: "unat (of_nat (length v) :: u8) = length v"
      using Cons.prems(1) Opt by (auto simp: unat_of_nat)
    have "drop off buffer = c # of_nat (length v) # v @ encode_items items @ rest"
      using Cons.prems(4) Opt by simp
    note d1 = drop_Cons_nth [OF this] and d2 = drop_Cons_nth [OF drop_Cons_nth(3) [OF this]]
    have bl: "Suc (Suc off) + length v \<le> length buffer"
      using arg_cong [OF d2(3), of length] d2(1) by simp
    have d3: "drop (off + (length v + 2)) buffer = encode_items items @ rest"
      using arg_cong [OF d2(3), of "drop (length v)"] by (simp add: add.commute add.left_commute)
    have upd: "opts[idx := ?opt] = overlay opts idx [?opt]"
      using Cons.prems Opt by (simp add: overlay_def upd_conv_take_nth_drop)
    have "marshall_loop buffer n idx off opts
          = marshall_loop buffer n (idx + 1) (off + (length v + 2)) (opts[idx := ?opt])"
      using Cons.prems Opt c l d1 d2 bl by (subst marshall_loop.simps) simp
    with Cons Opt d3 show ?thesis by (simp add: upd overlay_overlay add.assoc)
  qed
qed simp

lemma marshall_header:
  assumes "wf_header q"
  shows "marshall pkt (header_bytes q @ rest) n =
    (if n < 240 then Inl (DHCP_PacketException ''Invalid dhcp magic cookie'')
     else bindR (marshall_loop (header_bytes q @ rest) n 0 240 (pkt_options pkt)) (\<lambda>(i, opts).
       if i < length opts
       then Inr (q\<lparr>pkt_options := opts[i := (opts ! i)\<lparr>opt_code := DHO_END\<rparr>]\<rparr>)
       else Inl MemFault))"
proof -
  have h: "header_bytes q = pkt_op q # htype q # hlen q # hops q # le_bytes 4 (xid q)
     @ le_bytes 2 (secs q) @ le_bytes 2 (flags q) @ le_bytes 4 (ciaddr q) @ le_bytes 4 (yiaddr q)
     @ le_bytes 4 (siaddr q) @ le_bytes 4 (giaddr q) @ chaddr q @ sname q @ file_field q @ DHCP_MAGIC_COOKIE"
    by (simp add: header_bytes_def header_fields_def)
  have l: "length (chaddr q) = 16" "length (sname q) = 64" "length (file_field q) = 128" 
     "length DHCP_MAGIC_COOKIE = 4"
    using assms by (simp_all add: wf_header_def DHCP_MAGIC_COOKIE_def)
  have c: "check_magic_cookie (header_bytes q @ rest) n = Inr (\<not> n < 240)"
    unfolding check_magic_cookie_def h using l by simp
  show ?thesis
    unfolding marshall_def c
    unfolding read16_def read32_def
    using l by (simp add: h del: bindR_eq_Inr)
      (intro impI arg_cong2 [where f = bindR] refl ext, simp split: prod.splits)
qed

text \<open>What reading leaves in the option array.\<close>

definition end_option :: DHCP_Option where
  "end_option = null_option\<lparr>opt_code := DHO_END\<rparr>"

definition option_slots :: "DHCP_Option list \<Rightarrow> DHCP_Option list" where
  "option_slots opts = opts @ end_option # replicate (31 - length opts) null_option"

lemma overlay_replicate:
  "length xs \<le> n \<Longrightarrow> overlay (replicate n x) 0 xs = xs @ replicate (n - length xs) x"
  by (simp add: overlay_def)

lemma parse_request_items:
  assumes "wf_header q" and "list_all item_ok items" and "length (item_options items) < 32"
    and "int (240 + length (encode_items items)) < n"
  shows "parse_request (header_bytes q @ encode_items items @ DHO_END # rest) n
         = Inr (q\<lparr>pkt_options := option_slots (item_options items)\<rparr>)"
proof -
  let ?buf = "header_bytes q @ encode_items items @ DHO_END # rest"
  let ?k = "length (item_options items)" and ?off = "240 + length (encode_items items)"
  let ?slots = "item_options items @ replicate (32 - ?k) null_option"
  have d: "drop 240 ?buf = encode_items items @ DHO_END # rest" using assms(1) by simp
  have "marshall_loop ?buf n 0 240 (replicate 32 null_option) = marshall_loop ?buf n ?k ?off ?slots"
    using marshall_loop_items [OF assms(2) _ _ d, of "replicate 32 null_option" 0] assms(3,4)
    by (simp add: overlay_replicate)
  also have "\<dots> = Inr (?k, ?slots[?k := (?slots ! ?k)\<lparr>opt_code := DHO_END\<rparr>])"
  proof -
    have "drop ?off ?buf = DHO_END # rest" using assms(1) by simp
    note drop_Cons_nth [OF this]
    then show ?thesis using assms by (subst marshall_loop.simps) simp
  qed
  also have "?slots[?k := (?slots ! ?k)\<lparr>opt_code := DHO_END\<rparr>] = option_slots (item_options items)"
  proof -
    have "replicate (32 - ?k) null_option = null_option # replicate (31 - ?k) null_option"
      using assms(3) by (simp flip: replicate_Suc)
    then show ?thesis by (simp add: option_slots_def end_option_def list_update_append nth_append)
  qed
  finally show ?thesis
    using assms unfolding parse_request_def marshall_header [OF assms(1)]
    by (simp add: DHCP_Packet_new_def option_slots_def end_option_def list_update_append nth_append)
qed

lemma parse_request_too_many:
  assumes "wf_header q" and "list_all item_ok items" and "length (item_options items) = 32"
    and "int (240 + length (encode_items items)) \<le> n"
  shows "parse_request (header_bytes q @ encode_items items @ rest) n = Inl MemFault"
proof -
  let ?buf = "header_bytes q @ encode_items items @ rest"
  have d: "drop 240 ?buf = encode_items items @ rest" using assms(1) by simp
  have "marshall_loop ?buf n 0 240 (replicate 32 null_option) = Inr (32, item_options items)"
    using marshall_loop_items [OF assms(2) _ _ d, of "replicate 32 null_option" 0] assms(3,4)
    by (simp add: overlay_replicate)
  then show ?thesis
    using assms unfolding parse_request_def marshall_header [OF assms(1)]
    by (simp add: DHCP_Packet_new_def)
qed

section \<open>The packets that reading and the constructors produce\<close>

definition canonical_option :: "DHCP_Option \<Rightarrow> bool" where
  "canonical_option opt \<longleftrightarrow> opt_code opt \<noteq> DHO_PAD \<and> opt_code opt \<noteq> DHO_END
     \<and> (case opt_value opt of None \<Rightarrow> False | Some v \<Rightarrow> length v = unat (opt_length opt))"

definition canonical :: "DHCP_Packet \<Rightarrow> bool" where
  "canonical pkt \<longleftrightarrow> wf_header pkt \<and> length (live_options pkt) < MAX_DHCP_OPTIONS
     \<and> pkt_options pkt = option_slots (live_options pkt)
     \<and> list_all canonical_option (live_options pkt)"

lemma takeWhile_option_slots:
  "list_all canonical_option opts \<Longrightarrow>
     takeWhile (\<lambda>opt. opt_code opt \<noteq> DHO_END) (option_slots opts) = opts"
  by (auto simp: option_slots_def end_option_def takeWhile_append list_all_iff canonical_option_def)

lemma canonicalI:
  assumes "wf_header pkt" and "pkt_options pkt = option_slots opts" and "length opts < 32"
    and "list_all canonical_option opts"
  shows "canonical pkt" and "live_options pkt = opts"
  using assms takeWhile_option_slots [OF assms(4)] by (simp_all add: canonical_def live_options_def)

lemma canonical_terminated:
  assumes "canonical pkt"
  shows "terminated pkt"
proof -
  have "option_wf opt" if "opt \<in> set (live_options pkt)" for opt
    using assms that
    by (auto simp: canonical_def list_all_iff canonical_option_def option_wf_def split: option.splits)
  moreover have "length (option_slots (live_options pkt)) = 32"
    using assms by (simp add: canonical_def option_slots_def)
  moreover have "end_option \<in> set (option_slots (live_options pkt))" "opt_code end_option = DHO_END"
    by (simp_all add: option_slots_def end_option_def)
  ultimately show ?thesis
    using assms unfolding canonical_def terminated_def by metis
qed

definition items_of :: "DHCP_Option list \<Rightarrow> option_item list" where
  "items_of opts = map (\<lambda>opt. Opt (opt_code opt) (the (opt_value opt))) opts"

lemma items_of_canonical:
  assumes "list_all canonical_option opts"
  shows "list_all item_ok (items_of opts)" and "item_options (items_of opts) = opts"
    and "encode_items (items_of opts) = wire_options opts"
proof -
  have *: "item_ok (Opt (opt_code opt) (the (opt_value opt)))"
      "item_option (Opt (opt_code opt) (the (opt_value opt))) = [opt]"
      "item_bytes (Opt (opt_code opt) (the (opt_value opt))) = option_wire opt"
    if "canonical_option opt" for opt
    using that unsigned_less [of "opt_length opt", where ?'a = nat]
    by (auto simp: canonical_option_def option_wire_def split: option.splits)
  show "list_all item_ok (items_of opts)" "item_options (items_of opts) = opts"
    "encode_items (items_of opts) = wire_options opts"
    using assms * by (induction opts) (auto simp: items_of_def)
qed

lemma write_read_canonical:
  assumes "canonical pkt" and "length (wire pkt) \<le> length buf"
  shows "unmarshall pkt buf = Inr (wire pkt @ drop (length (wire pkt)) buf, length (wire pkt))"
    and "parse_request (wire pkt @ rest) (int (length (wire pkt))) = Inr pkt"
proof -
  have wf: "wf_header pkt" and c: "list_all canonical_option (live_options pkt)"
    and n: "length (live_options pkt) < 32" and o: "pkt_options pkt = option_slots (live_options pkt)"
    using assms(1) by (simp_all add: canonical_def)
  show "unmarshall pkt buf = Inr (wire pkt @ drop (length (wire pkt)) buf, length (wire pkt))"
    using unmarshall_wire [OF wf canonical_terminated] assms by simp
  let ?w = "wire_options (live_options pkt)"
  obtain pad where w: "wire pkt = header_bytes pkt @ ?w @ DHO_END # pad" by (simp add: wire_def Let_def)
  have "parse_request (header_bytes pkt @ ?w @ DHO_END # pad @ rest) (int (length (wire pkt)))
        = Inr (pkt\<lparr>pkt_options := option_slots (live_options pkt)\<rparr>)"
    using parse_request_items [OF wf items_of_canonical(1) [OF c], of "int (length (wire pkt))" "pad @ rest"]
      n w wf unfolding items_of_canonical(2,3) [OF c] by simp
  then show "parse_request (wire pkt @ rest) (int (length (wire pkt))) = Inr pkt"
    using w o by simp
qed

definition loop_slots :: "nat \<Rightarrow> DHCP_Option list \<Rightarrow> bool" where
  "loop_slots i opts \<longleftrightarrow>
     (\<exists>pre. length pre = i \<and> i \<le> 32 \<and> list_all canonical_option pre
        \<and> opts = pre @ replicate (32 - i) null_option)"

lemma slots_Suc: "i < 32 \<Longrightarrow> replicate (32 - i) x = x # replicate (31 - i) x"
  by (simp flip: replicate_Suc)

lemma loop_slots_step:
  assumes "loop_slots i opts" and "i \<noteq> 32" and "canonical_option opt"
  shows "loop_slots (Suc i) (opts[i := opt])"
proof -
  from assms(1) obtain pre where pre: "length pre = i" "i \<le> 32" "list_all canonical_option pre"
    "opts = pre @ replicate (32 - i) null_option" by (auto simp: loop_slots_def)
  then have "opts[i := opt] = (pre @ [opt]) @ replicate (31 - i) null_option"
    using assms(2) by (simp add: list_update_append slots_Suc)
  then show ?thesis using pre assms by (auto simp: loop_slots_def intro!: exI [of _ "pre @ [opt]"])
qed

definition done_slots :: "nat \<Rightarrow> DHCP_Option list \<Rightarrow> bool" where
  "done_slots i opts \<longleftrightarrow> length opts = 32 \<and> i \<le> 32 \<and> (i < 32 \<longrightarrow>
     (\<exists>pre. length pre < 32 \<and> list_all canonical_option pre
        \<and> opts[i := (opts ! i)\<lparr>opt_code := DHO_END\<rparr>] = option_slots pre))"

lemma loop_slots_done: "loop_slots i opts \<Longrightarrow> done_slots i opts"
  by (fastforce simp: loop_slots_def done_slots_def option_slots_def end_option_def
      list_update_append nth_append slots_Suc)

lemma done_slots_end: "done_slots i opts \<Longrightarrow> done_slots i (opts[i := (opts ! i)\<lparr>opt_code := DHO_END\<rparr>])"
  by (auto simp: done_slots_def)

lemma marshall_loop_stop:
  "int off > n - 1 \<or> idx = 32 \<Longrightarrow> marshall_loop buffer n idx off opts = Inr (idx, opts)"
  by (subst marshall_loop.simps) auto

lemma marshall_loop_step:
  assumes "\<not> (int off > n - 1 \<or> idx = 32)"
  shows "marshall_loop buffer n idx off opts = bindR (read_at buffer off) (\<lambda>c.
     if c = DHO_PAD then marshall_loop buffer n idx (off + 1) opts
     else if c = DHO_END then Inr (idx, opts[idx := (opts ! idx)\<lparr>opt_code := DHO_END\<rparr>])
     else bindR (read_at buffer (off + 1)) (\<lambda>l.
       bindR (read_range buffer (off + 2) (unat l)) (\<lambda>v.
       marshall_loop buffer n (idx + 1) (off + (unat l + 2))
         (opts[idx := \<lparr>opt_code = c, opt_length = l, opt_value = Some v\<rparr>]))))"
  using assms by (subst marshall_loop.simps) (auto intro!: bindR_cong)

lemma marshall_loop_slots:
  assumes "marshall_loop buffer n idx off opts = Inr (i, opts')" and "loop_slots idx opts"
  shows "done_slots i opts'"
  using assms
proof (induction buffer n idx off opts rule: marshall_loop.induct)
  case (1 buffer n idx off opts)
  show ?case
  proof (cases "int off > n - 1 \<or> idx = 32")
    case True
    then show ?thesis using "1.prems" loop_slots_done by (simp add: marshall_loop_stop)
  next
    case False
    note step = "1.prems"(1) [unfolded marshall_loop_step [OF False]]
    from step obtain c where c: "read_at buffer off = Inr c" by auto
    have opts: "done_slots idx (opts[idx := (opts ! idx)\<lparr>opt_code := DHO_END\<rparr>])"
      using "1.prems"(2) by (simp add: loop_slots_done done_slots_end)
    consider "c = DHO_PAD" | "c = DHO_END" | "c \<noteq> DHO_PAD" "c \<noteq> DHO_END" by blast
    then show ?thesis
    proof cases
      case 1
      then show ?thesis using "1.IH"(1) [OF _ _ c] False c step "1.prems"(2) by simp
    next
      case 2
      then show ?thesis using opts c step by auto
    next
      case 3
      with c step obtain l v where l: "read_at buffer (off + 1) = Inr l"
        and v: "read_range buffer (off + 2) (unat l) = Inr v"
        and m: "marshall_loop buffer n (idx + 1) (off + (unat l + 2))
            (opts[idx := \<lparr>opt_code = c, opt_length = l, opt_value = Some v\<rparr>]) = Inr (i, opts')"
        by auto
      have "length v = unat l" using v by (auto simp: read_range_def split: if_splits)
      then have "canonical_option \<lparr>opt_code = c, opt_length = l, opt_value = Some v\<rparr>"
        using 3 by (simp add: canonical_option_def)
      then show ?thesis
        using "1.IH"(2) [OF _ _ c _ _ l v m] False 3 loop_slots_step [OF "1.prems"(2)] by simp
    qed
  qed
qed

lemma parse_request_canonical:
  assumes "parse_request buffer n = Inr pkt"
  shows "canonical pkt" and "check_magic_cookie buffer n = Inr True"
proof -
  have start: "loop_slots 0 (pkt_options DHCP_Packet_new)"
    by (simp add: loop_slots_def DHCP_Packet_new_def)
  from assms obtain i opts where loop: "marshall_loop buffer n 0 240 (pkt_options DHCP_Packet_new) = Inr (i, opts)"
    and i: "i < length opts" and "pkt_options pkt = opts[i := (opts ! i)\<lparr>opt_code := DHO_END\<rparr>]"
    and wf: "wf_header pkt" and c: "check_magic_cookie buffer n = Inr True"
    by (auto simp: parse_request_def marshall_def wf_header_def read_range_def split: if_splits)
  moreover have "done_slots i opts" by (rule marshall_loop_slots [OF loop start])
  ultimately obtain pre where "pkt_options pkt = option_slots pre" "length pre < 32" "list_all canonical_option pre"
    by (auto simp: done_slots_def)
  then show "canonical pkt" using canonicalI(1) [OF wf] by blast
  show "check_magic_cookie buffer n = Inr True" by (rule c)
qed

section \<open>The reader on arbitrary bytes\<close>

text \<open>What RFC 2131 and RFC 2132 say of the bytes of a packet, without the code's indices and array:
  a packet is at least 240 bytes long and has the cookie in the last four of them; the options
  follow, pad bytes between them, up to the end mark or the end of the packet. \<open>room\<close> is the number
  of options that still fit, the end mark among them, and no option may reach over the buffer.\<close>

definition missing_cookie :: "bytes \<Rightarrow> int \<Rightarrow> bool" where
  "missing_cookie buffer n \<longleftrightarrow>
     n < 240 \<or> 240 \<le> length buffer \<and> take 4 (drop 236 buffer) \<noteq> [0x63, 0x82, 0x53, 0x63]"

fun scan_options :: "int \<Rightarrow> nat \<Rightarrow> bytes \<Rightarrow> DHCP_Option list option" where
  "scan_options left room bs =
     (if room = 0 then None
      else if left \<le> 0 then Some []
      else case bs of
        [] \<Rightarrow> None
      | c # r \<Rightarrow>
          if c = 0 then scan_options (left - 1) room r
          else if c = 255 then Some []
          else case r of
            [] \<Rightarrow> None
          | l # r' \<Rightarrow>
              if length r' < unat l then None
              else map_option (\<lambda>opts. \<lparr>opt_code = c, opt_length = l, opt_value = Some (take (unat l) r')\<rparr> # opts)
                     (scan_options (left - 2 - int (unat l)) (room - 1) (drop (unat l) r')))"

declare scan_options.simps [simp del]

definition slots_of :: "DHCP_Option list \<Rightarrow> DHCP_Option list" where
  "slots_of pre = pre @ replicate (32 - length pre) null_option"

lemma slots_of_next: "length pre < 32 \<Longrightarrow> (slots_of pre)[length pre := opt] = slots_of (pre @ [opt])"
  by (simp add: slots_of_def list_update_append slots_Suc)

lemma slots_of_end:
  "length pre < 32 \<Longrightarrow> (slots_of pre)[length pre := (slots_of pre ! length pre)\<lparr>opt_code := DHO_END\<rparr>] = option_slots pre"
  by (simp add: slots_of_def option_slots_def end_option_def list_update_append nth_append slots_Suc)

lemma option_slots_end: "length pre < 32 \<Longrightarrow> length (option_slots pre) = 32
     \<and> (option_slots pre)[length pre := (option_slots pre ! length pre)\<lparr>opt_code := DHO_END\<rparr>] = option_slots pre"
  by (simp add: option_slots_def end_option_def list_update_append nth_append)

lemma length_slots_of: "length pre \<le> 32 \<Longrightarrow> length (slots_of pre) = 32"
  by (simp add: slots_of_def)

text \<open>The index and the array that the loop leaves, with the end mark set after it.\<close>

fun loop_result :: "(nat \<times> DHCP_Option list) res \<Rightarrow> DHCP_Option list res" where
  "loop_result (Inl e) = Inl e"
| "loop_result (Inr (i, opts)) =
     (if i < length opts then Inr (opts[i := (opts ! i)\<lparr>opt_code := DHO_END\<rparr>]) else Inl MemFault)"

lemma marshall_loop_scan:
  assumes "off \<le> length buffer" and "length pre \<le> 32"
  shows "loop_result (marshall_loop buffer n (length pre) off (slots_of pre))
    = (case scan_options (n - int off) (32 - length pre) (drop off buffer) of
         None \<Rightarrow> Inl MemFault | Some opts \<Rightarrow> Inr (option_slots (pre @ opts)))"
  using assms
proof (induction "length buffer - off" arbitrary: off pre rule: less_induct)
  case less
  consider (full) "length pre = 32" | (stop) "length pre < 32" "int off > n - 1" | (step) "length pre < 32" "\<not> int off > n - 1"
    using less.prems by linarith
  then show ?case
  proof cases
    case full
    then show ?thesis by (simp add: marshall_loop_stop length_slots_of scan_options.simps)
  next
    case stop
    then show ?thesis by (simp add: marshall_loop_stop length_slots_of slots_of_end scan_options.simps)
  next
    case step
    then have run: "\<not> (int off > n - 1 \<or> length pre = 32)" by simp
    note loop = marshall_loop_step [OF run, of buffer "slots_of pre"]
    have scan: "scan_options (n - int off) (32 - length pre) bs = (case bs of [] \<Rightarrow> None
        | c # r \<Rightarrow> if c = 0 then scan_options (n - int off - 1) (32 - length pre) r
          else if c = 255 then Some []
          else case r of [] \<Rightarrow> None
          | l # r' \<Rightarrow> if length r' < unat l then None
              else map_option (\<lambda>opts. \<lparr>opt_code = c, opt_length = l, opt_value = Some (take (unat l) r')\<rparr> # opts)
                     (scan_options (n - int off - 2 - int (unat l)) (32 - length pre - 1) (drop (unat l) r')))" for bs
      using step by (subst scan_options.simps) simp
    show ?thesis
    proof (cases "drop off buffer")
      case Nil
      then show ?thesis by (simp add: loop scan read_at_def)
    next
      case (Cons c r)
      note d = drop_Cons_nth [OF Cons]
      consider (pad) "c = 0" | (mark) "c = 255" | (opt) "c \<noteq> 0" "c \<noteq> 255" by blast
      then show ?thesis
      proof cases
        case pad
        have "n - int off - 1 = n - int (off + 1)" by simp
        with pad show ?thesis using less.hyps [of "off + 1" pre] less.prems(2) d
          by (simp only: loop scan Cons) simp
      next
        case mark
        then show ?thesis using step(1) d
          by (simp only: loop scan Cons) (simp add: length_slots_of slots_of_end option_slots_end)
      next
        case opt
        show ?thesis
        proof (cases r)
          case Nil
          then show ?thesis using opt d by (simp only: loop scan Cons) (simp add: read_at_def)
        next
          case (Cons l r')
          with d(3) have "drop (off + 1) buffer = l # r'" by simp
          note d2 = drop_Cons_nth [OF this]
          have len: "length buffer - (off + 2) = length r'"
            using arg_cong [OF d2(3), of length] by simp
          let ?opt = "\<lparr>opt_code = c, opt_length = l, opt_value = Some (take (unat l) r')\<rparr>"
          have at: "read_at buffer off = Inr c" "read_at buffer (off + 1) = Inr l"
            using d(1,2) d2(1,2) by simp_all
          show ?thesis
          proof (cases "length r' < unat l")
            case True
            then have "read_range buffer (off + 2) (unat l) = Inl MemFault"
              using len d2(1) by (simp add: read_range_def)
            with True opt show ?thesis by (simp only: loop scan \<open>drop off buffer = c # r\<close> Cons at) simp
          next
            case False
            then have l: "off + 2 + unat l \<le> length buffer" using len d2(1) by linarith
            have v: "read_range buffer (off + 2) (unat l) = Inr (take (unat l) r')"
              using l d2(3) by simp
            have rest: "drop (off + (unat l + 2)) buffer = drop (unat l) r'"
              using d2(3) drop_drop [of "unat l" "off + 2" buffer] by (simp add: add_ac)
            have left: "n - int (off + (unat l + 2)) = n - int off - 2 - int (unat l)" by simp
            have room: "32 - length (pre @ [?opt]) = 32 - length pre - 1" by simp
            have ih: "loop_result (marshall_loop buffer n (length (pre @ [?opt])) (off + (unat l + 2)) (slots_of (pre @ [?opt])))
              = (case scan_options (n - int off - 2 - int (unat l)) (32 - length pre - 1) (drop (unat l) r') of
                   None \<Rightarrow> Inl MemFault | Some opts \<Rightarrow> Inr (option_slots ((pre @ [?opt]) @ opts)))"
              by (rule less.hyps [of "off + (unat l + 2)" "pre @ [?opt]", unfolded rest left room])
                (use l step(1) in simp_all)
            have "marshall_loop buffer n (length pre) off (slots_of pre)
              = marshall_loop buffer n (length (pre @ [?opt])) (off + (unat l + 2)) (slots_of (pre @ [?opt]))"
              using opt step(1) by (simp only: loop at bindR.simps v if_False slots_of_next length_append_singleton Suc_eq_plus1)
            moreover have "scan_options (n - int off) (32 - length pre) (drop off buffer)
              = map_option ((#) ?opt) (scan_options (n - int off - 2 - int (unat l)) (32 - length pre - 1) (drop (unat l) r'))"
              using opt False by (simp only: scan \<open>drop off buffer = c # r\<close> Cons list.case if_False)
            ultimately show ?thesis by (simp only: ih) (simp split: option.splits)
          qed
        qed
      qed
    qed
  qed
qed

lemma header_of_bytes:
  assumes "240 \<le> length buffer" and "take 4 (drop 236 buffer) = [0x63, 0x82, 0x53, 0x63]"
  obtains q where "wf_header q" and "header_bytes q = take 240 buffer"
proof -
  let ?at = "\<lambda>off k. take k (drop off buffer)"
  define q where "q = DHCP_Packet_new\<lparr>pkt_op := buffer ! 0, htype := buffer ! 1, hlen := buffer ! 2, hops := buffer ! 3,
     xid := le_word (?at 4 4), secs := le_word (?at 8 2), flags := le_word (?at 10 2), ciaddr := le_word (?at 12 4),
     yiaddr := le_word (?at 16 4), siaddr := le_word (?at 20 4), giaddr := le_word (?at 24 4), chaddr := ?at 28 16,
     sname := ?at 44 64, file_field := ?at 108 128\<rparr>"
  have "wf_header q" using assms(1) by (simp add: q_def wf_header_def)
  moreover have "header_bytes q = take 240 buffer"
  proof -
    have le: "le_bytes 4 (le_word (?at off 4) :: u32) = ?at off 4" "le_bytes 2 (le_word (?at off 2) :: u16) = ?at off 2" if "off < 28" for off
      using that assms(1) by (simp_all add: le_bytes_le_word)
    have parts: "take (k + m) (drop off buffer) = ?at off k @ ?at (off + k) m" for off k m
      by (simp add: take_add add.commute)
    have start: "take 4 buffer = [buffer ! 0, buffer ! 1, buffer ! 2, buffer ! 3]"
      using assms(1) by (intro nth_equalityI) (auto simp: less_Suc_eq numeral_eq_Suc)
    have "take 240 buffer = take 4 buffer @ ?at 4 4 @ ?at 8 2 @ ?at 10 2 @ ?at 12 4 @ ?at 16 4 @ ?at 20 4 @ ?at 24 4
        @ ?at 28 16 @ ?at 44 64 @ ?at 108 128 @ ?at 236 4"
      using parts [of 4 236 0] parts [of 4 232 4] parts [of 2 230 8] parts [of 2 228 10] parts [of 4 224 12] parts [of 4 220 16]
        parts [of 4 216 20] parts [of 4 212 24] parts [of 16 196 28] parts [of 64 132 44] parts [of 128 4 108] by simp
    then show ?thesis
      using assms(2) by (simp add: start header_bytes_def header_fields_def q_def DHCP_MAGIC_COOKIE_def le)
  qed
  ultimately show thesis by (rule that)
qed

lemma parse_request_bad:
  "missing_cookie buffer n \<Longrightarrow> parse_request buffer n = Inl (DHCP_PacketException ''Invalid dhcp magic cookie'')"
  by (auto simp: missing_cookie_def parse_request_def marshall_def check_magic_cookie_def DHCP_MAGIC_COOKIE_def)

lemma parse_request_short:
  "\<not> missing_cookie buffer n \<Longrightarrow> length buffer < 240 \<Longrightarrow> parse_request buffer n = Inl MemFault"
  by (simp add: missing_cookie_def parse_request_def marshall_def check_magic_cookie_def read_range_def)

lemma parse_request_scan:
  assumes "\<not> missing_cookie buffer n" and "240 \<le> length buffer"
  shows "\<exists>q. wf_header q \<and> header_bytes q = take 240 buffer
    \<and> parse_request buffer n = (case scan_options (n - 240) 32 (drop 240 buffer) of
        None \<Rightarrow> Inl MemFault | Some opts \<Rightarrow> Inr (q\<lparr>pkt_options := option_slots opts\<rparr>))"
proof -
  obtain q where q: "wf_header q" "header_bytes q = take 240 buffer"
    using header_of_bytes [of buffer] assms by (auto simp: missing_cookie_def)
  have n: "\<not> n < 240" using assms(1) by (simp add: missing_cookie_def)
  have "slots_of [] = pkt_options DHCP_Packet_new" by (simp add: slots_of_def DHCP_Packet_new_def)
  with marshall_loop_scan [of 240 buffer "[]" n] assms(2)
  have loop: "loop_result (marshall_loop buffer n 0 240 (pkt_options DHCP_Packet_new))
     = (case scan_options (n - 240) 32 (drop 240 buffer) of None \<Rightarrow> Inl MemFault | Some opts \<Rightarrow> Inr (option_slots opts))"
    by (simp split: option.splits)
  have "parse_request buffer n = bindR (loop_result (marshall_loop buffer n 0 240 (pkt_options DHCP_Packet_new)))
     (\<lambda>opts. Inr (q\<lparr>pkt_options := opts\<rparr>))"
    using marshall_header [OF q(1), of DHCP_Packet_new "drop 240 buffer" n] n
    by (cases "marshall_loop buffer n 0 240 (pkt_options DHCP_Packet_new)")
      (auto simp: parse_request_def q(2))
  with q loop show ?thesis by (auto split: option.splits)
qed

text \<open>A packet keeps its header when its options are set.\<close>

lemma header_bytes_options: "header_bytes (q\<lparr>pkt_options := opts\<rparr>) = header_bytes q"
  by (simp add: header_bytes_def header_fields_def)

section \<open>Properties\<close>

lemma wf_header_new [simp]: "wf_header DHCP_Packet_new"
  by (simp add: wf_header_def DHCP_Packet_new_def)

text \<open>C8 Writing a packet and reading it back. Every packet in the form that the constructors
  and the reader produce is written to a large enough buffer as its wire encoding, at least
  300 bytes long as RFC 1542 asks, the rest of the buffer is untouched, and
  \<open>parse_request\<close> on the written bytes returns the packet itself.\<close>

theorem packet_write_read:
  assumes "canonical pkt" and "length (wire pkt) \<le> length buf"
  shows "\<exists>buf' n. unmarshall pkt buf = Inr (buf', n) \<and> length buf' = length buf
           \<and> 300 \<le> n \<and> take n buf' = wire pkt \<and> drop n buf' = drop n buf
           \<and> parse_request buf' (int n) = Inr pkt"
  using write_read_canonical [OF assms] assms(2) length_wire [of pkt] by auto

theorem packet_write_read_witness:
  "\<exists>buf' n. unmarshall (DHCP_Packet_new\<lparr>pkt_options := option_slots [set_value_u8 53 5]\<rparr>) (replicate 400 7) = Inr (buf', n)
     \<and> length buf' = length (replicate 400 (7::u8)) \<and> 300 \<le> n
     \<and> take n buf' = wire (DHCP_Packet_new\<lparr>pkt_options := option_slots [set_value_u8 53 5]\<rparr>)
     \<and> drop n buf' = drop n (replicate 400 7)
     \<and> parse_request buf' (int n) = Inr (DHCP_Packet_new\<lparr>pkt_options := option_slots [set_value_u8 53 5]\<rparr>)"
proof (rule packet_write_read)
  let ?pkt = "DHCP_Packet_new\<lparr>pkt_options := option_slots [set_value_u8 53 5]\<rparr>"
  have l: "wf_header ?pkt" "list_all canonical_option [set_value_u8 53 5]"
    by (simp_all add: wf_header_def DHCP_Packet_new_def canonical_option_def set_value_u8_def)
  show "canonical ?pkt" using canonicalI(1) [OF l(1) _ _ l(2)] by simp
  have "live_options ?pkt = [set_value_u8 53 5]" using canonicalI(2) [OF l(1) _ _ l(2)] by simp
  then show "length (wire ?pkt) \<le> length (replicate 400 (7::u8))"
    using l by (simp add: wire_def Let_def option_wire_def set_value_u8_def)
qed

text \<open>C9 Reading a well-formed packet: whatever padding lies between the options, the reader
  returns the header fields and exactly the options in their order, followed by the end mark
  and empty slots, as long as there are fewer than 32 options.\<close>

theorem packet_read_options:
  assumes "wf_header q" and "list_all item_ok items" and "length (item_options items) < MAX_DHCP_OPTIONS"
    and "int (240 + length (encode_items items)) < n"
  shows "parse_request (header_bytes q @ encode_items items @ DHO_END # rest) n
         = Inr (q\<lparr>pkt_options := option_slots (item_options items)\<rparr>)"
  using assms by (rule parse_request_items)

theorem packet_read_options_witness:
  "parse_request (header_bytes DHCP_Packet_new @ encode_items [Opt 53 [1], Pad, Pad, Opt 50 [10, 0, 0, 7]] @ DHO_END # []) 255
   = Inr (DHCP_Packet_new\<lparr>pkt_options :=
       option_slots (item_options [Opt 53 [1], Pad, Pad, Opt 50 [10, 0, 0, 7]])\<rparr>)"
  using packet_read_options [of DHCP_Packet_new "[Opt 53 [1], Pad, Pad, Opt 50 [10, 0, 0, 7]]" 255 "[]"]
  by simp

text \<open>C10 The outcome of reading arbitrary bytes. The exception of the source is raised exactly when
  the packet is shorter than 240 bytes or its cookie is wrong. Otherwise the packet is accepted
  exactly when its header and every option up to the end lie inside the buffer and there are fewer
  than 32 options; it then has the header's bytes and the options of the buffer in their order, each
  with exactly the bytes its length field says, in a terminated array. What remains is an access
  outside the buffer or the option array. \<open>missing_cookie\<close> and \<open>scan_options\<close> read the bytes apart
  from the code's checks and loop.\<close>

theorem packet_read_outcome:
  "if missing_cookie buffer n
   then parse_request buffer n = Inl (DHCP_PacketException ''Invalid dhcp magic cookie'')
   else case (if 240 \<le> length buffer then scan_options (n - 240) 32 (drop 240 buffer) else None) of
     None \<Rightarrow> parse_request buffer n = Inl MemFault
   | Some opts \<Rightarrow> \<exists>pkt. parse_request buffer n = Inr pkt \<and> canonical pkt
       \<and> header_bytes pkt = take 240 buffer \<and> pkt_options pkt = option_slots opts"
proof (cases "\<not> missing_cookie buffer n \<and> 240 \<le> length buffer")
  case True
  then obtain q where "header_bytes q = take 240 buffer"
    and run: "parse_request buffer n = (case scan_options (n - 240) 32 (drop 240 buffer) of
        None \<Rightarrow> Inl MemFault | Some opts \<Rightarrow> Inr (q\<lparr>pkt_options := option_slots opts\<rparr>))"
    using parse_request_scan by blast
  with True show ?thesis
    using parse_request_canonical(1) [of buffer n] by (auto simp: header_bytes_options split: option.splits)
qed (auto simp: parse_request_bad parse_request_short)

text \<open>A packet with 32 or more options makes the reader write outside the packet object:
  the loop stops with \<open>option_idx\<close> 32 and the end mark goes to \<open>_options[32]\<close>.\<close>

theorem packet_read_32_options_faults:
  assumes "wf_header q" and "list_all item_ok items" and "length (item_options items) = MAX_DHCP_OPTIONS"
    and "int (240 + length (encode_items items)) \<le> n"
  shows "parse_request (header_bytes q @ encode_items items @ rest) n = Inl MemFault"
  using assms by (rule parse_request_too_many)

theorem packet_read_32_options_faults_witness:
  "parse_request (header_bytes DHCP_Packet_new @ encode_items (replicate 32 (Opt 12 [])) @ [DHO_END]) 305
   = Inl MemFault"
proof (rule packet_read_32_options_faults)
  show "list_all item_ok (replicate 32 (Opt 12 []))" by (simp add: list_all_iff)
  show "length (item_options (replicate 32 (Opt 12 []))) = 32"
    "int (240 + length (encode_items (replicate 32 (Opt 12 [])))) \<le> 305"
    by (simp_all add: numeral_eq_Suc)
qed simp

end
