(* ===== verification/Radius.thy ===== *)
theory Radius
  imports RadiusConstants Md5 DhcpWire
begin

text \<open>
  \<open>src/src/radius/radius_packet.h\<close>, \<open>radius_packet.cxx\<close> and \<open>radius_net.cxx\<close>: RADIUS attributes
  and packets, reading, writing, and the accounting message. A C string argument is a HOL string
  without terminator. Sending is a parameter in the sense that datagrams are recorded in order;
  opening the socket may fail. The verbosity of the logger only adds dumps.
\<close>

section \<open>Packets\<close>

record RADIUS_Attribute =
  attr_type :: u8
  attr_length :: u8
  attr_value :: "bytes option"

record RADIUS_Packet =
  rad_code :: u8
  rad_ident :: u8
  rad_length :: u16
  rad_auth :: bytes
  rad_attributes :: "RADIUS_Attribute list"

abbreviation MAX_RADIUS_ATTRIBUTES :: nat where "MAX_RADIUS_ATTRIBUTES \<equiv> 64"

definition null_attr :: RADIUS_Attribute where
  "null_attr = \<lparr>attr_type = 0, attr_length = 0, attr_value = None\<rparr>"

definition int_attr :: "u8 \<Rightarrow> u32 \<Rightarrow> RADIUS_Attribute" where
  "int_attr type value = \<lparr>attr_type = type, attr_length = 4, attr_value = Some (le_bytes 4 value)\<rparr>"

text \<open>The length given as \<open>size_t\<close> is cut to eight bits; the value keeps all its bytes.\<close>

definition str_attr :: "u8 \<Rightarrow> bytes \<Rightarrow> RADIUS_Attribute" where
  "str_attr type value = \<lparr>attr_type = type, attr_length = of_nat (length value), attr_value = Some value\<rparr>"

definition RADIUS_Packet_new :: RADIUS_Packet where
  "RADIUS_Packet_new = \<lparr>rad_code = 0, rad_ident = 0, rad_length = 0, rad_auth = replicate 16 0,
     rad_attributes = replicate MAX_RADIUS_ATTRIBUTES null_attr\<rparr>"

definition put_attrs :: "RADIUS_Attribute list \<Rightarrow> RADIUS_Attribute list \<Rightarrow> RADIUS_Attribute list" where
  "put_attrs attrs slots = attrs @ drop (length attrs) slots"

definition create_acct_request :: "int \<Rightarrow> string \<Rightarrow> string \<Rightarrow> RADIUS_Packet" where
  "create_acct_request status_type auth_info ipaddr =
     RADIUS_Packet_new\<lparr>rad_code := RAD_ACCT_REQUEST, rad_ident := 0x4F, rad_length := 20,
       rad_attributes := put_attrs
         [int_attr RAD_ATTR_ACCT_STATUS_TYPE (htonl (of_int status_type)),
          str_attr RAD_ATTR_ACCT_SESSION_ID (bytes_of_string auth_info),
          str_attr RAD_ATTR_CALLED_STATION_ID (bytes_of_string ''dhcpd'' @ [0]),
          str_attr RAD_ATTR_CALLING_STATION_ID (bytes_of_string ipaddr),
          int_attr RAD_ATTR_NAS_IP_ADDRESS 0] (rad_attributes RADIUS_Packet_new)\<rparr>"

definition create_acct_response :: "RADIUS_Packet \<Rightarrow> RADIUS_Packet" where
  "create_acct_response request =
     RADIUS_Packet_new\<lparr>rad_code := RAD_ACCT_RESPONSE, rad_ident := rad_ident request, rad_length := 20,
       rad_auth := rad_auth request\<rparr>"

text \<open>\<open>attr\<close>: the first attribute of a type; the end is the first of type zero.\<close>

fun find_attr :: "RADIUS_Attribute list \<Rightarrow> u8 \<Rightarrow> RADIUS_Attribute option res" where
  "find_attr [] t = Inl MemFault"
| "find_attr (a # as) t =
     (if attr_type a = 0 then Inr None else if attr_type a = t then Inr (Some a) else find_attr as t)"

section \<open>Authenticators\<close>

text \<open>The digest over header, 16 bytes of authenticator, attributes and shared secret. The last
  argument of \<open>md5_append\<close> is an \<open>int\<close> and negative for a length below 20.\<close>

definition rad_digest :: "bytes \<Rightarrow> bytes \<Rightarrow> bytes \<Rightarrow> int \<Rightarrow> string \<Rightarrow> bytes res" where
  "rad_digest garbage buffer auth attrs_len auth_salt =
     bindR (md5_append (md5_init garbage) buffer 4) (\<lambda>st.
     bindR (md5_append st auth 16) (\<lambda>st.
     bindR (md5_append st (drop 20 buffer) attrs_len) (\<lambda>st.
     bindR (md5_append st (bytes_of_string auth_salt) (int (length auth_salt))) (\<lambda>st.
     bindR (md5_finish st) (\<lambda>(_, digest). Inr digest)))))"

section \<open>Reading\<close>

function rad_attr_loop :: "bytes \<Rightarrow> nat \<Rightarrow> nat \<Rightarrow> nat \<Rightarrow> RADIUS_Attribute list \<Rightarrow> RADIUS_Attribute list res" where
  "rad_attr_loop buffer len attribute_idx attribute_offset attrs =
     (if attribute_offset \<ge> len then Inr attrs
      else if attribute_idx = MAX_RADIUS_ATTRIBUTES then Inr attrs
      else bindR (read_at buffer attribute_offset) (\<lambda>t.
        if t = 0 then Inr attrs
        else
          bindR (read_at buffer (attribute_offset + 1)) (\<lambda>l.
          let n = l - 2 in
          bindR (read_range buffer (attribute_offset + 2) (unat n)) (\<lambda>v.
          rad_attr_loop buffer len (attribute_idx + 1) (attribute_offset + unat n + 2)
            (attrs[attribute_idx := \<lparr>attr_type = t, attr_length = n, attr_value = Some (v @ [0])\<rparr>])))))"
  by pat_completeness auto
termination
  by (relation "measure (\<lambda>(_, len, _, off, _). len - off)") auto

declare rad_attr_loop.simps [simp del]

text \<open>A wrong authenticator is only reported to the log; the first component tells whether it
  was.\<close>

definition rad_marshall :: "bytes \<Rightarrow> RADIUS_Packet \<Rightarrow> bytes \<Rightarrow> string \<Rightarrow> (bool \<times> RADIUS_Packet) res" where
  "rad_marshall garbage pkt buffer auth_salt =
     bindR (read_at buffer 0) (\<lambda>v_code.
     bindR (read_at buffer 1) (\<lambda>v_ident.
     bindR (read16 buffer 2) (\<lambda>v_length.
     let len = ntohs v_length in
     bindR (rad_digest garbage buffer (rad_auth pkt) (int (unat len) - 20) auth_salt) (\<lambda>digest.
     bindR (read_range buffer 4 16) (\<lambda>v_auth.
     bindR (rad_attr_loop buffer (unat len) 0 20 (rad_attributes pkt)) (\<lambda>attrs.
     Inr (v_auth \<noteq> digest, \<lparr>rad_code = v_code, rad_ident = v_ident, rad_length = len, rad_auth = v_auth,
            rad_attributes = attrs\<rparr>)))))))"

definition rad_parse_request :: "bytes \<Rightarrow> bytes \<Rightarrow> string \<Rightarrow> (bool \<times> RADIUS_Packet) res" where
  "rad_parse_request garbage buffer auth_salt = rad_marshall garbage RADIUS_Packet_new buffer auth_salt"

section \<open>Writing\<close>

fun rad_write_attrs :: "RADIUS_Attribute list \<Rightarrow> bytes \<Rightarrow> nat \<Rightarrow> u16 \<Rightarrow> (bytes \<times> u16) res" where
  "rad_write_attrs [] buffer attribute_offset packet_len = Inl MemFault"
| "rad_write_attrs (a # as) buffer attribute_offset packet_len =
     (if attr_type a = 0 then Inr (buffer, packet_len)
      else
        bindR (deref (attr_value a)) (\<lambda>value.
        bindR (read_range value 0 (unat (attr_length a))) (\<lambda>v.
        bindR (write_fields buffer
                 [(attribute_offset, [attr_type a]), (attribute_offset + 1, [attr_length a + 2]),
                  (attribute_offset + 2, v)]) (\<lambda>buffer.
        rad_write_attrs as buffer (attribute_offset + unat (attr_length a) + 2)
          (packet_len + of_nat (unat (attr_length a) + 2))))))"

definition rad_unmarshall :: "bytes \<Rightarrow> RADIUS_Packet \<Rightarrow> bytes \<Rightarrow> string \<Rightarrow> (bytes \<times> nat) res" where
  "rad_unmarshall garbage pkt buffer auth_salt =
     bindR (write_range buffer 0 [rad_code pkt]) (\<lambda>buffer.
     bindR (rad_write_attrs (rad_attributes pkt) buffer 20 20) (\<lambda>(buffer, packet_len).
     bindR (write_range buffer 2 (le_bytes 2 (htons packet_len))) (\<lambda>buffer.
     bindR (rad_digest garbage buffer (rad_auth pkt) (int (unat packet_len) - 20) auth_salt) (\<lambda>digest.
     bindR (write_range buffer 4 digest) (\<lambda>buffer.
     Inr (buffer, unat packet_len))))))"

section \<open>Dumps\<close>

definition attr_dump :: "RADIUS_Attribute \<Rightarrow> string res" where
  "attr_dump a =
     bindR (if attr_length a = 0 then Inr []
            else bindR (deref (attr_value a)) (\<lambda>v. read_range v 0 (unat (attr_length a)))) (\<lambda>v.
     let fmt = (if attr_type a = RAD_ATTR_USER_NAME then (\<lambda>b. [char_of_byte b]) else (\<lambda>b. show_hex (unat b) @ '' '')) in
     Inr (''       '' @ rad_attr_name (ucast (attr_type a)) @ ''('' @ show_nat (unat (attr_type a)) @ '',''
          @ show_nat (unat (attr_length a)) @ '') {'' @ concat (map fmt v) @ ''}''))"

fun attrs_dump :: "RADIUS_Attribute list \<Rightarrow> string list res" where
  "attrs_dump [] = Inl MemFault"
| "attrs_dump (a # as) =
     (if attr_type a = 0 then Inr []
      else bindR (attr_dump a) (\<lambda>l. bindR (attrs_dump as) (\<lambda>ls. Inr (l # ls))))"

definition rad_dump :: "RADIUS_Packet \<Rightarrow> string list res" where
  "rad_dump pkt =
     bindR (attrs_dump (rad_attributes pkt)) (\<lambda>ls.
     Inr ([''--------------DUMP RADIUS PACKET-------------'',
           ''code   = '' @ rad_code_name (ucast (rad_code pkt)) @ '' ('' @ show_nat (unat (rad_code pkt)) @ '')'',
           ''ident  = '' @ show_nat (unat (rad_ident pkt)),
           ''length = '' @ show_nat (unat (rad_length pkt)),
           ''auth     {'' @ concat (map (\<lambda>b. show_hex (unat b)) (rad_auth pkt)) @ ''}'',
           ''--------'']
          @ ls @ [''---------------------------------------------'']))"

section \<open>The accounting client\<close>

record 'k RADIUS_Net =
  net_enabled :: bool
  rad_socket :: 'k
  rad_salt :: string
  rad_server :: IPAddress
  rad_port :: int

definition rad_initialize :: "(string + 'k) \<Rightarrow> string \<Rightarrow> int \<Rightarrow> string \<Rightarrow> 'k RADIUS_Net res" where
  "rad_initialize sock p_server_addr p_port p_auth_salt =
     (case sock of
        Inl err \<Rightarrow> Inl (NetException (''Can't open communication socket '' @ err))
      | Inr s \<Rightarrow>
          bindR (IPAddress_s p_server_addr) (\<lambda>a.
          Inr \<lparr>net_enabled = True, rad_socket = s, rad_salt = p_auth_salt, rad_server = a, rad_port = p_port\<rparr>))"

text \<open>The sockets that are closed; the rest of \<open>shutdown\<close> frees memory, and \<open>enabled\<close> stays.\<close>

definition rad_shutdown :: "'k RADIUS_Net \<Rightarrow> 'k list" where
  "rad_shutdown net = [rad_socket net]"

text \<open>The destination is an address in network byte order and a port in network byte order.\<close>

definition rad_send_packet :: "u32 \<Rightarrow> int \<Rightarrow> bytes \<Rightarrow> u32 \<times> u16 \<times> bytes" where
  "rad_send_packet to_addr port buf = (to_addr, htons (of_int port), buf)"

text \<open>\<open>junk\<close> is the content of the local message buffer of 1024 bytes.\<close>

definition send_acct_message ::
    "bytes \<Rightarrow> bytes \<Rightarrow> int \<Rightarrow> 'k RADIUS_Net \<Rightarrow> int \<Rightarrow> string \<Rightarrow> string \<Rightarrow> (u32 \<times> u16 \<times> bytes) res" where
  "send_acct_message garbage junk verbosity net status_type auth_info ipaddr =
     (let request = create_acct_request status_type auth_info ipaddr in
      bindR (if verbosity > 4 then rad_dump request else Inr []) (\<lambda>_.
      bindR (rad_unmarshall garbage request junk (rad_salt net)) (\<lambda>(message_buf, message_length).
      Inr (rad_send_packet (ip_u_addr (rad_server net)) (rad_port net) (take message_length message_buf)))))"

end
