(* ===== verification/IpAllocatorSql.thy ===== *)
theory IpAllocatorSql
  imports IpAllocator
begin

text \<open>
  \<open>src/src/alloc/ipallocator_sql.h\<close> and \<open>ipallocator_sql.cxx\<close>: the allocator over an SQLite
  database.

  SQLite itself is a parameter: the record \<open>sqlite_api\<close> has one function per call the source
  makes, over an arbitrary type of databases and of statements. \<open>sqlite3_finalize\<close> has no
  effect on either. What the allocator relies on is the locale \<open>lease_engine\<close>: preparing and
  binding build up a statement, and a step of one of the queries of this file does on the
  lease table what its SQL text says, or fails without changing it.
\<close>

section \<open>The interface of SQLite\<close>

record ('d, 'st) sqlite_api =
  sq_open :: "(string \<rightharpoonup> 'd) \<Rightarrow> string \<Rightarrow> nat \<Rightarrow> int \<times> 'd"
  sq_exec :: "'d \<Rightarrow> string \<Rightarrow> int \<times> 'd"
  sq_prepare :: "'d \<Rightarrow> string \<Rightarrow> int \<times> 'st"
  sq_reset :: "'st \<Rightarrow> 'st"
  sq_bind_text :: "'st \<Rightarrow> nat \<Rightarrow> string \<Rightarrow> int \<times> 'st"
  sq_bind_int :: "'st \<Rightarrow> nat \<Rightarrow> u32 \<Rightarrow> int \<times> 'st"
  sq_step :: "'d \<Rightarrow> 'st \<Rightarrow> int \<times> 'st \<times> 'd"
  sq_column_text :: "'st \<Rightarrow> nat \<Rightarrow> string option"
  sq_column_count :: "'st \<Rightarrow> int"
  sq_changes :: "'d \<Rightarrow> int"
  sq_errcode :: "'d \<Rightarrow> int"
  sq_errmsg :: "'d \<Rightarrow> string"

abbreviation SQLITE_OK :: int where "SQLITE_OK \<equiv> 0"
abbreviation SQLITE_CONSTRAINT :: int where "SQLITE_CONSTRAINT \<equiv> 19"
abbreviation SQLITE_ROW :: int where "SQLITE_ROW \<equiv> 100"
abbreviation SQLITE_DONE :: int where "SQLITE_DONE \<equiv> 101"
abbreviation SQLITE_OPEN_READONLY :: nat where "SQLITE_OPEN_READONLY \<equiv> 1"
abbreviation SQLITE_OPEN_READWRITE :: nat where "SQLITE_OPEN_READWRITE \<equiv> 2"
abbreviation SQLITE_OPEN_CREATE :: nat where "SQLITE_OPEN_CREATE \<equiv> 4"

text \<open>Calls on a statement: each either continues or raises with the text of the source.\<close>

definition prepare_v2 :: "('d, 'st) sqlite_api \<Rightarrow> 'd \<Rightarrow> string \<Rightarrow> ('s, 'st) proc" where
  "prepare_v2 api db query =
     (let (rc, st) = sq_prepare api db query in
      if rc \<noteq> SQLITE_OK
      then throwP (IPAllocatorException (''Can't compile a query {'' @ query @ ''} - '' @ sq_errmsg api db))
      else retP st)"

definition bind_text :: "('d, 'st) sqlite_api \<Rightarrow> 'd \<Rightarrow> 'st \<Rightarrow> nat \<Rightarrow> string \<Rightarrow> string \<Rightarrow> ('s, 'st) proc" where
  "bind_text api db st pos what v =
     (let (rc, st') = sq_bind_text api st pos v in
      if rc \<noteq> SQLITE_OK
      then throwP (IPAllocatorException (''Can't bind '' @ what @ v @ '' - '' @ sq_errmsg api db))
      else retP st')"

definition bind_int :: "('d, 'st) sqlite_api \<Rightarrow> 'd \<Rightarrow> 'st \<Rightarrow> nat \<Rightarrow> string \<Rightarrow> u32 \<Rightarrow> ('s, 'st) proc" where
  "bind_int api db st pos what v =
     (let (rc, st') = sq_bind_int api st pos v in
      if rc \<noteq> SQLITE_OK
      then throwP (IPAllocatorException (''Can't bind '' @ what @ show_int (sint v) @ '' - '' @ sq_errmsg api db))
      else retP st')"

text \<open>A step on the lease database.\<close>

definition step_leases :: "('d, 'st) sqlite_api \<Rightarrow> 'st \<Rightarrow> ('d alloc_state, int \<times> 'st) proc" where
  "step_leases api st = (\<lambda>s.
     let (rc, st', db') = sq_step api (leases_db s) st in (Inr (rc, st'), s\<lparr>leases_db := db'\<rparr>))"

definition step_static :: "('d, 'st) sqlite_api \<Rightarrow> 'd \<Rightarrow> 'st \<Rightarrow> ('d alloc_state, int \<times> 'st) proc" where
  "step_static api db st = (\<lambda>s.
     let (rc, st', db') = sq_step api db st in (Inr (rc, st'), s\<lparr>static_db := Some db'\<rparr>))"

section \<open>Queries\<close>

definition query_leased :: string where
  "query_leased = ''select ip from dhcp_leases where mac = ? and auth_info <> 'excluded' limit 1''"

definition query_new :: string where
  "query_new = ''select ip from dhcp_leases where expire < ? and auth_info <> 'excluded' order by expire limit 1''"

definition query_update :: string where
  "query_update = ''update dhcp_leases set mac = ?, ts = ?, expire = ? where ip = ?''"

definition query_update_auth :: string where
  "query_update_auth = ''update dhcp_leases set mac = ?, ts = ?, expire = ?, auth_info = ? where ip = ?''"

definition query_create :: string where
  "query_create = ''insert into dhcp_leases (mac, ip, ts, expire, auth_info) values (?, ?, ?, ?, ?)''"

section \<open>Operations\<close>

definition sql_get_static_ip ::
    "alloc_env \<Rightarrow> ('d, 'st) sqlite_api \<Rightarrow> MACAddress \<Rightarrow> ('d alloc_state, (IPAddress \<times> int) option) proc" where
  "sql_get_static_ip env api mac =
     bindP (base_get_static_ip env mac) (\<lambda>from_rc.
     if from_rc \<noteq> None then retP from_rc
     else
       bindP (getP static_db) (\<lambda>db_opt.
       case db_opt of
         None \<Rightarrow> retP None
       | Some db \<Rightarrow>
           bindP (getP static_get_query) (\<lambda>q_opt.
           bindP (liftP (deref q_opt)) (\<lambda>query.
           bindP (prepare_v2 api db query) (\<lambda>st.
           bindP (bind_text api db st 1 ''mac parameter '' (mac_s_addr mac)) (\<lambda>st.
           bindP (step_static api db st) (\<lambda>(rc, st).
           bindP (if rc = SQLITE_ROW then
                    bindP (liftP (deref (sq_column_text api st 0))) (\<lambda>text.
                    bindP (liftP (IPAddress_s text)) (\<lambda>ip.
                    bindP (liftP (deref (sq_column_text api st 1))) (\<lambda>str_access.
                    retP (Some (ip, if str_access \<noteq> [] \<and> (hd str_access = CHR ''Y'' \<or> hd str_access = CHR ''y'')
                                    then 1 else 0)))))
                  else retP None) (\<lambda>found.
           bindP (getP static_db) (\<lambda>db_opt.
           bindP (if rc \<noteq> SQLITE_DONE
                  then bindP (step_static api (the db_opt) st) (\<lambda>_. retP ()) else retP ()) (\<lambda>_.
           retP found))))))))))"

definition sql_get_leased_ip ::
    "('d, 'st) sqlite_api \<Rightarrow> MACAddress \<Rightarrow> ('d alloc_state, IPAddress option) proc" where
  "sql_get_leased_ip api mac =
     bindP (getP leases_db) (\<lambda>db.
     bindP (prepare_v2 api db query_leased) (\<lambda>st.
     bindP (bind_text api db st 1 ''mac parameter '' (mac_s_addr mac)) (\<lambda>st.
     bindP (step_leases api st) (\<lambda>(rc, st).
     if rc = SQLITE_ROW then
       bindP (liftP (deref (sq_column_text api st 0))) (\<lambda>text.
       bindP (liftP (IPAddress_s text)) (\<lambda>ip. retP (Some ip)))
     else retP None))))"

definition sql_get_new_ip ::
    "alloc_env \<Rightarrow> ('d, 'st) sqlite_api \<Rightarrow> MACAddress \<Rightarrow> ('d alloc_state, IPAddress option) proc" where
  "sql_get_new_ip env api mac =
     bindP (get_clock env) (\<lambda>now_ts.
     bindP (getP leases_db) (\<lambda>db.
     bindP (prepare_v2 api db query_new) (\<lambda>st.
     bindP (bind_int api db st 1 ''ts parameter '' now_ts) (\<lambda>st.
     bindP (step_leases api st) (\<lambda>(rc, st).
     if rc = SQLITE_ROW then
       bindP (liftP (deref (sq_column_text api st 0))) (\<lambda>text.
       bindP (liftP (IPAddress_s text)) (\<lambda>ip. retP (Some ip)))
     else retP None)))))"

text \<open>\<open>int expire = now_ts + lease_time\<close> adds as \<open>uint32_t\<close> and is read as a signed value.\<close>

definition lease_end :: "alloc_env \<Rightarrow> u32 \<Rightarrow> u32 res" where
  "lease_end env now_ts =
     bindR (deref (globalnet (env_subnets env))) (\<lambda>global.
     bindR (read_init (lease_time global)) (\<lambda>lt. Inr (now_ts + lt)))"

definition do_update_lease ::
    "alloc_env \<Rightarrow> ('d, 'st) sqlite_api \<Rightarrow> MACAddress \<Rightarrow> IPAddress \<Rightarrow> string option \<Rightarrow> ('d alloc_state, int) proc" where
  "do_update_lease env api mac ip auth_info =
     bindP (get_clock env) (\<lambda>now_ts.
     bindP (liftP (lease_end env now_ts)) (\<lambda>expire.
     bindP (getP leases_db) (\<lambda>db.
     bindP (prepare_v2 api db (if auth_info = None then query_update else query_update_auth)) (\<lambda>st.
     bindP (bind_text api db st 1 ''mac parameter at 1 '' (mac_s_addr mac)) (\<lambda>st.
     bindP (bind_int api db st 2 ''ts parameter at 2 '' now_ts) (\<lambda>st.
     bindP (bind_int api db st 3 ''expire parameter 3 '' expire) (\<lambda>st.
     bindP (case auth_info of
              Some a \<Rightarrow> bind_text api db st 4 ''auth_info parameter 4 '' a
            | None \<Rightarrow> retP st) (\<lambda>st.
     bindP (let position = (if auth_info = None then 4 else 5) in
            bind_text api db st position (''ip parameter at '' @ show_nat position @ '' '') (ip_s_addr ip)) (\<lambda>st.
     bindP (step_leases api st) (\<lambda>(rc, st).
     bindP (getP leases_db) (\<lambda>db.
     if rc \<noteq> SQLITE_DONE
     then throwP (IPAllocatorException (''Can't update lease for '' @ ip_s_addr ip @ '' - '' @ sq_errmsg api db))
     else retP (sq_changes api db))))))))))))"

definition do_create_lease ::
    "alloc_env \<Rightarrow> ('d, 'st) sqlite_api \<Rightarrow> MACAddress \<Rightarrow> IPAddress \<Rightarrow> string option \<Rightarrow> ('d alloc_state, int) proc" where
  "do_create_lease env api mac ip auth_info =
     bindP (get_clock env) (\<lambda>now_ts.
     bindP (liftP (lease_end env now_ts)) (\<lambda>expire.
     case auth_info of
       None \<Rightarrow> throwP (LogException ''Guarantee failed'')
     | Some a \<Rightarrow>
       bindP (getP leases_db) (\<lambda>db.
       bindP (prepare_v2 api db query_create) (\<lambda>st.
       bindP (bind_text api db st 1 ''mac parameter at 1 '' (mac_s_addr mac)) (\<lambda>st.
       bindP (bind_text api db st 2 ''ip parameter at 2 '' (ip_s_addr ip)) (\<lambda>st.
       bindP (bind_int api db st 3 ''ts parameter at 3 '' now_ts) (\<lambda>st.
       bindP (bind_int api db st 4 ''expire parameter 4 '' expire) (\<lambda>st.
       bindP (bind_text api db st 5 ''auth_info parameter 5 '' a) (\<lambda>st.
       bindP (step_leases api st) (\<lambda>(rc, st).
       bindP (getP leases_db) (\<lambda>db.
       if rc \<noteq> SQLITE_DONE
       then throwP (IPAllocatorException (''Can't update lease for '' @ ip_s_addr ip @ '' - '' @ sq_errmsg api db))
       else retP (sq_changes api db))))))))))))"

text \<open>A lease that is not updated, or not created, is only reported to the log.\<close>

definition sql_record_lease ::
    "alloc_env \<Rightarrow> ('d, 'st) sqlite_api \<Rightarrow> MACAddress \<Rightarrow> IPAddress \<Rightarrow> string option \<Rightarrow> ('d alloc_state, unit) proc" where
  "sql_record_lease env api mac ip auth_info =
     bindP (do_update_lease env api mac ip auth_info) (\<lambda>_. retP ())"

definition sql_record_static_lease ::
    "alloc_env \<Rightarrow> ('d, 'st) sqlite_api \<Rightarrow> MACAddress \<Rightarrow> IPAddress \<Rightarrow> string option \<Rightarrow> ('d alloc_state, unit) proc" where
  "sql_record_static_lease env api mac ip auth_info =
     bindP (do_update_lease env api mac ip auth_info) (\<lambda>n.
     if n \<noteq> 1 then bindP (do_create_lease env api mac ip auth_info) (\<lambda>_. retP ()) else retP ())"

definition sql_vtable :: "alloc_env \<Rightarrow> ('d, 'st) sqlite_api \<Rightarrow> 'd alloc_vtable" where
  "sql_vtable env api =
     \<lparr>vt_get_static_ip = sql_get_static_ip env api, vt_get_leased_ip = sql_get_leased_ip api,
      vt_get_new_ip = sql_get_new_ip env api, vt_record_lease = sql_record_lease env api,
      vt_record_static_lease = sql_record_static_lease env api\<rparr>"

section \<open>What the allocator relies on\<close>

datatype sqlval = Text string | Numb u32

definition free_row :: "lease \<Rightarrow> bool" where
  "free_row r \<longleftrightarrow> lease_auth r \<noteq> ''excluded''"

locale lease_engine =
  fixes api :: "('d, 'st) sqlite_api"
    and rows :: "'d \<Rightarrow> lease set"
    and query :: "'st \<Rightarrow> string"
    and args :: "'st \<Rightarrow> (nat \<rightharpoonup> sqlval)"
  assumes prepare_law: "sq_prepare api d q = (SQLITE_OK, st) \<Longrightarrow> query st = q \<and> args st = Map.empty"
    and bind_text_law: "sq_bind_text api st n v = (SQLITE_OK, st') \<Longrightarrow>
        query st' = query st \<and> args st' = (args st)(n \<mapsto> Text v)"
    and bind_int_law: "sq_bind_int api st n x = (SQLITE_OK, st') \<Longrightarrow>
        query st' = query st \<and> args st' = (args st)(n \<mapsto> Numb x)"
    and leased_law: "query st = query_leased \<Longrightarrow> args st = [1 \<mapsto> Text m] \<Longrightarrow>
        sq_step api d st = (rc, st', d') \<Longrightarrow> rows d' = rows d
        \<and> (rc = SQLITE_ROW \<longrightarrow> (\<exists>r \<in> rows d. lease_mac r = m \<and> free_row r \<and> sq_column_text api st' 0 = Some (lease_ip r)))
        \<and> (rc = SQLITE_DONE \<longrightarrow> (\<forall>r \<in> rows d. lease_mac r = m \<longrightarrow> \<not> free_row r))"
    and new_law: "query st = query_new \<Longrightarrow> args st = [1 \<mapsto> Numb now] \<Longrightarrow>
        sq_step api d st = (rc, st', d') \<Longrightarrow> rows d' = rows d
        \<and> (rc = SQLITE_ROW \<longrightarrow> (\<exists>r \<in> rows d. lease_expire r < sint now \<and> free_row r
             \<and> (\<forall>r' \<in> rows d. free_row r' \<longrightarrow> lease_expire r \<le> lease_expire r')
             \<and> sq_column_text api st' 0 = Some (lease_ip r)))
        \<and> (rc = SQLITE_DONE \<longrightarrow> (\<forall>r \<in> rows d. lease_expire r < sint now \<longrightarrow> \<not> free_row r))"
    and update_law: "query st = query_update \<Longrightarrow>
        args st = [1 \<mapsto> Text m, 2 \<mapsto> Numb now, 3 \<mapsto> Numb ex, 4 \<mapsto> Text i] \<Longrightarrow>
        sq_step api d st = (rc, st', d') \<Longrightarrow>
        (if rc = SQLITE_DONE
         then rows d' = renew m i now ex None (rows d) \<and> sq_changes api d' = int (card {r \<in> rows d. lease_ip r = i})
         else rows d' = rows d)"
    and update_auth_law: "query st = query_update_auth \<Longrightarrow>
        args st = [1 \<mapsto> Text m, 2 \<mapsto> Numb now, 3 \<mapsto> Numb ex, 4 \<mapsto> Text a, 5 \<mapsto> Text i] \<Longrightarrow>
        sq_step api d st = (rc, st', d') \<Longrightarrow>
        (if rc = SQLITE_DONE
         then rows d' = renew m i now ex (Some a) (rows d) \<and> sq_changes api d' = int (card {r \<in> rows d. lease_ip r = i})
         else rows d' = rows d)"
    and create_law: "query st = query_create \<Longrightarrow>
        args st = [1 \<mapsto> Text m, 2 \<mapsto> Text i, 3 \<mapsto> Numb now, 4 \<mapsto> Numb ex, 5 \<mapsto> Text a] \<Longrightarrow>
        sq_step api d st = (rc, st', d') \<Longrightarrow>
        (if rc = SQLITE_DONE
         then i \<notin> lease_ip ` rows d \<and> rows d' = insert \<lparr>lease_mac = m, lease_ip = i, lease_ts = sint now,
                lease_expire = sint ex, lease_auth = a\<rparr> (rows d) \<and> sq_changes api d' = 1
         else rows d' = rows d)"

lemma wp_get_clock [wp_intros]:
  "Q (env_clock env (clock_calls s)) (s\<lparr>clock_calls := Suc (clock_calls s)\<rparr>) \<Longrightarrow> wp (get_clock env) E Q s"
  by (simp add: wp_def get_clock_def)

lemma wp_step_leases:
  "(\<And>rc st' d'. sq_step api (leases_db s) st = (rc, st', d') \<Longrightarrow> Q (rc, st') (s\<lparr>leases_db := d'\<rparr>)) \<Longrightarrow>
     wp (step_leases api st) E Q s"
  by (auto simp: wp_def step_leases_def split: prod.splits)

lemma wp_step_static [wp_intros]:
  "(\<And>rc st' d'. Q (rc, st') (s\<lparr>static_db := Some d'\<rparr>)) \<Longrightarrow> wp (step_static api db st) E Q s"
  by (auto simp: wp_def step_static_def split: prod.splits)

lemma base_get_static_ip_frame: "base_get_static_ip env mac s = (x, s') \<Longrightarrow> s' = s"
  unfolding base_get_static_ip_def Let_def by (auto elim!: bindP_elim split: option.splits)

lemma wp_base_get_static_ip [wp_intros]:
  "(\<And>e. E e s) \<Longrightarrow> (\<And>r. Q r s) \<Longrightarrow> wp (base_get_static_ip env mac) E Q s"
  unfolding base_get_static_ip_def Let_def by (intro wp_intros) auto

context lease_engine
begin

lemma wp_prepare_v2 [wp_intros]:
  "(\<And>e. E e s) \<Longrightarrow> (\<And>st. query st = q \<Longrightarrow> args st = Map.empty \<Longrightarrow> Q st s) \<Longrightarrow> wp (prepare_v2 api d q) E Q s"
  using prepare_law by (auto simp: wp_def prepare_v2_def throwP_def retP_def split: prod.splits)

lemma wp_bind_text [wp_intros]:
  "(\<And>e. E e s) \<Longrightarrow> (\<And>st'. query st' = query st \<Longrightarrow> args st' = (args st)(n \<mapsto> Text v) \<Longrightarrow> Q st' s) \<Longrightarrow>
     wp (bind_text api d st n w v) E Q s"
  using bind_text_law by (auto simp: wp_def bind_text_def throwP_def retP_def split: prod.splits)

lemma wp_bind_int [wp_intros]:
  "(\<And>e. E e s) \<Longrightarrow> (\<And>st'. query st' = query st \<Longrightarrow> args st' = (args st)(n \<mapsto> Numb x) \<Longrightarrow> Q st' s) \<Longrightarrow>
     wp (bind_int api d st n w x) E Q s"
  using bind_int_law by (auto simp: wp_def bind_int_def throwP_def retP_def split: prod.splits)

lemma wp_sql_get_static_ip:
  "wp (sql_get_static_ip env api mac)
     (\<lambda>e s'. leases_db s' = leases_db s \<and> clock_calls s' = clock_calls s)
     (\<lambda>y s'. leases_db s' = leases_db s \<and> clock_calls s' = clock_calls s) s"
  unfolding sql_get_static_ip_def by (intro wp_intros) auto

lemma wp_step_leased:
  assumes "query st = query_leased" and "args st = [1 \<mapsto> Text m]"
    and "\<And>rc st' d'. rows d' = rows (leases_db s) \<Longrightarrow>
      (rc = SQLITE_ROW \<Longrightarrow> \<exists>r \<in> rows (leases_db s). lease_mac r = m \<and> free_row r \<and> sq_column_text api st' 0 = Some (lease_ip r)) \<Longrightarrow>
      (rc = SQLITE_DONE \<Longrightarrow> \<forall>r \<in> rows (leases_db s). lease_mac r = m \<longrightarrow> \<not> free_row r) \<Longrightarrow>
      Q (rc, st') (s\<lparr>leases_db := d'\<rparr>)"
  shows "wp (step_leases api st) E Q s"
proof (rule wp_step_leases)
  fix rc st' d' assume "sq_step api (leases_db s) st = (rc, st', d')"
  from leased_law [OF assms(1,2) this] show "Q (rc, st') (s\<lparr>leases_db := d'\<rparr>)"
    by (intro assms(3)) simp_all
qed

lemma wp_step_new:
  assumes "query st = query_new" and "args st = [1 \<mapsto> Numb now]"
    and "\<And>rc st' d'. rows d' = rows (leases_db s) \<Longrightarrow>
      (rc = SQLITE_ROW \<Longrightarrow> \<exists>r \<in> rows (leases_db s). lease_expire r < sint now \<and> free_row r
         \<and> (\<forall>r' \<in> rows (leases_db s). free_row r' \<longrightarrow> lease_expire r \<le> lease_expire r')
         \<and> sq_column_text api st' 0 = Some (lease_ip r)) \<Longrightarrow>
      (rc = SQLITE_DONE \<Longrightarrow> \<forall>r \<in> rows (leases_db s). lease_expire r < sint now \<longrightarrow> \<not> free_row r) \<Longrightarrow>
      Q (rc, st') (s\<lparr>leases_db := d'\<rparr>)"
  shows "wp (step_leases api st) E Q s"
proof (rule wp_step_leases)
  fix rc st' d' assume "sq_step api (leases_db s) st = (rc, st', d')"
  from new_law [OF assms(1,2) this] show "Q (rc, st') (s\<lparr>leases_db := d'\<rparr>)"
    by (intro assms(3)) simp_all
qed

lemma wp_step_update:
  assumes "auth = None \<Longrightarrow> query st = query_update \<and>
      args st = [1 \<mapsto> Text m, 2 \<mapsto> Numb now, 3 \<mapsto> Numb ex, 4 \<mapsto> Text i]"
    and "\<And>a. auth = Some a \<Longrightarrow> query st = query_update_auth \<and>
      args st = [1 \<mapsto> Text m, 2 \<mapsto> Numb now, 3 \<mapsto> Numb ex, 4 \<mapsto> Text a, 5 \<mapsto> Text i]"
    and "\<And>rc st' d'.
      (rc = SQLITE_DONE \<Longrightarrow> rows d' = renew m i now ex auth (rows (leases_db s))
          \<and> sq_changes api d' = int (card {r \<in> rows (leases_db s). lease_ip r = i})) \<Longrightarrow>
      (rc \<noteq> SQLITE_DONE \<Longrightarrow> rows d' = rows (leases_db s)) \<Longrightarrow>
      Q (rc, st') (s\<lparr>leases_db := d'\<rparr>)"
  shows "wp (step_leases api st) E Q s"
proof (rule wp_step_leases)
  fix rc st' d' assume step: "sq_step api (leases_db s) st = (rc, st', d')"
  show "Q (rc, st') (s\<lparr>leases_db := d'\<rparr>)"
  proof (cases auth)
    case None
    then show ?thesis using assms(1,3) update_law [OF _ _ step] by auto
  next
    case (Some a)
    then show ?thesis using assms(2,3) update_auth_law [OF _ _ step] by auto
  qed
qed

lemma wp_step_create:
  assumes "query st = query_create" and "args st = [1 \<mapsto> Text m, 2 \<mapsto> Text i, 3 \<mapsto> Numb now, 4 \<mapsto> Numb ex, 5 \<mapsto> Text a]"
    and "\<And>rc st' d'.
      (rc = SQLITE_DONE \<Longrightarrow> i \<notin> lease_ip ` rows (leases_db s) \<and> sq_changes api d' = 1
          \<and> rows d' = insert \<lparr>lease_mac = m, lease_ip = i, lease_ts = sint now, lease_expire = sint ex, lease_auth = a\<rparr>
               (rows (leases_db s))) \<Longrightarrow>
      (rc \<noteq> SQLITE_DONE \<Longrightarrow> rows d' = rows (leases_db s)) \<Longrightarrow>
      Q (rc, st') (s\<lparr>leases_db := d'\<rparr>)"
  shows "wp (step_leases api st) E Q s"
proof (rule wp_step_leases)
  fix rc st' d' assume "sq_step api (leases_db s) st = (rc, st', d')"
  from create_law [OF assms(1,2) this] show "Q (rc, st') (s\<lparr>leases_db := d'\<rparr>)"
    by (intro assms(3)) simp_all
qed

lemma wp_sql_get_leased_ip:
  "wp (sql_get_leased_ip api mac)
     (\<lambda>e s'. rows (leases_db s') = rows (leases_db s) \<and> clock_calls s' = clock_calls s)
     (\<lambda>y s'. rows (leases_db s') = rows (leases_db s) \<and> clock_calls s' = clock_calls s
        \<and> (\<forall>ip. y = Some ip \<longrightarrow> (\<exists>r \<in> rows (leases_db s). lease_mac r = mac_s_addr mac \<and> free_row r \<and> IPAddress_s (lease_ip r) = Inr ip))) s"
  unfolding sql_get_leased_ip_def by (intro wp_intros wp_step_leased) auto

lemma wp_sql_get_new_ip:
  "wp (sql_get_new_ip env api mac)
     (\<lambda>e s'. rows (leases_db s') = rows (leases_db s) \<and> clock_calls s' = Suc (clock_calls s))
     (\<lambda>y s'. rows (leases_db s') = rows (leases_db s) \<and> clock_calls s' = Suc (clock_calls s)
        \<and> (\<forall>ip. y = Some ip \<longrightarrow> (\<exists>r \<in> rows (leases_db s). free_row r
             \<and> lease_expire r < sint (env_clock env (clock_calls s))
             \<and> (\<forall>r' \<in> rows (leases_db s). free_row r' \<longrightarrow> lease_expire r \<le> lease_expire r')
             \<and> IPAddress_s (lease_ip r) = Inr ip))) s"
  unfolding sql_get_new_ip_def by (intro wp_intros wp_step_new) auto

lemma wp_do_update_lease:
  "wp (do_update_lease env api mac ip auth)
     (\<lambda>e s'. rows (leases_db s') = rows (leases_db s) \<and> clock_calls s' = Suc (clock_calls s))
     (\<lambda>n s'. clock_calls s' = Suc (clock_calls s)
        \<and> n = int (card {r \<in> rows (leases_db s). lease_ip r = ip_s_addr ip})
        \<and> (\<exists>ex. lease_end env (env_clock env (clock_calls s)) = Inr ex
            \<and> rows (leases_db s') = renew (mac_s_addr mac) (ip_s_addr ip) (env_clock env (clock_calls s)) ex auth (rows (leases_db s)))) s"
  unfolding do_update_lease_def Let_def
  by (intro wp_intros wp_step_update [where auth = auth]) auto

lemma wp_do_create_lease:
  "wp (do_create_lease env api mac ip auth)
     (\<lambda>e s'. rows (leases_db s') = rows (leases_db s) \<and> clock_calls s' = Suc (clock_calls s))
     (\<lambda>n s'. clock_calls s' = Suc (clock_calls s) \<and> ip_s_addr ip \<notin> lease_ip ` rows (leases_db s) \<and> n = 1
        \<and> (\<exists>ex a. lease_end env (env_clock env (clock_calls s)) = Inr ex \<and> auth = Some a
             \<and> rows (leases_db s') = insert \<lparr>lease_mac = mac_s_addr mac, lease_ip = ip_s_addr ip,
                 lease_ts = sint (env_clock env (clock_calls s)), lease_expire = sint ex, lease_auth = a\<rparr>
               (rows (leases_db s)))) s"
  unfolding do_create_lease_def
  by (intro wp_intros wp_step_create) auto


lemma wp_sql_record_lease:
  "wp (sql_record_lease env api mac ip auth)
     (\<lambda>e s'. rows (leases_db s') = rows (leases_db s) \<and> clock_calls s' = Suc (clock_calls s))
     (\<lambda>_ s'. clock_calls s' = Suc (clock_calls s)
        \<and> (\<exists>ex. lease_end env (env_clock env (clock_calls s)) = Inr ex
            \<and> rows (leases_db s') = renew (mac_s_addr mac) (ip_s_addr ip) (env_clock env (clock_calls s)) ex auth (rows (leases_db s)))) s"
  unfolding sql_record_lease_def
  by (intro wp_intros wp_conseq [OF wp_do_update_lease]) auto

lemma wp_sql_record_static_lease:
  "wp (sql_record_static_lease env api mac ip auth)
     (\<lambda>e s'. affects_rows rows (ip_s_addr ip) s s')
     (\<lambda>_ s'. affects_rows rows (ip_s_addr ip) s s'
        \<and> (\<exists>r \<in> rows (leases_db s'). lease_ip r = ip_s_addr ip \<and> lease_mac r = mac_s_addr mac)) s"
  (is "wp _ ?E ?Q s")
  unfolding sql_record_static_lease_def
proof (intro wp_bindP wp_conseq [OF wp_do_update_lease] wp_if)
  fix n and t :: "'d alloc_state"
  let ?R = "rows (leases_db s)"
  assume "clock_calls t = Suc (clock_calls s) \<and> n = int (card {r \<in> ?R. lease_ip r = ip_s_addr ip})
        \<and> (\<exists>ex. lease_end env (env_clock env (clock_calls s)) = Inr ex
            \<and> rows (leases_db t) = renew (mac_s_addr mac) (ip_s_addr ip) (env_clock env (clock_calls s)) ex auth ?R)"
  then obtain ex where t: "rows (leases_db t) = renew (mac_s_addr mac) (ip_s_addr ip) (env_clock env (clock_calls s)) ex auth ?R"
    and clk: "clock_calls t = Suc (clock_calls s)" and n: "n = int (card {r \<in> ?R. lease_ip r = ip_s_addr ip})"
    by blast
  have up: "affects_rows rows (ip_s_addr ip) s t" by (simp add: affects_rows_def t clk)
  show "wp (retP ()) ?E ?Q t" if "\<not> n \<noteq> 1"
  proof -
    have "{r \<in> ?R. lease_ip r = ip_s_addr ip} \<noteq> {}"
    proof
      assume "{r \<in> ?R. lease_ip r = ip_s_addr ip} = {}"
      then have "n = 0" unfolding n by (simp only: card.empty of_nat_0)
      with that show False by simp
    qed
    then have "\<exists>r \<in> rows (leases_db t). lease_ip r = ip_s_addr ip \<and> lease_mac r = mac_s_addr mac"
      unfolding t by (auto intro!: bexI [OF _ renew_owner])
    then show ?thesis using up by (intro wp_retP) auto
  qed
  have more: "affects_rows rows (ip_s_addr ip) s u" if "affects_rows rows (ip_s_addr ip) t u" for u
    using up that by (rule affects_rows_trans)
  show "wp (do_create_lease env api mac ip auth) ?E (\<lambda>n. wp (retP ()) ?E ?Q) t"
  proof (intro wp_conseq [OF wp_do_create_lease] wp_retP conjI more)
    fix m and u :: "'d alloc_state"
    assume u: "clock_calls u = Suc (clock_calls t) \<and> ip_s_addr ip \<notin> lease_ip ` rows (leases_db t) \<and> m = 1
        \<and> (\<exists>ex a. lease_end env (env_clock env (clock_calls t)) = Inr ex \<and> auth = Some a
             \<and> rows (leases_db u) = insert \<lparr>lease_mac = mac_s_addr mac, lease_ip = ip_s_addr ip,
                 lease_ts = sint (env_clock env (clock_calls t)), lease_expire = sint ex, lease_auth = a\<rparr>
               (rows (leases_db t)))"
    then show "\<exists>r \<in> rows (leases_db u). lease_ip r = ip_s_addr ip \<and> lease_mac r = mac_s_addr mac" by auto
    show "affects_rows rows (ip_s_addr ip) t u"
      using u by (auto simp: affects_rows_def intro!: keyed_insert touches_only_insert)
  qed (auto simp: affects_rows_def)
qed (auto simp: affects_rows_def)


text \<open>The same facts on runs, for the obligations of the backend contract.\<close>

lemma sql_get_static_ip_reads:
  "sql_get_static_ip env api mac s = (x, s') \<Longrightarrow> rows (leases_db s') = rows (leases_db s) \<and> clock_calls s \<le> clock_calls s'"
  using wp_Inr [OF wp_sql_get_static_ip] wp_Inl [OF wp_sql_get_static_ip] by (cases x) force+

lemma sql_get_leased_ip_reads:
  "sql_get_leased_ip api mac s = (x, s') \<Longrightarrow> rows (leases_db s') = rows (leases_db s) \<and> clock_calls s \<le> clock_calls s'"
  using wp_Inr [OF wp_sql_get_leased_ip] wp_Inl [OF wp_sql_get_leased_ip] by (cases x) force+

lemma sql_get_new_ip_reads:
  "sql_get_new_ip env api mac s = (x, s') \<Longrightarrow> rows (leases_db s') = rows (leases_db s) \<and> clock_calls s \<le> clock_calls s'"
  using wp_Inr [OF wp_sql_get_new_ip] wp_Inl [OF wp_sql_get_new_ip] by (cases x) force+

lemma sql_record_lease_run:
  assumes "sql_record_lease env api mac ip auth s = (z, s')"
  shows "clock_calls s' = Suc (clock_calls s) \<and> (rows (leases_db s') = rows (leases_db s)
      \<or> (\<exists>ex. rows (leases_db s') = renew (mac_s_addr mac) (ip_s_addr ip) (env_clock env (clock_calls s)) ex auth (rows (leases_db s))))"
  using wp_Inr [OF wp_sql_record_lease] wp_Inl [OF wp_sql_record_lease] assms by (cases z) blast+

lemma sql_record_static_lease_run:
  assumes "sql_record_static_lease env api mac ip auth s = (z, s')"
  shows "affects_rows rows (ip_s_addr ip) s s'"
  using wp_Inr [OF wp_sql_record_static_lease] wp_Inl [OF wp_sql_record_static_lease] assms by (cases z) blast+

text \<open>The SQL methods are a recording backend.\<close>

lemma sql_recording_backend: "recording_backend env (sql_vtable env api) rows"
proof
  fix mac ip auth s s' x and y :: "IPAddress option res" and z :: "unit res" and r
  show "rows (leases_db s') = rows (leases_db s) \<and> clock_calls s \<le> clock_calls s'"
    if "vt_get_static_ip (sql_vtable env api) mac s = (x, s')"
    using that sql_get_static_ip_reads by (simp add: sql_vtable_def)
  show "rows (leases_db s') = rows (leases_db s) \<and> clock_calls s \<le> clock_calls s'"
    if "vt_get_leased_ip (sql_vtable env api) mac s = (y, s')"
    using that sql_get_leased_ip_reads by (simp add: sql_vtable_def)
  show "\<exists>r \<in> rows (leases_db s). lease_mac r = mac_s_addr mac \<and> IPAddress_s (lease_ip r) = Inr ip"
    if "vt_get_leased_ip (sql_vtable env api) mac s = (Inr (Some ip), s')"
    using that wp_Inr [OF wp_sql_get_leased_ip] by (fastforce simp: sql_vtable_def)
  show "rows (leases_db s') = rows (leases_db s) \<and> clock_calls s \<le> clock_calls s'"
    if "vt_get_new_ip (sql_vtable env api) mac s = (y, s')"
    using that sql_get_new_ip_reads by (simp add: sql_vtable_def)
  show "\<exists>r \<in> rows (leases_db s). \<exists>n\<ge>clock_calls s. n < clock_calls s'
      \<and> lease_expire r < sint (env_clock env n) \<and> IPAddress_s (lease_ip r) = Inr ip"
    if "vt_get_new_ip (sql_vtable env api) mac s = (Inr (Some ip), s')"
    using that wp_Inr [OF wp_sql_get_new_ip] by (fastforce simp: sql_vtable_def)
  show "touches_only (ip_s_addr ip) (rows (leases_db s)) (rows (leases_db s')) \<and> clock_calls s \<le> clock_calls s'"
    if "vt_record_lease (sql_vtable env api) mac ip auth s = (z, s')"
    using that sql_record_lease_run [of env mac ip auth s z s'] by (auto simp: sql_vtable_def)
  show "keyed (rows (leases_db s'))" if "vt_record_lease (sql_vtable env api) mac ip auth s = (z, s')" "keyed (rows (leases_db s))"
    using that sql_record_lease_run [of env mac ip auth s z s'] by (auto simp: sql_vtable_def)
  show "touches_only (ip_s_addr ip) (rows (leases_db s)) (rows (leases_db s')) \<and> clock_calls s \<le> clock_calls s'"
    if "vt_record_static_lease (sql_vtable env api) mac ip auth s = (z, s')"
    using that sql_record_static_lease_run [of env mac ip auth s z s'] by (simp add: sql_vtable_def affects_rows_def)
  show "keyed (rows (leases_db s'))" if "vt_record_static_lease (sql_vtable env api) mac ip auth s = (z, s')" "keyed (rows (leases_db s))"
    using that sql_record_static_lease_run [of env mac ip auth s z s'] by (simp add: sql_vtable_def affects_rows_def)
  show "lease_ip ` rows (leases_db s') = lease_ip ` rows (leases_db s)"
    if "vt_record_lease (sql_vtable env api) mac ip auth s = (z, s')"
    using that sql_record_lease_run [of env mac ip auth s z s']
    by (simp add: sql_vtable_def) (elim conjE disjE exE, simp_all)
  show "\<exists>r \<in> rows (leases_db s'). lease_ip r = ip_s_addr ip \<and> lease_mac r = mac_s_addr mac"
    if "vt_record_static_lease (sql_vtable env api) mac ip auth s = (Inr (), s')"
    using that wp_Inr [OF wp_sql_record_static_lease] by (fastforce simp: sql_vtable_def)
  show "lease_mac r = mac_s_addr mac
        \<and> (\<exists>lt. Option.bind (globalnet (env_subnets env)) lease_time = Some lt
             \<and> lease_expire r = sint (env_clock env (clock_calls s) + lt))
        \<and> (\<forall>a. auth = Some a \<longrightarrow> lease_auth r = a)"
    if "vt_record_lease (sql_vtable env api) mac ip auth s = (Inr (), s')" "r \<in> rows (leases_db s')"
      "lease_ip r = ip_s_addr ip"
    using that wp_Inr [OF wp_sql_record_lease, of env mac ip auth s "()" s'] by (auto simp: sql_vtable_def renew_same lease_end_def)
qed

sublocale sql: recording_backend env "sql_vtable env api" rows for env
  by (rule sql_recording_backend)

end

text \<open>The base class alone keeps no leases.\<close>

interpretation base: allocator_backend env "base_vtable env" "\<lambda>_. {}" for env
  by unfold_locales
    (auto simp: base_vtable_def base_get_leased_ip_def base_get_new_ip_def base_record_lease_def
      base_record_static_lease_def dest!: base_get_static_ip_frame)

end
