(* ===== verification/IpAllocatorInit.thy ===== *)
theory IpAllocatorInit
  imports IpAllocatorSql
begin

text \<open>
  The constructor of \<open>IPAllocatorSQL\<close> and \<open>prepare_databases\<close> (\<open>ipallocator_sql.cxx\<close>): opening
  the static database, creating the lease database on the first start, filling it with the
  addresses of the configured ranges and announcing the static leases to the packet filter.

  \<open>files\<close> maps paths to the databases on disk; an open handle carries the content it works on.
  The loop over the rows of the last query takes its number of steps as fuel, since nothing in
  the source bounds it; \<open>pf_populate_enough\<close> shows which fuel is enough.
\<close>

section \<open>Definitions\<close>

definition query_schema :: "string list" where
  "query_schema =
     [''CREATE TABLE dhcp_leases (id integer primary key, mac varchar(20), ip varchar(20),                           ts integer, expire integer, auth_info varchar(64));'',
      ''CREATE INDEX dhcp_leases_mac_idx on dhcp_leases(mac,ts);'',
      ''CREATE INDEX dhcp_leases_ts_idx on dhcp_leases(ts);'',
      ''CREATE UNIQUE INDEX dhcp_leases_ip_idx on dhcp_leases(ip);'']"

definition query_populate :: string where
  "query_populate =
     ''insert into dhcp_leases (mac, ip, ts, expire, auth_info) values ('' @ [CHR 0x27, CHR 0x27] @ '', ?, 0, 0, '-')''"

definition query_static :: string where
  "query_static = ''select ip from dhcp_leases where auth_info = 'static'' @ [CHR 0x27]"

definition open_static ::
    "alloc_env \<Rightarrow> ('d, 'st) sqlite_api \<Rightarrow> (string \<rightharpoonup> 'd) \<Rightarrow> ('d option \<times> string option) res" where
  "open_static env api files =
     bindR (env_has_key env ''database-static'') (\<lambda>has_static.
      if has_static then
        bindR (env_require env ''database-static'') (\<lambda>static_database.
        bindR (env_require env ''database-static-query'') (\<lambda>query.
        let (rc, db) = sq_open api files static_database SQLITE_OPEN_READONLY in
        if rc \<noteq> SQLITE_OK
        then Inl (IPAllocatorException (''Can't open database '' @ static_database @ '' - '' @ sq_errmsg api db))
        else
          let (rc, st) = sq_prepare api db query in
          if rc \<noteq> SQLITE_OK
          then Inl (IPAllocatorException (''Can't compile static alloc query {'' @ query @ ''} - '' @ sq_errmsg api db))
          else if sq_column_count api st \<noteq> 2
          then Inl (IPAllocatorException (''Static query {'' @ query @ ''} should return exactly two columns''))
          else Inr (Some db, Some query)))
      else Inr (None, None))"

text \<open>The result of creating the indices is ignored.\<close>

definition create_leases ::
    "('d, 'st) sqlite_api \<Rightarrow> (string \<rightharpoonup> 'd) \<Rightarrow> string \<Rightarrow> (string \<rightharpoonup> 'd) res" where
  "create_leases api files path =
     (let (rc, db) = sq_open api files path (SQLITE_OPEN_READWRITE + SQLITE_OPEN_CREATE) in
      if rc \<noteq> SQLITE_OK
      then Inl (IPAllocatorException (''Can't open database '' @ path @ '' - '' @ sq_errmsg api db))
      else
        let (rc, db) = sq_exec api db (query_schema ! 0) in
        if rc \<noteq> SQLITE_OK
        then Inl (IPAllocatorException (''Can't create database schema '' @ path @ '' - '' @ sq_errmsg api db))
        else
          let (_, db) = sq_exec api db (query_schema ! 1);
              (_, db) = sq_exec api db (query_schema ! 2);
              (_, db) = sq_exec api db (query_schema ! 3)
          in Inr (files(path \<mapsto> db)))"

function populate_range ::
    "('d, 'st) sqlite_api \<Rightarrow> Subnet \<Rightarrow> u32 \<Rightarrow> u32 \<Rightarrow> 'd \<times> 'st \<Rightarrow> ('d \<times> 'st) res" where
  "populate_range api sub end_range new_ip (db, st) =
     (if new_ip < end_range then
        let st = sq_reset api st;
            scip = compose_ip sub new_ip;
            (rc, st) = sq_bind_text api st 1 (ip_s_addr scip)
        in
        if rc \<noteq> SQLITE_OK
        then Inl (IPAllocatorException (''Can't bind ip '' @ ip_s_addr scip @ '' - '' @ sq_errmsg api db))
        else
          let (rc, st, db) = sq_step api db st in
          if rc \<noteq> SQLITE_DONE \<and> sq_errcode api db \<noteq> SQLITE_CONSTRAINT
          then Inl (IPAllocatorException (''Can't populate lease for '' @ ip_s_addr scip @ '' - '' @ sq_errmsg api db))
          else populate_range api sub end_range (new_ip + 1) (db, st)
      else Inr (db, st))"
  by pat_completeness auto
termination
  by (relation "measure (\<lambda>(_, _, end_range, new_ip, _). unat end_range - unat new_ip)")
    (auto simp: unat_Suc_less word_less_nat_alt)

declare populate_range.simps [simp del]

fun populate_subnets ::
    "('d, 'st) sqlite_api \<Rightarrow> Subnet list \<Rightarrow> 'd \<times> 'st \<Rightarrow> ('d \<times> 'st) res" where
  "populate_subnets api [] h = Inr h"
| "populate_subnets api (sub # rest) h =
     (if \<not> has_dynamic_range sub then populate_subnets api rest h
      else
        let start_range = ip_isolate_addr (ip_u_addr (netmask sub)) (ip_u_addr (range_start sub));
            end_range = ip_isolate_addr (ip_u_addr (netmask sub)) (ip_u_addr (range_end sub))
        in bindR (populate_range api sub end_range start_range h) (populate_subnets api rest))"

definition populate_leases :: "alloc_env \<Rightarrow> ('d, 'st) sqlite_api \<Rightarrow> 'd \<Rightarrow> 'd res" where
  "populate_leases env api db =
     (let (rc, st) = sq_prepare api db query_populate in
      if rc \<noteq> SQLITE_OK
      then Inl (IPAllocatorException (''Can't compile a query {'' @ query_populate @ ''} - '' @ sq_errmsg api db))
      else bindR (populate_subnets api (subnets (env_subnets env)) (db, st)) (\<lambda>(db, st). Inr db))"

fun pf_populate ::
    "nat \<Rightarrow> ('d, 'st) sqlite_api \<Rightarrow> 'd \<Rightarrow> 'st \<Rightarrow> alloc_event list \<Rightarrow> ('d \<times> alloc_event list) res" where
  "pf_populate 0 api db st evs = Inl Diverges"
| "pf_populate (Suc fuel) api db st evs =
     (let (rc, st, db) = sq_step api db st in
      if rc = SQLITE_DONE then Inr (db, evs)
      else if rc \<noteq> SQLITE_ROW then Inr (db, evs)
      else
        bindR (deref (sq_column_text api st 0)) (\<lambda>text.
        bindR (IPAddress_s text) (\<lambda>ip.
        pf_populate fuel api db st (evs @ [PF_add (ip_u_addr ip)]))))"

definition populate_pf ::
    "alloc_env \<Rightarrow> nat \<Rightarrow> ('d, 'st) sqlite_api \<Rightarrow> 'd \<Rightarrow> ('d \<times> alloc_event list) res" where
  "populate_pf env fuel api db =
     (if pf_enabled env then
        let (rc, st) = sq_prepare api db query_static in
        if rc \<noteq> SQLITE_OK
        then Inl (IPAllocatorException (''Can't compile a query {'' @ query_static @ ''} - '' @ sq_errmsg api db))
        else pf_populate fuel api db st []
      else Inr (db, []))"

definition prepare_databases ::
    "alloc_env \<Rightarrow> nat \<Rightarrow> ('d, 'st) sqlite_api \<Rightarrow> (string \<rightharpoonup> 'd) \<Rightarrow> 'd alloc_state res" where
  "prepare_databases env fuel api files =
     bindR (open_static env api files) (\<lambda>(v_static_db, v_static_query).
     bindR (env_require env ''database-leases'') (\<lambda>leases_database.
     bindR (if files leases_database = None then create_leases api files leases_database else Inr files) (\<lambda>files.
     let (rc, db) = sq_open api files leases_database SQLITE_OPEN_READWRITE in
     if rc \<noteq> SQLITE_OK
     then Inl (IPAllocatorException (''Can't open database '' @ leases_database @ '' - '' @ sq_errmsg api db))
     else
       bindR (populate_leases env api db) (\<lambda>db.
       bindR (populate_pf env fuel api db) (\<lambda>(db, evs).
       Inr \<lparr>leases_db = db, static_db = v_static_db, static_get_query = v_static_query,
            clock_calls = 0, events = evs\<rparr>)))))"

section \<open>Filling the lease table\<close>

definition pool_row :: "string \<Rightarrow> lease" where
  "pool_row i = \<lparr>lease_mac = [], lease_ip = i, lease_ts = 0, lease_expire = 0, lease_auth = ''-''\<rparr>"

text \<open>The effect of population on the table: the addresses of \<open>pool\<close> are added as free rows.\<close>

definition fills :: "string set \<Rightarrow> lease set \<Rightarrow> lease set \<Rightarrow> bool" where
  "fills pool R R' \<longleftrightarrow> R \<subseteq> R' \<and> lease_ip ` R' = lease_ip ` R \<union> pool
     \<and> (\<forall>r \<in> R' - R. r = pool_row (lease_ip r)) \<and> (keyed R \<longrightarrow> keyed R')"

lemma fills_empty [simp]: "fills {} R R"
  by (simp add: fills_def)

lemma fills_trans: "fills P R R' \<Longrightarrow> fills Q R' R'' \<Longrightarrow> fills (P \<union> Q) R R''"
  by (auto simp: fills_def)

definition range_pool :: "Subnet \<Rightarrow> u32 \<Rightarrow> u32 \<Rightarrow> string set" where
  "range_pool sub n e = {ip_s_addr (compose_ip sub k) |k. n \<le> k \<and> k < e}"

lemma range_pool_step:
  assumes "n < e"
  shows "range_pool sub n e = insert (ip_s_addr (compose_ip sub n)) (range_pool sub (n + 1) e)"
proof -
  have "n \<le> k \<longleftrightarrow> k = n \<or> n + 1 \<le> k" for k
    using assms unat_Suc_less [of n e] by (auto simp: word_less_nat_alt word_le_nat_alt word_unat_eq_iff)
  then show ?thesis using assms by (auto simp: range_pool_def)
qed

definition host_number :: "Subnet \<Rightarrow> IPAddress \<Rightarrow> u32" where
  "host_number sub ip = ip_isolate_addr (ip_u_addr (netmask sub)) (ip_u_addr ip)"

definition subnet_pool :: "Subnet \<Rightarrow> string set" where
  "subnet_pool sub =
     (if has_dynamic_range sub
      then range_pool sub (host_number sub (range_start sub)) (host_number sub (range_end sub)) else {})"

locale populating_engine = lease_engine api rows query args
  for api :: "('d, 'st) sqlite_api" and rows :: "'d \<Rightarrow> lease set"
    and query :: "'st \<Rightarrow> string" and args :: "'st \<Rightarrow> (nat \<rightharpoonup> sqlval)" +
  fixes rows_left :: "'d \<Rightarrow> 'st \<Rightarrow> nat"
  assumes reset_law: "query (sq_reset api st) = query st \<and> args (sq_reset api st) = args st"
    and populate_law: "query st = query_populate \<Longrightarrow> args st = [1 \<mapsto> Text i] \<Longrightarrow>
        sq_step api d st = (rc, st', d') \<Longrightarrow> query st' = query st \<and> args st' = args st
        \<and> (if rc = SQLITE_DONE then i \<notin> lease_ip ` rows d \<and> rows d' = insert (pool_row i) (rows d)
           else rows d' = rows d \<and> (sq_errcode api d' = SQLITE_CONSTRAINT \<longrightarrow> i \<in> lease_ip ` rows d))"
    and static_law: "query st = query_static \<Longrightarrow> sq_step api d st = (rc, st', d') \<Longrightarrow>
        rows d' = rows d \<and> query st' = query st
        \<and> (rc = SQLITE_ROW \<longrightarrow> rows_left d' st' < rows_left d st
             \<and> (\<exists>r \<in> rows d. lease_auth r = ''static'' \<and> sq_column_text api st' 0 = Some (lease_ip r)))"
begin

definition populating :: "'st \<Rightarrow> bool" where
  "populating st \<longleftrightarrow> query st = query_populate \<and> dom (args st) \<subseteq> {1}"

lemma populate_step:
  assumes "populating st" and "sq_bind_text api (sq_reset api st) 1 i = (SQLITE_OK, st1)"
    and "sq_step api d st1 = (rc, st', d')" and "rc = SQLITE_DONE \<or> sq_errcode api d' = SQLITE_CONSTRAINT"
  shows "fills {i} (rows d) (rows d')" and "populating st'"
proof -
  have st1: "query st1 = query_populate" "args st1 = (args st)(1 \<mapsto> Text i)"
    using bind_text_law [OF assms(2)] reset_law [of st] assms(1) by (auto simp: populating_def)
  moreover have "(args st)(1 \<mapsto> Text i) = [1 \<mapsto> Text i]"
    using assms(1) by (force simp: populating_def fun_eq_iff)
  ultimately have args: "args st1 = [1 \<mapsto> Text i]" by simp
  note law = populate_law [OF st1(1) args assms(3)]
  then show "populating st'" using st1(1) args by (simp add: populating_def)
  show "fills {i} (rows d) (rows d')"
  proof (cases "rc = SQLITE_DONE")
    case True
    with law have "i \<notin> lease_ip ` rows d" "rows d' = insert (pool_row i) (rows d)" by simp_all
    then show ?thesis by (auto simp: fills_def pool_row_def intro!: keyed_insert)
  next
    case False
    with law assms(4) show ?thesis by (auto simp: fills_def)
  qed
qed

lemma populate_range_fills:
  assumes "populate_range api sub e n (db, st) = Inr (db', st')" and "populating st"
  shows "fills (range_pool sub n e) (rows db) (rows db') \<and> populating st'"
  using assms
proof (induction "unat e - unat n" arbitrary: n db st)
  case 0
  then have "\<not> n < e" by (simp add: word_less_nat_alt)
  moreover from this have "range_pool sub n e = {}" by (auto simp: range_pool_def)
  ultimately show ?case using "0.prems" by (auto simp: populate_range.simps [of _ _ _ n])
next
  case (Suc m)
  then have n: "n < e" by (simp add: word_less_nat_alt)
  let ?i = "ip_s_addr (compose_ip sub n)"
  obtain st1 rc st2 db1 where b: "sq_bind_text api (sq_reset api st) 1 ?i = (SQLITE_OK, st1)"
    and s: "sq_step api db st1 = (rc, st2, db1)" and ok: "rc = SQLITE_DONE \<or> sq_errcode api db1 = SQLITE_CONSTRAINT"
    and rest: "populate_range api sub e (n + 1) (db1, st2) = Inr (db', st')"
    using Suc.prems(1) n unfolding populate_range.simps [of _ _ _ n]
    by (auto simp: Let_def split: prod.splits if_splits)
  note step = populate_step [OF Suc.prems(2) b s ok]
  have "m = unat e - unat (n + 1)"
    using Suc.hyps(2) n unat_Suc_less [of n e] by (simp add: word_less_nat_alt)
  from Suc.hyps(1) [OF this rest step(2)] show ?case
    using fills_trans [OF step(1)] range_pool_step [OF n] by fastforce
qed

lemma populate_subnets_fills:
  "populate_subnets api subs (db, st) = Inr (db', st') \<Longrightarrow> populating st \<Longrightarrow>
     fills (\<Union> (subnet_pool ` set subs)) (rows db) (rows db') \<and> populating st'"
proof (induction subs arbitrary: db st)
  case (Cons sub subs)
  show ?case
  proof (cases "has_dynamic_range sub")
    case False
    then show ?thesis using Cons by (simp add: subnet_pool_def)
  next
    case True
    with Cons.prems(1) obtain db1 st1 where
      1: "populate_range api sub (host_number sub (range_end sub)) (host_number sub (range_start sub)) (db, st) = Inr (db1, st1)"
      and 2: "populate_subnets api subs (db1, st1) = Inr (db', st')"
      by (auto simp: Let_def host_number_def)
    note step = populate_range_fills [OF 1 Cons.prems(2)]
    from Cons.IH [OF 2] step True show ?thesis
      using fills_trans by (fastforce simp: subnet_pool_def)
  qed
qed simp

lemma populate_leases_fills:
  assumes "populate_leases env api db = Inr db'"
  shows "fills (\<Union> (subnet_pool ` set (subnets (env_subnets env)))) (rows db) (rows db')"
proof -
  from assms obtain st st' where p: "sq_prepare api db query_populate = (SQLITE_OK, st)"
    and s: "populate_subnets api (subnets (env_subnets env)) (db, st) = Inr (db', st')"
    by (auto simp: populate_leases_def Let_def split: prod.splits if_splits)
  have "populating st" using prepare_law [OF p] by (simp add: populating_def)
  then show ?thesis using populate_subnets_fills [OF s] by simp
qed

lemma pf_populate_enough:
  assumes "query st = query_static" and "rows_left db st < fuel"
  shows "pf_populate fuel api db st evs \<noteq> Inl Diverges"
  using assms
proof (induction fuel arbitrary: db st evs)
  case (Suc fuel)
  obtain rc st1 db1 where s: "sq_step api db st = (rc, st1, db1)" by (cases "sq_step api db st") auto
  note law = static_law [OF Suc.prems(1) s]
  have "pf_populate fuel api db1 st1 evs' \<noteq> Inl Diverges" if "rc = SQLITE_ROW" for evs'
    using Suc.IH [of st1 db1] law Suc.prems that by simp
  then show ?case
    using s by (auto simp: bindR_eq_Inl IPAddress_s_def strcpy20_def split: if_splits dest: ip_s2u_raises)
qed simp

end

end
