(* ===== verification/MemEngine.thy ===== *)
theory MemEngine
  imports IpAllocatorInit
begin

text \<open>
  A reference engine for the SQLite calls of the allocator: the meaning of its queries on a
  table kept as a list, executable, with statements as a query, its bound parameters and the
  rows still to deliver. It satisfies the two contracts that the allocator assumes of SQLite,
  and it runs the allocator in the closed instances of the properties.
\<close>

section \<open>The engine\<close>

record mem_db =
  mem_rows :: "lease list"
  mem_changes :: int
  mem_errcode :: int

record mem_stmt =
  stmt_query :: string
  stmt_args :: "(nat \<times> sqlval) list"
  stmt_row :: "string option"
  stmt_rest :: "lease list option"

definition mem_select :: "mem_db \<Rightarrow> mem_stmt \<Rightarrow> lease list \<Rightarrow> int \<times> mem_stmt \<times> mem_db" where
  "mem_select d st rs =
     (case rs of [] \<Rightarrow> (SQLITE_DONE, st\<lparr>stmt_row := None\<rparr>, d)
      | r # _ \<Rightarrow> (SQLITE_ROW, st\<lparr>stmt_row := Some (lease_ip r)\<rparr>, d))"

definition mem_update :: "mem_db \<Rightarrow> mem_stmt \<Rightarrow> string \<Rightarrow> (lease \<Rightarrow> lease) \<Rightarrow> int \<times> mem_stmt \<times> mem_db" where
  "mem_update d st i f =
     (SQLITE_DONE, st,
      d\<lparr>mem_rows := map (\<lambda>r. if lease_ip r = i then f r else r) (mem_rows d),
        mem_changes := int (length (remdups (filter (\<lambda>r. lease_ip r = i) (mem_rows d))))\<rparr>)"

definition mem_step :: "mem_db \<Rightarrow> mem_stmt \<Rightarrow> int \<times> mem_stmt \<times> mem_db" where
  "mem_step d st =
     (let q = stmt_query st; arg = map_of (stmt_args st) in
      if q = query_leased then
        (case arg 1 of
           Some (Text m) \<Rightarrow> mem_select d st (filter (\<lambda>r. lease_mac r = m \<and> free_row r) (mem_rows d))
         | _ \<Rightarrow> (1, st, d))
      else if q = query_new then
        (case arg 1 of
           Some (Numb now) \<Rightarrow>
             mem_select d st (sort_key lease_expire (filter (\<lambda>r. lease_expire r < sint now \<and> free_row r) (mem_rows d)))
         | _ \<Rightarrow> (1, st, d))
      else if q = query_update then
        (case (arg 1, arg 2, arg 3, arg 4) of
           (Some (Text m), Some (Numb now), Some (Numb ex), Some (Text i)) \<Rightarrow>
             mem_update d st i (renewed m now ex None)
         | _ \<Rightarrow> (1, st, d))
      else if q = query_update_auth then
        (case (arg 1, arg 2, arg 3, arg 4, arg 5) of
           (Some (Text m), Some (Numb now), Some (Numb ex), Some (Text a), Some (Text i)) \<Rightarrow>
             mem_update d st i (renewed m now ex (Some a))
         | _ \<Rightarrow> (1, st, d))
      else if q = query_create then
        (case (arg 1, arg 2, arg 3, arg 4, arg 5) of
           (Some (Text m), Some (Text i), Some (Numb now), Some (Numb ex), Some (Text a)) \<Rightarrow>
             if i \<in> lease_ip ` set (mem_rows d) then (SQLITE_CONSTRAINT, st, d\<lparr>mem_errcode := SQLITE_CONSTRAINT\<rparr>)
             else (SQLITE_DONE, st, d\<lparr>mem_rows := mem_rows d @ [\<lparr>lease_mac = m, lease_ip = i,
                     lease_ts = sint now, lease_expire = sint ex, lease_auth = a\<rparr>], mem_changes := 1\<rparr>)
         | _ \<Rightarrow> (1, st, d))
      else if q = query_populate then
        (case arg 1 of
           Some (Text i) \<Rightarrow>
             if i \<in> lease_ip ` set (mem_rows d) then (SQLITE_CONSTRAINT, st, d\<lparr>mem_errcode := SQLITE_CONSTRAINT\<rparr>)
             else (SQLITE_DONE, st, d\<lparr>mem_rows := mem_rows d @ [pool_row i], mem_changes := 1\<rparr>)
         | _ \<Rightarrow> (1, st, d\<lparr>mem_errcode := 1\<rparr>))
      else if q = query_static then
        (case (case stmt_rest st of Some rs \<Rightarrow> rs | None \<Rightarrow> filter (\<lambda>r. lease_auth r = ''static'') (mem_rows d)) of
           [] \<Rightarrow> (SQLITE_DONE, st\<lparr>stmt_row := None, stmt_rest := Some []\<rparr>, d)
         | r # rs \<Rightarrow> if r \<in> set (mem_rows d) \<and> lease_auth r = ''static''
             then (SQLITE_ROW, st\<lparr>stmt_row := Some (lease_ip r), stmt_rest := Some rs\<rparr>, d)
             else (1, st, d))
      else (1, st, d))"

definition mem_left :: "mem_db \<Rightarrow> mem_stmt \<Rightarrow> nat" where
  "mem_left d st = (case stmt_rest st of None \<Rightarrow> Suc (length (mem_rows d)) | Some rs \<Rightarrow> length rs)"

definition mem_api :: "(mem_db, mem_stmt) sqlite_api" where
  "mem_api =
     \<lparr>sq_open = (\<lambda>files path flags. case files path of None \<Rightarrow> (14, \<lparr>mem_rows = [], mem_changes = 0, mem_errcode = 14\<rparr>)
                  | Some d \<Rightarrow> (SQLITE_OK, d)),
      sq_exec = (\<lambda>d q. (SQLITE_OK, d)),
      sq_prepare = (\<lambda>d q. (SQLITE_OK, \<lparr>stmt_query = q, stmt_args = [], stmt_row = None, stmt_rest = None\<rparr>)),
      sq_reset = (\<lambda>st. st\<lparr>stmt_row := None, stmt_rest := None\<rparr>),
      sq_bind_text = (\<lambda>st n v. (SQLITE_OK, st\<lparr>stmt_args := (n, Text v) # stmt_args st\<rparr>)),
      sq_bind_int = (\<lambda>st n v. (SQLITE_OK, st\<lparr>stmt_args := (n, Numb v) # stmt_args st\<rparr>)),
      sq_step = mem_step,
      sq_column_text = (\<lambda>st n. if n = 0 then stmt_row st else None),
      sq_column_count = (\<lambda>st. 1),
      sq_changes = mem_changes,
      sq_errcode = mem_errcode,
      sq_errmsg = (\<lambda>d. ''error'')\<rparr>"

section \<open>It satisfies the contracts\<close>

lemma queries_distinct [simp]:
  "query_leased \<noteq> query_new" "query_leased \<noteq> query_update" "query_leased \<noteq> query_update_auth"
  "query_leased \<noteq> query_create" "query_leased \<noteq> query_populate" "query_leased \<noteq> query_static"
  "query_new \<noteq> query_leased" "query_new \<noteq> query_update" "query_new \<noteq> query_update_auth"
  "query_new \<noteq> query_create" "query_new \<noteq> query_populate" "query_new \<noteq> query_static"
  "query_update \<noteq> query_leased" "query_update \<noteq> query_new" "query_update \<noteq> query_update_auth"
  "query_update \<noteq> query_create" "query_update \<noteq> query_populate" "query_update \<noteq> query_static"
  "query_update_auth \<noteq> query_leased" "query_update_auth \<noteq> query_new" "query_update_auth \<noteq> query_update"
  "query_update_auth \<noteq> query_create" "query_update_auth \<noteq> query_populate" "query_update_auth \<noteq> query_static"
  "query_create \<noteq> query_leased" "query_create \<noteq> query_new" "query_create \<noteq> query_update"
  "query_create \<noteq> query_update_auth" "query_create \<noteq> query_populate" "query_create \<noteq> query_static"
  "query_populate \<noteq> query_leased" "query_populate \<noteq> query_new" "query_populate \<noteq> query_update"
  "query_populate \<noteq> query_update_auth" "query_populate \<noteq> query_create" "query_populate \<noteq> query_static"
  "query_static \<noteq> query_leased" "query_static \<noteq> query_new" "query_static \<noteq> query_update"
  "query_static \<noteq> query_update_auth" "query_static \<noteq> query_create" "query_static \<noteq> query_populate"
  by (simp_all add: query_leased_def query_new_def query_update_def query_update_auth_def query_create_def query_populate_def query_static_def)

lemma mem_update_rows:
  "mem_update d st i f = (rc, st', d') \<Longrightarrow> rc = SQLITE_DONE
     \<and> set (mem_rows d') = (\<lambda>r. if lease_ip r = i then f r else r) ` set (mem_rows d)
     \<and> mem_changes d' = int (card {r \<in> set (mem_rows d). lease_ip r = i})"
  by (auto simp: mem_update_def length_remdups_card_conv)

lemma sort_key_first:
  assumes "sort_key f xs = r # rs"
  shows "r \<in> set xs" and "\<And>x. x \<in> set xs \<Longrightarrow> f r \<le> f x"
proof -
  have *: "set xs = insert r (set rs)" using arg_cong [OF assms, of set] by simp
  then show "r \<in> set xs" by simp
  have "sorted (map f (r # rs))" using sorted_sort_key [of f xs] assms by simp
  then show "\<And>x. x \<in> set xs \<Longrightarrow> f r \<le> f x" using * by auto
qed

lemma mem_step_new:
  assumes "stmt_query st = query_new" and "map_of (stmt_args st) = [1 \<mapsto> Numb now]" and "mem_step d st = (rc, st', d')"
  shows "d' = d
     \<and> (rc = SQLITE_ROW \<longrightarrow> (\<exists>r \<in> set (mem_rows d). lease_expire r < sint now \<and> free_row r
          \<and> (\<forall>r' \<in> set (mem_rows d). free_row r' \<longrightarrow> lease_expire r \<le> lease_expire r') \<and> stmt_row st' = Some (lease_ip r)))
     \<and> (rc = SQLITE_DONE \<longrightarrow> (\<forall>r \<in> set (mem_rows d). lease_expire r < sint now \<longrightarrow> \<not> free_row r))"
proof -
  define xs where "xs = filter (\<lambda>r. lease_expire r < sint now \<and> free_row r) (mem_rows d)"
  have step: "mem_select d st (sort_key lease_expire xs) = (rc, st', d')"
    using assms by (simp add: mem_step_def xs_def)
  show ?thesis
  proof (cases "sort_key lease_expire xs")
    case Nil
    then have "set xs = {}" by (metis list.set(1) set_sort)
    then show ?thesis using step Nil by (auto simp: mem_select_def xs_def)
  next
    case (Cons r rs)
    note first = sort_key_first [OF Cons]
    have "lease_expire r \<le> lease_expire r'" if "r' \<in> set (mem_rows d)" "free_row r'" for r'
      using that first by (cases "lease_expire r' < sint now") (auto simp: xs_def)
    then show ?thesis using first(1) step Cons by (auto simp: mem_select_def xs_def)
  qed
qed

interpretation mem: lease_engine mem_api "\<lambda>d. set (mem_rows d)" stmt_query "\<lambda>st. map_of (stmt_args st)"
proof
  fix d d' st st' rc q and m i a :: string and now ex x :: u32 and n v
  show "stmt_query st = q \<and> map_of (stmt_args st) = Map.empty" if "sq_prepare mem_api d q = (SQLITE_OK, st)"
    using that by (auto simp: mem_api_def)
  show "stmt_query st' = stmt_query st \<and> map_of (stmt_args st') = (map_of (stmt_args st))(n \<mapsto> Text v)"
    if "sq_bind_text mem_api st n v = (SQLITE_OK, st')"
    using that by (auto simp: mem_api_def)
  show "stmt_query st' = stmt_query st \<and> map_of (stmt_args st') = (map_of (stmt_args st))(n \<mapsto> Numb x)"
    if "sq_bind_int mem_api st n x = (SQLITE_OK, st')"
    using that by (auto simp: mem_api_def)
  {
    assume "sq_step mem_api d st = (rc, st', d')"
    then have step: "mem_step d st = (rc, st', d')" by (simp add: mem_api_def)
    show "set (mem_rows d') = set (mem_rows d)
        \<and> (rc = SQLITE_ROW \<longrightarrow> (\<exists>r \<in> set (mem_rows d). lease_mac r = m \<and> free_row r \<and> sq_column_text mem_api st' 0 = Some (lease_ip r)))
        \<and> (rc = SQLITE_DONE \<longrightarrow> (\<forall>r \<in> set (mem_rows d). lease_mac r = m \<longrightarrow> \<not> free_row r))"
      if "stmt_query st = query_leased" "map_of (stmt_args st) = [1 \<mapsto> Text m]"
      using that step
      by (auto simp: mem_step_def mem_select_def mem_api_def filter_empty_conv split: list.splits dest!: filter_eq_ConsD)
    show "set (mem_rows d') = set (mem_rows d)
        \<and> (rc = SQLITE_ROW \<longrightarrow> (\<exists>r \<in> set (mem_rows d). lease_expire r < sint now \<and> free_row r
             \<and> (\<forall>r' \<in> set (mem_rows d). free_row r' \<longrightarrow> lease_expire r \<le> lease_expire r')
             \<and> sq_column_text mem_api st' 0 = Some (lease_ip r)))
        \<and> (rc = SQLITE_DONE \<longrightarrow> (\<forall>r \<in> set (mem_rows d). lease_expire r < sint now \<longrightarrow> \<not> free_row r))"
      if "stmt_query st = query_new" "map_of (stmt_args st) = [1 \<mapsto> Numb now]"
      using mem_step_new [OF that step] by (auto simp: mem_api_def)
    show "if rc = SQLITE_DONE
         then set (mem_rows d') = renew m i now ex None (set (mem_rows d))
            \<and> sq_changes mem_api d' = int (card {r \<in> set (mem_rows d). lease_ip r = i})
         else set (mem_rows d') = set (mem_rows d)"
      if "stmt_query st = query_update" "map_of (stmt_args st) = [1 \<mapsto> Text m, 2 \<mapsto> Numb now, 3 \<mapsto> Numb ex, 4 \<mapsto> Text i]"
      using that step by (auto simp: mem_step_def mem_api_def renew_def dest!: mem_update_rows)
    show "if rc = SQLITE_DONE
         then set (mem_rows d') = renew m i now ex (Some a) (set (mem_rows d))
            \<and> sq_changes mem_api d' = int (card {r \<in> set (mem_rows d). lease_ip r = i})
         else set (mem_rows d') = set (mem_rows d)"
      if "stmt_query st = query_update_auth"
        "map_of (stmt_args st) = [1 \<mapsto> Text m, 2 \<mapsto> Numb now, 3 \<mapsto> Numb ex, 4 \<mapsto> Text a, 5 \<mapsto> Text i]"
      using that step by (auto simp: mem_step_def mem_api_def renew_def dest!: mem_update_rows)
    show "if rc = SQLITE_DONE
         then i \<notin> lease_ip ` set (mem_rows d) \<and> set (mem_rows d') = insert \<lparr>lease_mac = m, lease_ip = i,
                lease_ts = sint now, lease_expire = sint ex, lease_auth = a\<rparr> (set (mem_rows d)) \<and> sq_changes mem_api d' = 1
         else set (mem_rows d') = set (mem_rows d)"
      if "stmt_query st = query_create"
        "map_of (stmt_args st) = [1 \<mapsto> Text m, 2 \<mapsto> Text i, 3 \<mapsto> Numb now, 4 \<mapsto> Numb ex, 5 \<mapsto> Text a]"
      using that step by (auto simp: mem_step_def mem_api_def split: if_splits)
  }
qed

lemma mem_step_static:
  assumes "stmt_query st = query_static" and "mem_step d st = (rc, st', d')"
  shows "d' = d \<and> stmt_query st' = query_static
     \<and> (rc = SQLITE_ROW \<longrightarrow> mem_left d' st' < mem_left d st
          \<and> (\<exists>r \<in> set (mem_rows d). lease_auth r = ''static'' \<and> stmt_row st' = Some (lease_ip r)))"
proof -
  have len: "length rs < Suc (length (mem_rows e))" if "filter P (mem_rows e) = r # rs" for P r rs e
    using that length_filter_le [of P "mem_rows e"] by simp
  show ?thesis
    using assms unfolding mem_step_def mem_left_def
    by (auto split: option.splits list.splits if_splits dest: len)
qed

interpretation mem: populating_engine mem_api "\<lambda>d. set (mem_rows d)" stmt_query "\<lambda>st. map_of (stmt_args st)" mem_left
proof
  fix d d' st st' rc and i :: string
  show "stmt_query (sq_reset mem_api st) = stmt_query st \<and> map_of (stmt_args (sq_reset mem_api st)) = map_of (stmt_args st)"
    by (simp add: mem_api_def)
  show "stmt_query st' = stmt_query st \<and> map_of (stmt_args st') = map_of (stmt_args st)
      \<and> (if rc = SQLITE_DONE then i \<notin> lease_ip ` set (mem_rows d) \<and> set (mem_rows d') = insert (pool_row i) (set (mem_rows d))
         else set (mem_rows d') = set (mem_rows d) \<and> (sq_errcode mem_api d' = SQLITE_CONSTRAINT \<longrightarrow> i \<in> lease_ip ` set (mem_rows d)))"
    if "stmt_query st = query_populate" "map_of (stmt_args st) = [1 \<mapsto> Text i]" "sq_step mem_api d st = (rc, st', d')"
    using that by (auto simp: mem_step_def mem_api_def split: if_splits)
  show "set (mem_rows d') = set (mem_rows d) \<and> stmt_query st' = stmt_query st
      \<and> (rc = SQLITE_ROW \<longrightarrow> mem_left d' st' < mem_left d st
         \<and> (\<exists>r \<in> set (mem_rows d). lease_auth r = ''static'' \<and> sq_column_text mem_api st' 0 = Some (lease_ip r)))"
    if "stmt_query st = query_static" "sq_step mem_api d st = (rc, st', d')"
    using that mem_step_static [of st d rc st' d'] by (auto simp: mem_api_def)
qed

end
