(* ===== verification/Netinet.thy ===== *)
theory Netinet
  imports DhcpPacket
begin

text \<open>
  \<open>src/src/dhcp/dhcp_netinet.h\<close>: the Ethernet, IP and UDP headers the server builds itself, and
  the Internet checksum. A header is a record, its memory image the list of its bytes (the
  structures are packed). The lemmas show that the folding loop computes the one's complement
  sum of RFC 1071 and that a header completed with \<open>ip_wrapsum\<close> passes the check of a receiver.
\<close>

section \<open>Headers\<close>

record s3_eth =
  eth_dhost :: bytes
  eth_shost :: bytes
  eth_type :: u16

record s3_ip =
  ip_hl :: u8
  ip_v :: u8
  ip_tos :: u8
  ip_len :: u16
  ip_id :: u16
  ip_off :: u16
  ip_ttl :: u8
  ip_p :: u8
  ip_sum :: u16
  ip_src :: u32
  ip_dst :: u32

record s3_udphdr =
  uh_sport :: u16
  uh_dport :: u16
  uh_ulen :: u16
  uh_sum :: u16

definition eth_bytes :: "s3_eth \<Rightarrow> bytes" where
  "eth_bytes h = eth_dhost h @ eth_shost h @ le_bytes 2 (eth_type h)"

text \<open>The bit fields \<open>ip_hl:4, ip_v:4\<close> share a byte, the first in its low half.\<close>

definition ip_bytes :: "s3_ip \<Rightarrow> bytes" where
  "ip_bytes h =
     [(ip_hl h AND 0xF) OR push_bit 4 (ip_v h), ip_tos h] @ le_bytes 2 (ip_len h) @ le_bytes 2 (ip_id h)
     @ le_bytes 2 (ip_off h) @ [ip_ttl h, ip_p h] @ le_bytes 2 (ip_sum h)
     @ le_bytes 4 (ip_src h) @ le_bytes 4 (ip_dst h)"

definition udp_bytes :: "s3_udphdr \<Rightarrow> bytes" where
  "udp_bytes h = le_bytes 2 (uh_sport h) @ le_bytes 2 (uh_dport h) @ le_bytes 2 (uh_ulen h) @ le_bytes 2 (uh_sum h)"

definition IP_HEADER_SIZE :: "u8 \<Rightarrow> nat" where
  "IP_HEADER_SIZE b = unat (b AND 0xF) * 4"

lemma length_headers [simp]:
  "length (ip_bytes ip) = 20" "length (udp_bytes udp) = 8"
  by (simp_all add: ip_bytes_def udp_bytes_def)

section \<open>Checksum\<close>

definition fold_sum :: "u32 \<Rightarrow> u32" where
  "fold_sum acc = (if acc > 0xFFFF then acc - 0xFFFF else acc)"

fun checksum_loop :: "bytes \<Rightarrow> u32 \<Rightarrow> u32" where
  "checksum_loop (a # b # bs) acc = checksum_loop bs (fold_sum (acc + ucast (ntohs (le_word [a, b]))))"
| "checksum_loop [a] acc = fold_sum (acc + push_bit 8 (ucast a))"
| "checksum_loop [] acc = acc"

definition ip_checksum :: "bytes \<Rightarrow> nat \<Rightarrow> u32 \<Rightarrow> u32 res" where
  "ip_checksum buf nbytes acc = bindR (read_range buf 0 nbytes) (\<lambda>bs. Inr (checksum_loop bs acc))"

definition ip_wrapsum :: "u32 \<Rightarrow> u32" where
  "ip_wrapsum acc = ucast (htons (ucast (NOT acc AND 0xFFFF)))"

section \<open>Printing\<close>

definition print_mac :: "string \<Rightarrow> bytes \<Rightarrow> string" where
  "print_mac label m = label @ concat (map (\<lambda>i. (if i = 0 then [] else '':'') @ show_02X (m ! i)) [0..<6])"

definition show_HEX :: "nat \<Rightarrow> string" where
  "show_HEX n = show_base True 16 n"

text \<open>The headers lie at fixed offsets; the length decides how many of them are printed.\<close>

definition print_packet :: "bytes \<Rightarrow> nat \<Rightarrow> string list res" where
  "print_packet packet len =
     bindR (read_range packet 0 6) (\<lambda>dhost.
     bindR (read_range packet 6 6) (\<lambda>shost.
     let eth_lines = ['''', ''Ethernet Header'', print_mac ''Dest MAC            : '' dhost,
                      print_mac ''Src  MAC            : '' shost] in
     if len \<le> 14 then Inr eth_lines
     else
       bindR (read_at packet 14) (\<lambda>v_hl.
       bindR (read16 packet 16) (\<lambda>v_len.
       bindR (read_at packet 23) (\<lambda>v_p.
       bindR (read_at packet 22) (\<lambda>v_ttl.
       bindR (read16 packet 24) (\<lambda>v_sum.
       bindR (read32 packet 26) (\<lambda>v_src.
       bindR (read32 packet 30) (\<lambda>v_dst.
       let ip_lines = ['''', ''IP Header'',
             ''   Header len       : '' @ show_nat (unat (v_hl AND 0xF)),
             ''   Packet len       : '' @ show_nat (unat v_len),
             ''   Protocol         : '' @ show_nat (unat (v_p AND 0xFF)),
             ''   TTL              : '' @ show_nat (unat (v_ttl AND 0xFF)),
             ''   Checksum         : 0x'' @ show_HEX (unat (ntohs v_sum)),
             ''   Source IP        : 0x'' @ show_HEX (unat (ntohl v_src)),
             ''   Dest IP          : 0x'' @ show_HEX (unat (ntohl v_dst))] in
       if len \<le> 34 then Inr (eth_lines @ ip_lines)
       else
         bindR (read16 packet 34) (\<lambda>v_sport.
         bindR (read16 packet 36) (\<lambda>v_dport.
         bindR (read16 packet 38) (\<lambda>v_ulen.
         bindR (read16 packet 40) (\<lambda>v_usum.
         Inr (eth_lines @ ip_lines @ ['''', ''UDP Header'',
             ''   Source Port      : '' @ show_nat (unat (ntohs v_sport)),
             ''   Destination Port : '' @ show_nat (unat (ntohs v_dport)),
             ''   UDP Length       : '' @ show_nat (unat (ntohs v_ulen)),
             ''   UDP Checksum     : 0x'' @ show_HEX (unat (ntohs v_usum)), '''']))))))))))))))"

section \<open>The checksum is the one's complement sum\<close>

text \<open>The 16-bit words of a byte sequence in network order, a last odd byte as a high byte.\<close>

fun words16 :: "bytes \<Rightarrow> nat list" where
  "words16 (a # b # bs) = (256 * unat a + unat b) # words16 bs"
| "words16 [a] = [256 * unat a]"
| "words16 [] = []"

lemma unat_ntohs: "unat (ntohs (le_word [a, b])) = 256 * unat a + unat b"
proof -
  have "le_bytes 2 (le_word [a, b] :: u16) = [a, b]" by (simp add: le_bytes_le_word del: le_word.simps)
  then have "ntohs (le_word [a, b]) = le_word [b, a]" by (simp add: swap16_def del: le_word.simps)
  also have "\<dots> = ucast b OR push_bit 8 (ucast a)" by simp
  also have "\<dots> = ucast b + push_bit 8 (ucast a)"
    by (rule disjunctive_add [symmetric]) (auto simp: bit_simps dest: bit_imp_le_length)
  also have "unat \<dots> = 256 * unat a + unat b"
    using unsigned_less [of a, where ?'a = nat] unsigned_less [of b, where ?'a = nat]
    by (simp add: unat_word_ariths unsigned_ucast_eq push_bit_eq_mult take_bit_eq_mod)
  finally show ?thesis .
qed

lemma words16_bound: "x \<in> set (words16 bs) \<Longrightarrow> x \<le> 0xFFFF"
proof (induction bs rule: words16.induct)
  case (1 a b bs)
  then show ?case using unsigned_less [of a, where ?'a = nat] unsigned_less [of b, where ?'a = nat] by auto
next
  case (2 a)
  then show ?case using unsigned_less [of a, where ?'a = nat] by auto
qed simp

lemma unat_fold_sum:
  "unat (fold_sum s) = (if unat s > 0xFFFF then unat s - 0xFFFF else unat s)"
  by (auto simp: fold_sum_def word_less_nat_alt unat_sub_if')

lemma fold_add:
  assumes "unat s \<le> 0xFFFF" and "unat w \<le> 0xFFFF"
  shows "unat (fold_sum (s + w)) = (if unat s + unat w > 0xFFFF then unat s + unat w - 0xFFFF else unat s + unat w)"
  using assms by (simp add: unat_fold_sum unat_word_ariths)

text \<open>The invariant of the loop: the running sum stays below \<open>2^16\<close>, is congruent to the sum of
  the words modulo \<open>2^16 - 1\<close>, and is zero only if everything added was.\<close>

definition sums_to :: "nat \<Rightarrow> nat \<Rightarrow> bool" where
  "sums_to v n \<longleftrightarrow> v \<le> 0xFFFF \<and> v mod 0xFFFF = n mod 0xFFFF \<and> (v = 0 \<longleftrightarrow> n = 0)"

lemma sums_to_step:
  assumes "sums_to (unat s) n" and "unat w \<le> 0xFFFF"
  shows "sums_to (unat (fold_sum (s + w))) (n + unat w)"
proof -
  have s: "unat s \<le> 0xFFFF" and m: "unat s mod 0xFFFF = n mod 0xFFFF" and z: "unat s = 0 \<longleftrightarrow> n = 0"
    using assms(1) by (auto simp: sums_to_def)
  have c: "(unat s + unat w) mod 0xFFFF = (n + unat w) mod 0xFFFF"
    using m by (metis mod_add_left_eq)
  show ?thesis
  proof (cases "unat s + unat w > 0xFFFF")
    case True
    then have "(unat s + unat w - 0xFFFF) mod 0xFFFF = (unat s + unat w) mod 0xFFFF"
      by (simp add: le_mod_geq)
    then show ?thesis using True s assms(2) c by (auto simp: sums_to_def fold_add)
  next
    case False
    then show ?thesis using s assms(2) c z by (auto simp: sums_to_def fold_add)
  qed
qed

lemma checksum_loop_sums:
  "sums_to (unat s) n \<Longrightarrow> sums_to (unat (checksum_loop bs s)) (n + sum_list (words16 bs))"
proof (induction bs s arbitrary: n rule: checksum_loop.induct)
  case (1 a b bs s)
  have w: "unat (ucast (ntohs (le_word [a, b])) :: u32) = 256 * unat a + unat b"
    using words16_bound [of "256 * unat a + unat b" "[a, b]"]
    by (simp add: unsigned_ucast_eq unat_ntohs take_bit_eq_mod del: le_word.simps)
  have "sums_to (unat (fold_sum (s + ucast (ntohs (le_word [a, b]))))) (n + (256 * unat a + unat b))"
    using sums_to_step [OF "1.prems", of "ucast (ntohs (le_word [a, b]))"] w
      words16_bound [of "256 * unat a + unat b" "[a, b]"] by (simp del: le_word.simps)
  from "1.IH" [OF this] show ?case by (simp add: add.assoc del: le_word.simps)
next
  case (2 a s)
  have w: "unat (push_bit 8 (ucast a) :: u32) = 256 * unat a"
    using unsigned_less [of a, where ?'a = nat]
    by (simp add: push_bit_eq_mult unat_word_ariths unsigned_ucast_eq take_bit_eq_mod)
  then show ?case
    using sums_to_step [OF "2.prems", of "push_bit 8 (ucast a)"] words16_bound [of "256 * unat a" "[a]"] by simp
qed simp

lemma words16_append: "even (length xs) \<Longrightarrow> words16 (xs @ ys) = words16 xs @ words16 ys"
  by (induction xs rule: words16.induct) auto

lemma words16_le_bytes2: "words16 (le_bytes 2 w) = [unat (ntohs w)]"
proof -
  have "length (le_bytes 2 w) = 2" by simp
  then obtain a b where ab: "le_bytes 2 w = [a, b]"
    by (auto simp: numeral_2_eq_2 length_Suc_conv simp del: length_le_bytes)
  then have "w = le_word [a, b]" by (metis le_word16)
  then show ?thesis unfolding ab by (simp add: unat_ntohs del: le_word.simps)
qed

lemma swap16_0 [simp]: "swap16 0 = 0"
  by (simp add: swap16_def le_bytes_def numeral_2_eq_2)

lemma first_header_byte:
  assumes "ip_v h AND 0xF \<noteq> 0"
  shows "(ip_hl h AND 0xF) OR push_bit 4 (ip_v h) \<noteq> 0"
proof
  assume z: "(ip_hl h AND 0xF) OR push_bit 4 (ip_v h) = 0"
  have "ip_v h AND 0xF = 0"
  proof (rule bit_word_eqI)
    fix n assume "n < LENGTH(8)"
    then have "n < 8" by simp
    moreover have "\<not> bit (push_bit 4 (ip_v h)) (n + 4)" using z by (metis bit_0_eq bot_apply bit_or_iff bot_bool_def)
    ultimately show "bit (ip_v h AND 0xF) n = bit 0 n"
      by (rule_tac less_8_cases [of n]) (auto simp: bit_simps)
  qed
  with assms show False ..
qed

lemma ucast_ucast16: "ucast (ucast x :: u32) = (x :: u16)"
  by (rule bit_word_eqI) (auto simp: bit_simps)

lemma unat_ntohs_wrapsum:
  assumes "unat s \<le> 0xFFFF"
  shows "unat (ntohs (ucast (ip_wrapsum s))) = 0xFFFF - unat s"
proof -
  have 1: "ntohs (ucast (ip_wrapsum s)) = ucast (NOT s AND 0xFFFF)"
    unfolding ip_wrapsum_def ucast_ucast16 by simp
  have 2: "(ucast (NOT s AND 0xFFFF) :: u16) = NOT (ucast s)"
  proof -
    have *: "(0xFFFF :: u32) = mask 16" by (simp add: mask_eq_exp_minus_1)
    show ?thesis unfolding * by (rule bit_word_eqI) (auto simp: bit_simps)
  qed
  have 3: "unat (NOT (ucast s) :: u16) = 0xFFFF - unat (ucast s :: u16)"
  proof -
    have "NOT (ucast s :: u16) = - 1 - ucast s" by (simp add: not_eq_complement)
    moreover have "unat (- 1 - ucast s :: u16) = unat (- 1 :: u16) - unat (ucast s :: u16)"
      by (rule unat_sub) simp
    moreover have "unat (- 1 :: u16) = 0xFFFF" by (simp add: unsigned_minus_1_eq_mask mask_eq_exp_minus_1)
    ultimately show ?thesis by simp
  qed
  show ?thesis using assms unfolding 1 2 3 by (simp add: unsigned_ucast_eq take_bit_eq_mod)
qed

lemma words16_ip_bytes:
  "words16 (ip_bytes (h\<lparr>ip_sum := w\<rparr>)) =
     words16 (take 10 (ip_bytes h)) @ unat (ntohs w) # words16 (drop 12 (ip_bytes h))"
proof -
  have "ip_bytes (h\<lparr>ip_sum := w\<rparr>) = take 10 (ip_bytes h) @ le_bytes 2 w @ drop 12 (ip_bytes h)"
    by (simp add: ip_bytes_def)
  then show ?thesis by (simp add: words16_append words16_le_bytes2)
qed

lemma sums_to_full: "sums_to v n \<Longrightarrow> n mod 0xFFFF = 0 \<Longrightarrow> n \<noteq> 0 \<Longrightarrow> v = 0xFFFF"
  by (auto simp: sums_to_def mod_eq_0_iff_dvd dvd_def)

lemma header_sum_verifies:
  assumes "ip_v h AND 0xF \<noteq> 0" and "ip_checksum (ip_bytes (h\<lparr>ip_sum := 0\<rparr>)) 20 0 = Inr s"
  shows "ip_checksum (ip_bytes (h\<lparr>ip_sum := ucast (ip_wrapsum s)\<rparr>)) 20 0 = Inr 0xFFFF"
proof -
  define rest where "rest = sum_list (words16 (take 10 (ip_bytes h))) + sum_list (words16 (drop 12 (ip_bytes h)))"
  have zero: "sums_to (unat 0) 0" by (simp add: sums_to_def)
  have sum: "sum_list (words16 (ip_bytes (h\<lparr>ip_sum := w\<rparr>))) = rest + unat (ntohs w)" for w
    unfolding words16_ip_bytes rest_def by simp
  have "s = checksum_loop (ip_bytes (h\<lparr>ip_sum := 0\<rparr>)) 0" using assms(2) by (simp add: ip_checksum_def)
  then have s: "sums_to (unat s) rest"
    using checksum_loop_sums [OF zero, of "ip_bytes (h\<lparr>ip_sum := 0\<rparr>)"] sum [of 0] by simp
  then have c: "unat (ntohs (ucast (ip_wrapsum s))) = 0xFFFF - unat s"
    by (simp add: unat_ntohs_wrapsum sums_to_def)
  let ?h = "h\<lparr>ip_sum := ucast (ip_wrapsum s)\<rparr>"
  have "sums_to (unat (checksum_loop (ip_bytes ?h) 0)) (rest + (0xFFFF - unat s))"
    using checksum_loop_sums [OF zero, of "ip_bytes ?h"] unfolding sum c by simp
  moreover have "(rest + (0xFFFF - unat s)) mod 0xFFFF = 0"
  proof -
    have "(rest + (0xFFFF - unat s)) mod 0xFFFF = (unat s + (0xFFFF - unat s)) mod 0xFFFF"
      using s unfolding sums_to_def by (metis mod_add_left_eq)
    then show ?thesis using s by (simp add: sums_to_def)
  qed
  moreover have "rest + (0xFFFF - unat s) \<noteq> 0"
  proof -
    have "unat ((ip_hl h AND 0xF) OR push_bit 4 (ip_v h)) \<noteq> 0"
      using first_header_byte [OF assms(1)] by (simp only: unat_eq_0 not_False_eq_True)
    then show ?thesis by (simp add: rest_def ip_bytes_def)
  qed
  ultimately have "unat (checksum_loop (ip_bytes ?h) 0) = 0xFFFF" by (rule sums_to_full)
  then have "checksum_loop (ip_bytes ?h) 0 = 0xFFFF" by (simp add: word_unat_eq_iff)
  then show ?thesis by (simp add: ip_checksum_def)
qed

text \<open>The IP header checksum. For every header with a version, inserting \<open>ip_wrapsum\<close> of the
  checksum computed with a zero checksum field makes the sum over the completed header
  \<open>0xFFFF\<close>, which is the condition a receiver checks.\<close>

theorem ip_header_checksum_verifies:
  assumes "ip_v h AND 0xF \<noteq> 0" and "ip_checksum (ip_bytes (h\<lparr>ip_sum := 0\<rparr>)) 20 0 = Inr s"
  shows "ip_checksum (ip_bytes (h\<lparr>ip_sum := ucast (ip_wrapsum s)\<rparr>)) 20 0 = Inr 0xFFFF"
  using assms by (rule header_sum_verifies)

theorem ip_header_checksum_verifies_witness:
  "let h = \<lparr>ip_hl = 5, ip_v = 4, ip_tos = 16, ip_len = htons 328, ip_id = 0, ip_off = htons 0x4000, ip_ttl = 16,
            ip_p = 17, ip_sum = 0, ip_src = 0x0100000A, ip_dst = 0xFFFFFFFF\<rparr>;
       s = checksum_loop (ip_bytes (h\<lparr>ip_sum := 0\<rparr>)) 0
   in ip_checksum (ip_bytes (h\<lparr>ip_sum := ucast (ip_wrapsum s)\<rparr>)) 20 0 = Inr 0xFFFF"
  unfolding Let_def
  by (rule ip_header_checksum_verifies) (simp_all add: ip_checksum_def)

end
