(* ===== verification/DhcpReplies.thy ===== *)
theory DhcpReplies
  imports DhcpWire
begin

text \<open>
  What the replies built by \<open>create_dhcp_offer\<close>, \<open>create_dhcp_ack\<close>, \<open>create_dhcp_ack2\<close> and
  \<open>create_dhcp_nak\<close> say to the client: the identification copied from the request, the
  message type and the options, read through \<open>find_option\<close> as a client does, and that every
  reply fits the server's message buffer.
\<close>

section \<open>Reading a reply\<close>

definition find_option :: "DHCP_Packet \<Rightarrow> u8 \<Rightarrow> bytes option" where
  "find_option pkt c =
     map_option (\<lambda>opt. take (unat (opt_length opt)) (the (opt_value opt)))
       (find (\<lambda>opt. opt_code opt = c) (live_options pkt))"

definition echoes :: "DHCP_Packet \<Rightarrow> DHCP_Packet \<Rightarrow> bool" where
  "echoes request r \<longleftrightarrow> pkt_op r = BOOT_REPLY \<and> htype r = htype request \<and> hlen r = hlen request
     \<and> xid r = xid request \<and> flags r = flags request \<and> giaddr r = giaddr request
     \<and> chaddr r = chaddr request \<and> hops r = 0 \<and> secs r = 0 \<and> siaddr r = 0"

definition describes_subnet :: "Subnet \<Rightarrow> u32 \<Rightarrow> DHCP_Packet \<Rightarrow> bool" where
  "describes_subnet sub junk r \<longleftrightarrow>
     find_option r DHO_SUBNET = Some (le_bytes 4 (ip_u_addr (netmask sub)))
     \<and> find_option r DHO_ROUTERS = Some (le_bytes 4 (ip_u_addr (gateway sub)))
     \<and> find_option r DHO_DOMAIN_NAME_SERVERS
        = Some (le_bytes 4 (ip_u_addr (nameserver1 sub))
                @ le_bytes 4 (if ip_u_addr (nameserver2 sub) = INADDR_NONE then junk
                              else ip_u_addr (nameserver2 sub)))"

section \<open>The option array of a reply\<close>

lemma put_options_overlay:
  assumes "i + length opts < length slots"
  shows "put_options i opts slots =
     (let s = overlay slots i opts; n = i + length opts in s[n := (s ! n)\<lparr>opt_code := DHO_END\<rparr>])"
  using assms
proof (induction i opts slots rule: put_options.induct)
  case (2 i opt opts slots)
  have "slots[i := opt] = overlay slots i [opt]"
    using "2.prems" by (simp add: overlay_def upd_conv_take_nth_drop)
  then show ?case using 2 by (simp add: overlay_overlay)
qed simp

lemma put_options_slots:
  assumes "length opts < 32"
  shows "put_options 0 opts (pkt_options DHCP_Packet_new) = option_slots opts"
proof -
  have "replicate (32 - length opts) null_option = null_option # replicate (31 - length opts) null_option"
    using assms by (simp add: slots_Suc)
  then show ?thesis
    using assms unfolding DHCP_Packet_new_def
    by (simp add: put_options_overlay Let_def overlay_replicate option_slots_def end_option_def
        list_update_append nth_append)
qed

lemma live_options_slots:
  "list_all (\<lambda>opt. opt_code opt \<noteq> DHO_END) opts \<Longrightarrow> live_options (pkt\<lparr>pkt_options := option_slots opts\<rparr>) = opts"
  by (auto simp: live_options_def option_slots_def end_option_def takeWhile_append list_all_iff)

lemma pkt_options_reply_header [simp]: "pkt_options (reply_header request c y) = pkt_options DHCP_Packet_new"
  by (simp add: reply_header_def)

lemma reply_header_sel [simp]:
  "ciaddr (reply_header request c y) = c" "yiaddr (reply_header request c y) = y"
  by (simp_all add: reply_header_def)

lemma reply_header_echoes: "echoes request ((reply_header request c y)\<lparr>pkt_options := opts\<rparr>)"
  by (simp add: echoes_def reply_header_def)

lemma reply_header_wf: "length (chaddr request) = 16 \<Longrightarrow> wf_header ((reply_header request c y)\<lparr>pkt_options := opts\<rparr>)"
  by (simp add: wf_header_def reply_header_def)

lemma unat_length_option: "unat (of_nat (length s) :: u8) = length s mod 256"
  by (simp add: unat_of_nat)

lemmas reply_option_defs = set_value_u8_def set_value_u32_def set_value_str_def dns_option_def Let_def

lemma reply_options_wf [simp]:
  "c \<noteq> DHO_END \<Longrightarrow> option_wf (set_value_u8 c b)"
  "c \<noteq> DHO_END \<Longrightarrow> option_wf (set_value_u32 c w)"
  "c \<noteq> DHO_END \<Longrightarrow> option_wf (set_value_str c s)"
  "option_wf (dns_option junk sub)"
  by (simp_all add: option_wf_def reply_option_defs unat_length_option)

lemma reply_options_code [simp]:
  "opt_code (set_value_u8 c b) = c" "opt_code (set_value_u32 c w) = c"
  "opt_code (set_value_str c s) = c" "opt_code (dns_option junk sub) = DHO_DOMAIN_NAME_SERVERS"
  by (simp_all add: reply_option_defs)

lemma reply_options_bytes [simp]:
  "take (unat (opt_length (set_value_u8 c b))) (the (opt_value (set_value_u8 c b))) = [b]"
  "take (unat (opt_length (set_value_u32 c w))) (the (opt_value (set_value_u32 c w))) = le_bytes 4 w"
  "take (unat (opt_length (set_value_str c s))) (the (opt_value (set_value_str c s)))
     = bytes_of_string (take (length s mod 256) s)"
  "take (unat (opt_length (dns_option junk sub))) (the (opt_value (dns_option junk sub)))
     = le_bytes 4 (ip_u_addr (nameserver1 sub))
       @ le_bytes 4 (if ip_u_addr (nameserver2 sub) = INADDR_NONE then junk else ip_u_addr (nameserver2 sub))"
  by (simp_all add: reply_option_defs unat_length_option take_map)

lemma reply_options_wire_length [simp]:
  "length (option_wire (set_value_u8 c b)) = 3" "length (option_wire (set_value_u32 c w)) = 6"
  "length (option_wire (set_value_str c s)) = length s mod 256 + 2"
  "length (option_wire (dns_option junk sub)) = 10"
  by (simp_all add: option_wire_def reply_option_defs unat_length_option)

lemma reply_options_canonical [simp]:
  "c \<noteq> DHO_PAD \<Longrightarrow> c \<noteq> DHO_END \<Longrightarrow> canonical_option (set_value_u8 c b)"
  "c \<noteq> DHO_PAD \<Longrightarrow> c \<noteq> DHO_END \<Longrightarrow> canonical_option (set_value_u32 c w)"
  "c \<noteq> DHO_PAD \<Longrightarrow> c \<noteq> DHO_END \<Longrightarrow> length s < 256 \<Longrightarrow> canonical_option (set_value_str c s)"
  "canonical_option (dns_option junk sub)"
  by (simp_all add: canonical_option_def reply_option_defs unat_length_option)

text \<open>A reply is writable when its options are well formed, whatever their length.\<close>

lemma reply_terminated:
  assumes "list_all option_wf opts" and "length opts < 32"
  shows "terminated (pkt\<lparr>pkt_options := option_slots opts\<rparr>)"
proof -
  have "live_options (pkt\<lparr>pkt_options := option_slots opts\<rparr>) = opts"
    using assms by (intro live_options_slots) (auto simp: list_all_iff option_wf_def)
  then show ?thesis using assms
    by (auto simp: terminated_def option_slots_def end_option_def list_all_iff)
qed

section \<open>The four replies\<close>

definition offer_options :: "dhcp_msg \<Rightarrow> Subnet \<Rightarrow> u32 \<Rightarrow> u32 \<Rightarrow> string \<Rightarrow> DHCP_Option list" where
  "offer_options m global lt rt dn =
     [set_value_u8 DHO_DHCP_MESSAGE_TYPE (msg_code m),
      set_value_u32 DHO_DHCP_SERVER_IDENTIFIER (sub_u_addr global),
      set_value_u32 DHO_DHCP_LEASE_TIME (htonl lt),
      set_value_u32 DHO_DHCP_RENEWAL_TIME (htonl rt),
      set_value_str DHO_DOMAIN_NAME dn]"

lemma create_dhcp_offer_eq:
  "create_dhcp_offer sn junk request ip = Inr r \<longleftrightarrow>
     (\<exists>sub global lt rt dn. mysubnet sn ip = Some sub \<and> globalnet sn = Some global
        \<and> lease_time global = Some lt \<and> renew_time global = Some rt \<and> domain_name global = Some dn
        \<and> r = (reply_header request 0 (ip_u_addr ip))\<lparr>pkt_options := option_slots
            (offer_options DHCP_OFFER global lt rt dn @
             [set_value_u32 DHO_SUBNET (ip_u_addr (netmask sub)),
              set_value_u32 DHO_ROUTERS (ip_u_addr (gateway sub)), dns_option junk sub])\<rparr>)"
  by (auto simp: create_dhcp_offer_def Let_def offer_options_def put_options_slots
      simp del: put_options.simps split: option.splits)

lemma create_dhcp_ack_eq:
  "create_dhcp_ack sn junk request ip = Inr (Some r) \<longleftrightarrow>
     (\<exists>sub global lt rt dn. mysubnet sn ip = Some sub \<and> globalnet sn = Some global
        \<and> lease_time global = Some lt \<and> renew_time global = Some rt \<and> domain_name global = Some dn
        \<and> r = (reply_header request 0 (ip_u_addr ip))\<lparr>pkt_options := option_slots
            (offer_options DHCP_ACK global lt rt dn @
             [set_value_u32 DHO_ROUTERS (ip_u_addr (gateway sub)),
              set_value_u32 DHO_SUBNET (ip_u_addr (netmask sub)), dns_option junk sub])\<rparr>)"
  by (auto simp: create_dhcp_ack_def Let_def offer_options_def put_options_slots
      simp del: put_options.simps split: option.splits)

lemma create_dhcp_ack2_eq:
  "create_dhcp_ack2 sn junk request ip = Inr (Some r) \<longleftrightarrow>
     (\<exists>sub global dn. mysubnet sn ip = Some sub \<and> globalnet sn = Some global
        \<and> domain_name global = Some dn
        \<and> r = (reply_header request (ciaddr request) 0)\<lparr>pkt_options := option_slots
            [set_value_u8 DHO_DHCP_MESSAGE_TYPE (msg_code DHCP_ACK),
             set_value_u32 DHO_DHCP_SERVER_IDENTIFIER (sub_u_addr global),
             set_value_str DHO_DOMAIN_NAME dn,
             set_value_u32 DHO_ROUTERS (ip_u_addr (gateway sub)),
             set_value_u32 DHO_SUBNET (ip_u_addr (netmask sub)), dns_option junk sub]\<rparr>)"
  by (auto simp: create_dhcp_ack2_def Let_def put_options_slots
      simp del: put_options.simps split: option.splits)

lemma create_dhcp_nak_eq:
  "create_dhcp_nak sn request ip = Inr r \<longleftrightarrow>
     (\<exists>global. globalnet sn = Some global
        \<and> r = (reply_header request 0 0)\<lparr>pkt_options := option_slots
            [set_value_u8 DHO_DHCP_MESSAGE_TYPE (msg_code DHCP_NAK),
             set_value_u32 DHO_DHCP_SERVER_IDENTIFIER (sub_u_addr global)]\<rparr>)"
  by (auto simp: create_dhcp_nak_def Let_def put_options_slots simp del: put_options.simps)

lemmas create_eqs = create_dhcp_offer_eq create_dhcp_ack_eq create_dhcp_ack2_eq create_dhcp_nak_eq

text \<open>A reply of the server, as the message loop may hold it.\<close>

definition reply_of :: "Subnets \<Rightarrow> u32 \<Rightarrow> DHCP_Packet \<Rightarrow> IPAddress \<Rightarrow> DHCP_Packet \<Rightarrow> bool" where
  "reply_of sn junk request ip r \<longleftrightarrow>
     create_dhcp_offer sn junk request ip = Inr r \<or> create_dhcp_ack sn junk request ip = Inr (Some r)
     \<or> create_dhcp_ack2 sn junk request ip = Inr (Some r) \<or> create_dhcp_nak sn request ip = Inr r"

lemma length_wire_slots:
  assumes "length (chaddr request) = 16" and "list_all option_wf opts"
  shows "length (wire ((reply_header request c y)\<lparr>pkt_options := option_slots opts\<rparr>))
         = max 300 (241 + length (wire_options opts))"
proof -
  have "live_options ((reply_header request c y)\<lparr>pkt_options := option_slots opts\<rparr>) = opts"
    using assms(2) by (intro live_options_slots) (auto simp: list_all_iff option_wf_def)
  then show ?thesis using reply_header_wf [OF assms(1)] by (simp add: wire_def Let_def max_def)
qed

lemma reply_writable:
  assumes "reply_of sn junk request ip r" and "length (chaddr request) = 16"
  shows "terminated r" and "wf_header r" and "length (wire r) \<le> 541" and "echoes request r"
  using assms
  by (auto simp: reply_of_def create_eqs offer_options_def reply_header_wf reply_header_echoes
      length_wire_slots intro!: reply_terminated)

section \<open>Properties\<close>

text \<open>A configuration for the closed instances: the server 10.0.0.1 on 10.0.0.0/24 with a
  dynamic range from 10.0.0.100 to 10.0.0.120 and a single name server.\<close>

definition example_subnet :: Subnet where
  "example_subnet = Subnet_new\<lparr>addr := IPAddress_u 0x0000000A, netmask := IPAddress_u 0x00FFFFFF,
     gateway := IPAddress_u 0x0100000A, nameserver1 := IPAddress_u 0x0200000A,
     range_start := IPAddress_u 0x6400000A, range_end := IPAddress_u 0x7800000A\<rparr>"

definition example_global :: Subnet where
  "example_global = Subnet_new\<lparr>addr := IPAddress_u 0x0100000A, netmask := IPAddress_u 0x00FFFFFF,
     lease_time := Some 3600, renew_time := Some 1800, domain_name := Some ''example.org''\<rparr>"

definition example_subnets :: Subnets where
  "example_subnets = \<lparr>subnets = [example_subnet], globalnet = Some example_global\<rparr>"

lemmas example_defs = example_subnets_def example_subnet_def example_global_def

lemma example_mysubnet [simp]:
  "mysubnet example_subnets (IPAddress_u 0x6400000A) = Some example_subnet"
  by (simp add: mysubnet_def example_defs myaddress_iff sub_u_addr_def Subnet_new_def)

lemma find_option_slots:
  assumes "list_all option_wf opts"
  shows "find_option (pkt\<lparr>pkt_options := option_slots opts\<rparr>) c
         = map_option (\<lambda>opt. take (unat (opt_length opt)) (the (opt_value opt)))
             (find (\<lambda>opt. opt_code opt = c) opts)"
proof -
  have "list_all (\<lambda>opt. opt_code opt \<noteq> DHO_END) opts"
    using assms by (auto simp: list_all_iff option_wf_def)
  then show ?thesis by (simp only: find_option_def live_options_slots)
qed

lemma get_message_type_slots [simp]:
  "get_message_type (pkt\<lparr>pkt_options := option_slots (set_value_u8 DHO_DHCP_MESSAGE_TYPE b # opts)\<rparr>)
   = Inr (uint b)"
  by (simp add: get_message_type_def option_slots_def set_value_u8_def)

text \<open>C11 The OFFER. When \<open>create_dhcp_offer\<close> returns a packet, it is of type OFFER, answers
  the request it was made for, offers the given address, and its mask, router and DNS options
  are those of the configured subnet that contains this address; lease and renewal time are
  the configured ones in network byte order. If the subnet has no second name server the last
  four bytes of the DNS option are the bytes \<open>junk\<close> that the heap happened to hold.\<close>

theorem offer_contents:
  assumes "create_dhcp_offer sn junk request ip = Inr r"
  shows "get_message_type r = Inr 2 \<and> echoes request r \<and> yiaddr r = ip_u_addr ip \<and> ciaddr r = 0
    \<and> (\<exists>sub global lt rt. sub \<in> set (subnets sn) \<and> ip_u_addr ip AND ip_u_addr (netmask sub) = sub_u_addr sub
        \<and> globalnet sn = Some global \<and> lease_time global = Some lt \<and> renew_time global = Some rt
        \<and> describes_subnet sub junk r
        \<and> find_option r DHO_DHCP_SERVER_IDENTIFIER = Some (le_bytes 4 (sub_u_addr global))
        \<and> find_option r DHO_DHCP_LEASE_TIME = Some (rev (le_bytes 4 lt))
        \<and> find_option r DHO_DHCP_RENEWAL_TIME = Some (rev (le_bytes 4 rt)))"
proof -
  from assms obtain sub global lt rt dn where
      c: "mysubnet sn ip = Some sub" "globalnet sn = Some global" "lease_time global = Some lt"
        "renew_time global = Some rt"
      and r: "r = (reply_header request 0 (ip_u_addr ip))\<lparr>pkt_options := option_slots
            (offer_options DHCP_OFFER global lt rt dn @
             [set_value_u32 DHO_SUBNET (ip_u_addr (netmask sub)),
              set_value_u32 DHO_ROUTERS (ip_u_addr (gateway sub)), dns_option junk sub])\<rparr>"
    by (auto simp: create_dhcp_offer_eq)
  have "sub \<in> set (subnets sn)" "ip_u_addr ip AND ip_u_addr (netmask sub) = sub_u_addr sub"
    using mysubnet_Some [OF c(1)] by (simp_all add: myaddress_iff)
  then show ?thesis using c
    by (intro conjI exI [of _ sub] exI [of _ global] exI [of _ lt] exI [of _ rt])
      (simp_all add: r offer_options_def reply_header_echoes describes_subnet_def find_option_slots
        le_bytes_swap32)
qed

theorem offer_contents_witness:
  "\<exists>r. create_dhcp_offer example_subnets 7 DHCP_Packet_new (IPAddress_u 0x6400000A) = Inr r
     \<and> get_message_type r = Inr 2 \<and> echoes DHCP_Packet_new r \<and> yiaddr r = 0x6400000A"
proof -
  obtain r where "create_dhcp_offer example_subnets 7 DHCP_Packet_new (IPAddress_u 0x6400000A) = Inr r"
    by (simp add: create_dhcp_offer_eq) (simp add: example_subnets_def example_global_def)
  with offer_contents [OF this] show ?thesis by auto
qed

text \<open>C12 The ACK for a REQUEST carries the same description of the lease as the OFFER, and
  the ACK for an INFORM describes the subnet but assigns no address and no lease time.\<close>

theorem ack_contents:
  "(create_dhcp_ack sn junk request ip = Inr (Some r) \<longrightarrow>
      get_message_type r = Inr 5 \<and> echoes request r \<and> yiaddr r = ip_u_addr ip \<and> ciaddr r = 0
      \<and> (\<exists>offer sub. create_dhcp_offer sn junk request ip = Inr offer \<and> mysubnet sn ip = Some sub
           \<and> describes_subnet sub junk r
           \<and> (\<forall>c. c \<noteq> DHO_DHCP_MESSAGE_TYPE \<longrightarrow> find_option r c = find_option offer c)))
   \<and> (create_dhcp_ack2 sn junk request ip = Inr (Some r) \<longrightarrow>
      get_message_type r = Inr 5 \<and> echoes request r \<and> yiaddr r = 0 \<and> ciaddr r = ciaddr request
      \<and> (\<exists>sub. mysubnet sn ip = Some sub \<and> describes_subnet sub junk r)
      \<and> find_option r DHO_DHCP_LEASE_TIME = None)"
proof (intro conjI impI)
  assume "create_dhcp_ack sn junk request ip = Inr (Some r)"
  then obtain sub global lt rt dn where
      c: "mysubnet sn ip = Some sub" "globalnet sn = Some global" "lease_time global = Some lt"
        "renew_time global = Some rt" "domain_name global = Some dn"
      and r: "r = (reply_header request 0 (ip_u_addr ip))\<lparr>pkt_options := option_slots
            (offer_options DHCP_ACK global lt rt dn @
             [set_value_u32 DHO_ROUTERS (ip_u_addr (gateway sub)),
              set_value_u32 DHO_SUBNET (ip_u_addr (netmask sub)), dns_option junk sub])\<rparr>"
    by (auto simp: create_dhcp_ack_eq)
  show "get_message_type r = Inr 5" "echoes request r" "yiaddr r = ip_u_addr ip" "ciaddr r = 0"
    by (simp_all add: r offer_options_def reply_header_echoes)
  show "\<exists>offer sub. create_dhcp_offer sn junk request ip = Inr offer \<and> mysubnet sn ip = Some sub
      \<and> describes_subnet sub junk r
      \<and> (\<forall>c. c \<noteq> DHO_DHCP_MESSAGE_TYPE \<longrightarrow> find_option r c = find_option offer c)"
    using c by (simp add: create_dhcp_offer_eq r describes_subnet_def find_option_slots offer_options_def)
next
  assume "create_dhcp_ack2 sn junk request ip = Inr (Some r)"
  then show "get_message_type r = Inr 5" "echoes request r" "yiaddr r = 0" "ciaddr r = ciaddr request"
    "\<exists>sub. mysubnet sn ip = Some sub \<and> describes_subnet sub junk r"
    "find_option r DHO_DHCP_LEASE_TIME = None"
    by (auto simp: create_dhcp_ack2_eq reply_header_echoes describes_subnet_def find_option_slots)
qed

theorem ack_contents_witness:
  "\<exists>r. create_dhcp_ack example_subnets 7 DHCP_Packet_new (IPAddress_u 0x6400000A) = Inr (Some r)
     \<and> get_message_type r = Inr 5 \<and> echoes DHCP_Packet_new r \<and> yiaddr r = 0x6400000A"
proof -
  obtain r where r: "create_dhcp_ack example_subnets 7 DHCP_Packet_new (IPAddress_u 0x6400000A) = Inr (Some r)"
    by (simp add: create_dhcp_ack_eq) (simp add: example_subnets_def example_global_def)
  with ack_contents [of example_subnets 7 DHCP_Packet_new "IPAddress_u 0x6400000A" r] show ?thesis by auto
qed

text \<open>C13 Every reply the server builds for a request it has read is written without leaving
  a message buffer of 4096 bytes, takes between 300 and 541 bytes and repeats the transaction
  id, the hardware address, the flags and the relay address of the request.\<close>

theorem reply_fits_buffer:
  assumes "reply_of sn junk request ip r" and "canonical request" and "length buf = DHCP_MAX_MTU"
  shows "\<exists>buf' n. unmarshall r buf = Inr (buf', n) \<and> take n buf' = wire r
           \<and> 300 \<le> n \<and> n \<le> 541 \<and> length buf' = DHCP_MAX_MTU \<and> echoes request r"
proof -
  have "length (chaddr request) = 16" using assms(2) by (simp add: canonical_def wf_header_def)
  note w = reply_writable [OF assms(1) this]
  have "length (wire r) \<le> length buf" using w(3) assms(3) by simp
  from unmarshall_wire [OF w(2,1) this] show ?thesis using w(3,4) assms(3) length_wire [of r] by auto
qed

theorem reply_fits_buffer_witness:
  "\<exists>r buf' n. reply_of example_subnets 7 (DHCP_Packet_new\<lparr>pkt_options := option_slots []\<rparr>) (IPAddress_u 1) r
     \<and> unmarshall r (replicate DHCP_MAX_MTU 0) = Inr (buf', n) \<and> 300 \<le> n \<and> n \<le> 541"
proof -
  let ?req = "DHCP_Packet_new\<lparr>pkt_options := option_slots []\<rparr>"
  obtain r where r: "reply_of example_subnets 7 ?req (IPAddress_u 1) r"
    by (auto simp: reply_of_def create_dhcp_nak_eq example_subnets_def)
  have c: "canonical ?req"
    by (rule canonicalI(1) [where opts = "[]"]) (simp_all add: wf_header_def DHCP_Packet_new_def)
  show ?thesis using reply_fits_buffer [OF r c, of "replicate DHCP_MAX_MTU 0"] r by auto
qed

text \<open>Addresses outside every configured subnet: \<open>create_dhcp_offer\<close> raises (the exception
  that ends the server), while \<open>create_dhcp_ack\<close> and \<open>create_dhcp_ack2\<close> return null exactly
  then; a NAK never depends on the address.\<close>

theorem replies_outside_subnets:
  "((\<exists>text. create_dhcp_offer sn junk request ip = Inl (DHCP_PacketException text))
      \<longleftrightarrow> mysubnet sn ip = None)
   \<and> (create_dhcp_ack sn junk request ip = Inr None \<longleftrightarrow> mysubnet sn ip = None)
   \<and> (create_dhcp_ack2 sn junk request ip = Inr None \<longleftrightarrow> mysubnet sn ip = None)
   \<and> create_dhcp_nak sn request ip = create_dhcp_nak sn request ip'"
  by (auto simp: create_dhcp_offer_def create_dhcp_ack_def create_dhcp_ack2_def create_dhcp_nak_def
      bindR_eq_Inl Let_def simp del: put_options.simps split: option.splits)

end
