(* ===== verification/DhcpNet.thy ===== *)
theory DhcpNet
  imports Netinet DhcpReplies IpAllocator
begin

text \<open>
  \<open>src/src/dhcp/dhcp_net.h\<close> and \<open>dhcp_net.cxx\<close>: opening the sockets, receiving and sending
  frames, and the message loop.

  libpcap and the socket calls are parameters (\<open>net_api\<close>): opening returns a handle or an error
  text; the hardware address is read with \<open>ioctl\<close>, as in a build for Linux. What \<open>pcap_next\<close> delivers over time is a list of captured frames with their length on
  the wire, \<open>None\<close> for a timeout; when the list is used up the server waits. Sent datagrams are
  recorded in order; a failing send is only reported to the log by the source. The verbosity of
  the logger decides whether packets are dumped.
\<close>

section \<open>Opening\<close>

record ('h, 'k) net_api =
  pcap_lookupdev :: "string + string"
  pcap_open_live :: "string \<Rightarrow> bool \<Rightarrow> nat \<Rightarrow> string + 'h"
  pcap_compile :: "'h \<Rightarrow> string \<Rightarrow> bool"
  pcap_setfilter :: "'h \<Rightarrow> string \<Rightarrow> bool"
  pcap_geterr :: "'h \<Rightarrow> string"
  sock_udp :: "string + 'k"
  sock_bind :: "'k \<Rightarrow> u16 \<Rightarrow> u32 \<Rightarrow> string option"
  sock_raw :: "string option"
  ioctl_hwaddr :: "string \<Rightarrow> string + bytes"

record ('h, 'k) DHCP_Net =
  lstn_socket :: 'h
  bcast_socket :: 'h
  comm_socket :: 'k
  hw_header :: s3_eth
  my_ip :: u32

definition device_name :: "('h, 'k) net_api \<Rightarrow> string option \<Rightarrow> string res" where
  "device_name api dev_name =
     (case dev_name of
        Some d \<Rightarrow> Inr d
      | None \<Rightarrow> (case pcap_lookupdev api of
          Inl err \<Rightarrow> Inl (DHCP_NetException (''Can't find default device - '' @ err))
        | Inr d \<Rightarrow> Inr d))"

definition open_live :: "('h, 'k) net_api \<Rightarrow> string \<Rightarrow> bool \<Rightarrow> nat \<Rightarrow> 'h res" where
  "open_live api dev promisc timeout =
     (case pcap_open_live api dev promisc timeout of
        Inl err \<Rightarrow> Inl (DHCP_NetException (''Can't open device '' @ dev @ '' - '' @ err))
      | Inr h \<Rightarrow> Inr h)"

definition filter_exp :: string where
  "filter_exp = ''udp dst port 67''"

definition open_listening_socket :: "('h, 'k) net_api \<Rightarrow> string option \<Rightarrow> 'h res" where
  "open_listening_socket api dev_name =
     bindR (device_name api dev_name) (\<lambda>dev.
     bindR (open_live api dev True 1000) (\<lambda>handle.
     if \<not> pcap_compile api handle filter_exp
     then Inl (DHCP_NetException (''Couldn't compile filter exp '' @ filter_exp @ '' - '' @ pcap_geterr api handle))
     else if \<not> pcap_setfilter api handle filter_exp
     then Inl (DHCP_NetException (''Couldn't install filter '' @ filter_exp @ '': '' @ pcap_geterr api handle))
     else Inr handle))"

definition open_broadcast_socket :: "('h, 'k) net_api \<Rightarrow> string option \<Rightarrow> 'h res" where
  "open_broadcast_socket api dev_name =
     bindR (device_name api dev_name) (\<lambda>dev. open_live api dev False 0)"

text \<open>\<open>INADDR_ANY\<close> is 0; the bind argument is in network byte order.\<close>

definition open_communication_socket :: "('h, 'k) net_api \<Rightarrow> string \<Rightarrow> bool \<Rightarrow> 'k res" where
  "open_communication_socket api src_ip_addr bind_to_address =
     (case sock_udp api of
        Inl err \<Rightarrow> Inl (DHCP_NetException (''Can't open communication socket '' @ err))
      | Inr sock \<Rightarrow>
          if bind_to_address then
            (case sock_bind api sock (htons DHCP_SERVER_PORT) (htonl 0) of
               Some err \<Rightarrow> Inl (DHCP_NetException (''Can't bind communication socket to '' @ src_ip_addr @ '' ('' @ err @ '')''))
             | None \<Rightarrow> Inr sock)
          else Inr sock)"

text \<open>The variant with \<open>ioctl\<close>: the name is cut to the 15 characters of \<open>ifr_name\<close>.\<close>

definition build_ethernet_header :: "('h, 'k) net_api \<Rightarrow> string \<Rightarrow> s3_eth res" where
  "build_ethernet_header api dev_name =
     (case sock_raw api of
        Some err \<Rightarrow> Inl (DHCP_NetException (''Can't open IOCTL socket '' @ err))
      | None \<Rightarrow>
          (case ioctl_hwaddr api (take 15 dev_name) of
             Inl err \<Rightarrow> Inl (DHCP_NetException (''Can't get hw address for '' @ dev_name @ '' '' @ err))
           | Inr mac \<Rightarrow>
               bindR (read_range mac 0 6) (\<lambda>shost.
               Inr \<lparr>eth_dhost = replicate 6 0xFF, eth_shost = shost, eth_type = htons 0x0800\<rparr>)))"

definition net_initialize :: "('h, 'k) net_api \<Rightarrow> string \<Rightarrow> string \<Rightarrow> bool \<Rightarrow> ('h, 'k) DHCP_Net res" where
  "net_initialize api dev_name src_ip_addr bind_to_address =
     bindR (open_listening_socket api (Some dev_name)) (\<lambda>v_lstn.
     bindR (open_broadcast_socket api (Some dev_name)) (\<lambda>v_bcast.
     bindR (open_communication_socket api src_ip_addr bind_to_address) (\<lambda>v_comm.
     bindR (ip_s2u src_ip_addr) (\<lambda>v_ip.
     bindR (build_ethernet_header api dev_name) (\<lambda>hw.
     Inr \<lparr>lstn_socket = v_lstn, bcast_socket = v_bcast, comm_socket = v_comm, hw_header = hw, my_ip = v_ip\<rparr>)))))"

datatype ('h, 'k) closing = Close_pcap 'h | Close_socket 'k

definition net_shutdown :: "('h, 'k) DHCP_Net \<Rightarrow> ('h, 'k) closing list" where
  "net_shutdown net = [Close_pcap (lstn_socket net), Close_pcap (bcast_socket net), Close_socket (comm_socket net)]"

section \<open>Frames\<close>

type_synonym capture = "(bytes \<times> u32) option"

text \<open>
  A captured frame may be shorter than its length on the wire, which pcap gives as 32 unsigned bits.
  The header size is read from the frame before its length is checked. The size of the payload is an
  \<open>int\<close>: it is negative for a length from 2^31 on, passes the check against \<open>maxlen\<close>, and \<open>memcpy\<close> is
  called with it.
\<close>

fun recv_packet :: "capture list \<Rightarrow> bytes \<Rightarrow> nat \<Rightarrow> (nat \<times> bytes \<times> capture list) option res" where
  "recv_packet [] buf maxlen = Inr None"
| "recv_packet (None # caps) buf maxlen = recv_packet caps buf maxlen"
| "recv_packet (Some (packet, len) # caps) buf maxlen =
     bindR (read_at packet 14) (\<lambda>b.
     let pkt_header_size = 14 + IP_HEADER_SIZE b + 8 in
     if unat len < pkt_header_size then recv_packet caps buf maxlen
     else
       let udp_packet_size = sint (len - of_nat pkt_header_size) in
       if udp_packet_size > int maxlen then recv_packet caps buf maxlen
       else if udp_packet_size < 0 then Inl MemFault
       else
         bindR (read_range packet pkt_header_size (nat udp_packet_size)) (\<lambda>payload.
         bindR (write_range buf 0 payload) (\<lambda>buf'.
         Inr (Some (nat udp_packet_size, buf', caps)))))"

lemma payload_size:
  fixes len :: u32
  assumes "h \<le> unat len" and "0 \<le> sint (len - of_nat h)"
  shows "nat (sint (len - of_nat h)) = unat len - h" and "sint (len - of_nat h) = int (unat len - h)"
proof -
  have h: "unat (of_nat h :: u32) = h"
    using assms(1) unsigned_less [of len, where ?'a = nat] by (simp add: unat_of_nat)
  have "sint (len - of_nat h) < 2 ^ 32" using sint_lt [of "len - of_nat h"] by simp
  then have "sint (len - of_nat h) = uint (len - of_nat h)"
    using assms(2) by (simp add: uint_sint take_bit_int_eq_self)
  also have "\<dots> = int (unat len - h)"
  proof -
    have "(of_nat h :: u32) \<le> len" using assms(1) h by (simp only: word_le_nat_alt)
    from unat_sub [OF this] h have "unat (len - of_nat h) = unat len - h" by simp
    then have "int (unat (len - of_nat h)) = int (unat len - h)" by simp
    then show ?thesis by simp
  qed
  finally show "sint (len - of_nat h) = int (unat len - h)" .
  then show "nat (sint (len - of_nat h)) = unat len - h" by simp
qed

lemma recv_packet_frame:
  assumes "packet ! 14 = b" and "unat len = 22 + IP_HEADER_SIZE b + n" and "unat len \<le> length packet"
    and "n < 2 ^ 31" and "n \<le> maxlen" and "n \<le> length buf"
  shows "recv_packet (Some (packet, len) # caps) buf maxlen
    = Inr (Some (n, take n (drop (22 + IP_HEADER_SIZE b) packet) @ drop n buf, caps))"
proof -
  have "len - of_nat (22 + IP_HEADER_SIZE b) = of_nat n"
    using assms(2) by (metis add_diff_cancel_left' of_nat_add of_nat_unat ucast_id)
  moreover have "sint (of_nat n :: u32) = int n"
    using assms(4) by (simp add: signed_of_nat signed_take_bit_int_eq_self)
  ultimately show ?thesis using assms by (simp add: Let_def del: of_nat_add)
qed

definition broadcast_headers :: "u32 \<Rightarrow> nat \<Rightarrow> s3_ip \<times> s3_udphdr" where
  "broadcast_headers src data_len =
     (let hdr_len = 14 + 20 + 8; pkt_len = data_len + hdr_len in
      (\<lparr>ip_hl = 5, ip_v = 4, ip_tos = 16, ip_len = htons (of_nat (pkt_len - 14)), ip_id = 0,
        ip_off = htons 0x4000, ip_ttl = 16, ip_p = 17, ip_sum = 0, ip_src = src, ip_dst = htonl 0xFFFFFFFF\<rparr>,
       \<lparr>uh_sport = htons DHCP_SERVER_PORT, uh_dport = htons DHCP_CLIENT_PORT,
        uh_ulen = htons (of_nat (8 + data_len)), uh_sum = 0\<rparr>))"

definition broadcast_frame :: "s3_eth \<Rightarrow> u32 \<Rightarrow> bytes \<Rightarrow> bytes res" where
  "broadcast_frame hw src data =
     (let (ip, udp) = broadcast_headers src (length data) in
      bindR (write_fields (replicate (length data + 42) 0)
               [(0, eth_bytes hw), (14, ip_bytes ip), (34, udp_bytes udp), (42, data)]) (\<lambda>pkt.
      bindR (read_range pkt 14 20) (\<lambda>iph.
      bindR (ip_checksum iph 20 0) (\<lambda>acc.
      write_range pkt 24 (le_bytes 2 (ucast (ip_wrapsum acc) :: u16))))))"

section \<open>The message loop\<close>

datatype net_event =
    Broadcast bytes
  | Unicast u32 u16 bytes

record net_cfg =
  cfg_verbosity :: int
  cfg_hw :: s3_eth
  cfg_ip :: u32

record 'd server =
  alloc :: "'d alloc_state"
  message_buf :: bytes
  sent :: "net_event list"

definition on_alloc :: "('d alloc_state, 'a) proc \<Rightarrow> ('d server, 'a) proc" where
  "on_alloc m = (\<lambda>s. case m (alloc s) of (r, a) \<Rightarrow> (r, s\<lparr>alloc := a\<rparr>))"

definition send_broadcast_packet :: "net_cfg \<Rightarrow> bytes \<Rightarrow> ('d server, unit) proc" where
  "send_broadcast_packet cfg data =
     bindP (liftP (broadcast_frame (cfg_hw cfg) (cfg_ip cfg) data)) (\<lambda>pkt.
     bindP (liftP (print_packet pkt (length pkt))) (\<lambda>_.
     modifyP (\<lambda>s. s\<lparr>sent := sent s @ [Broadcast pkt]\<rparr>)))"

definition send_packet :: "u32 \<Rightarrow> bytes \<Rightarrow> ('d server, unit) proc" where
  "send_packet to_addr data =
     modifyP (\<lambda>s. s\<lparr>sent := sent s @ [Unicast to_addr (htons DHCP_CLIENT_PORT) data]\<rparr>)"

text \<open>The \<open>switch\<close> over the message type.\<close>

definition dispatch ::
    "alloc_env \<Rightarrow> 'd alloc_vtable \<Rightarrow> u32 \<Rightarrow> DHCP_Packet \<Rightarrow> int \<Rightarrow> ('d server, DHCP_Packet option) proc" where
  "dispatch env vt junk request mt =
     (let sn = env_subnets env in
      if mt = uint (msg_code DHCP_DISCOVER) then
        bindP (on_alloc (ip_alloc env vt (pkt_mac request))) (\<lambda>r.
        case r of
          Some ip_addr \<Rightarrow> bindP (liftP (create_dhcp_offer sn junk request ip_addr)) (\<lambda>p. retP (Some p))
        | None \<Rightarrow> bindP (liftP (create_dhcp_nak sn request IPAddress_none)) (\<lambda>p. retP (Some p)))
      else if mt = uint (msg_code DHCP_RELEASE) then
        bindP (on_alloc (ip_free env (pkt_mac request) (pkt_ip request))) (\<lambda>_. retP None)
      else if mt = uint (msg_code DHCP_INFORM) then
        bindP (liftP (get_requested_address request)) (\<lambda>ip.
        liftP (create_dhcp_ack2 sn junk request ip))
      else if mt = uint (msg_code DHCP_REQUEST) then
        bindP (liftP (get_requested_address request)) (\<lambda>ip.
        bindP (on_alloc (ip_check env vt (pkt_mac request) ip)) (\<lambda>ok.
        if ok then liftP (create_dhcp_ack sn junk request ip)
        else bindP (liftP (create_dhcp_nak sn request ip)) (\<lambda>p. retP (Some p))))
      else if mt = uint (msg_code DHCP_DECLINE) then
        bindP (on_alloc (ip_invalidate vt (pkt_mac request) (pkt_ip request))) (\<lambda>_. retP None)
      else retP None)"

text \<open>Sending the response: in packet debug mode it is dumped first.\<close>

definition dump_if :: "net_cfg \<Rightarrow> DHCP_Packet \<Rightarrow> ('d server, unit) proc" where
  "dump_if cfg pkt =
     (if cfg_verbosity cfg > 4
      then bindP (liftP (pkt_msgtype_name pkt)) (\<lambda>_. bindP (liftP (packet_dump pkt)) (\<lambda>_. retP ()))
      else retP ())"

definition respond :: "net_cfg \<Rightarrow> DHCP_Packet \<Rightarrow> DHCP_Packet \<Rightarrow> ('d server, unit) proc" where
  "respond cfg request response =
     bindP (dump_if cfg response) (\<lambda>_.
     bindP (getP message_buf) (\<lambda>buf.
     bindP (liftP (unmarshall response buf)) (\<lambda>(buf', message_length).
     bindP (modifyP (\<lambda>s. s\<lparr>message_buf := buf'\<rparr>)) (\<lambda>_.
     if get_ciaddr response = 0
     then send_broadcast_packet cfg (take message_length buf')
     else send_packet (ip_u_addr (pkt_ip request)) (take message_length buf')))))"

definition serve ::
    "net_cfg \<Rightarrow> alloc_env \<Rightarrow> 'd alloc_vtable \<Rightarrow> u32 \<Rightarrow> nat \<Rightarrow> ('d server, unit) proc" where
  "serve cfg env vt junk message_length =
     bindP (getP message_buf) (\<lambda>buf.
     if message_length < BOOTP_ABSOLUTE_MIN_LEN then retP ()
     else
       bindP (liftP (check_magic_cookie buf (int message_length))) (\<lambda>ok.
       if \<not> ok then retP ()
       else
         bindP (liftP (parse_request buf (int message_length))) (\<lambda>request.
         bindP (liftP (get_message_type request)) (\<lambda>mt.
         bindP (dump_if cfg request) (\<lambda>_.
         bindP (dispatch env vt junk request mt) (\<lambda>response.
         case response of
           None \<Rightarrow> retP ()
         | Some r \<Rightarrow> respond cfg request r))))))"

definition clear_buf :: "net_cfg \<Rightarrow> 'd server \<Rightarrow> 'd server" where
  "clear_buf cfg s = (if cfg_verbosity cfg > 4 then s\<lparr>message_buf := replicate DHCP_MAX_MTU 0\<rparr> else s)"

lemma recv_packet_consumes:
  "recv_packet caps buf maxlen = Inr (Some (n, buf', rest)) \<Longrightarrow> length rest < length caps"
proof (induction caps)
  case (Cons c caps)
  then show ?case by (cases c) (auto simp: Let_def split: if_splits)
qed simp

text \<open>\<open>junk k\<close> is the heap content met by the \<open>k\<close>-th message.\<close>

function main_loop ::
    "net_cfg \<Rightarrow> alloc_env \<Rightarrow> 'd alloc_vtable \<Rightarrow> (nat \<Rightarrow> u32) \<Rightarrow> nat \<Rightarrow> capture list \<Rightarrow> 'd server \<Rightarrow> unit res \<times> 'd server" where
  "main_loop cfg env vt junk k caps s =
     (let s0 = clear_buf cfg s in
      case recv_packet caps (message_buf s0) DHCP_MAX_MTU of
        Inl e \<Rightarrow> (Inl e, s0)
      | Inr None \<Rightarrow> (Inr (), s0)
      | Inr (Some (n, buf, rest)) \<Rightarrow>
          (case serve cfg env vt (junk k) n (s0\<lparr>message_buf := buf\<rparr>) of
             (Inl e, t) \<Rightarrow> (Inl e, t)
           | (Inr _, t) \<Rightarrow> main_loop cfg env vt junk (Suc k) rest t))"
  by pat_completeness auto
termination
  by (relation "measure (\<lambda>(_, _, _, _, _, caps, _). length caps)") (auto dest: recv_packet_consumes)

declare main_loop.simps [simp del]

end
