(* ===== verification/Startup.thy ===== *)
theory Startup
  imports CommandLine DaemonProps Log SmartException SubnetsLoad PfTable Radius MemEngine DhcpNet
begin

text \<open>
  \<open>main\<close> of \<open>src/src/main.cxx\<close>, which starts the parts in order and serves until an exception ends
  the program, and the factory of \<open>src/src/alloc/ipallocator.cxx\<close>.

  The static members of the classes are the fields of one state (\<open>s3dhcpd\<close>); what the program
  meets outside, the fields of \<open>world\<close>: files and environment, the system calls, pcap and sockets,
  the packet filter, SQLite with its database files, the clock, and the frames captured so far. As
  the loop of the server never ends by itself, \<open>main\<close> that still serves after those frames is
  \<open>Returned ()\<close>; \<open>return\<close> and \<open>exit\<close> are \<open>Exited\<close>. Both optional parts (RADIUS accounting and the
  packet filter) are compiled in. Calls of the log inside the parts are not repeated here.
\<close>

section \<open>State\<close>

record ('h, 'k, 'd, 'st, 'q, 'r) world =
  w_version :: string
  w_rc :: rc_env
  w_form :: form_env
  w_time :: string
  w_open :: "string \<Rightarrow> bool"
  w_os :: os_env
  w_net :: "('h, 'k) net_api"
  w_radius_socket :: "string + 'r"
  w_pf :: "'q pf_api"
  w_sql :: "('d, 'st) sqlite_api"
  w_databases :: "string \<rightharpoonup> 'd"
  w_rows :: nat
  w_clock :: "nat \<Rightarrow> u32"
  w_captures :: "capture list"
  w_stack :: bytes
  w_heap :: "nat \<Rightarrow> u32"

record ('h, 'k, 'd, 'q, 'r) s3dhcpd =
  g_process :: process
  g_log :: dsLog
  g_rc :: dsApprc
  g_subnets :: Subnets
  g_net :: "('h, 'k) DHCP_Net option"
  g_radius :: "'r RADIUS_Net option"
  g_pf :: "'q PFTable"
  g_allocator :: "'d alloc_state option"
  g_server :: "'d server option"
  g_stderr :: "exn list"

text \<open>The message that \<open>msg\<close> of an exception returns.\<close>

fun exn_msg :: "exn \<Rightarrow> string" where
  "exn_msg (KeyException m) = m"
| "exn_msg (INIException m) = m"
| "exn_msg (HashTableException m) = m"
| "exn_msg (SlightFunctionException m) = m"
| "exn_msg (GetoptException m) = m"
| "exn_msg (LogException m) = m"
| "exn_msg (SubnetException m) = m"
| "exn_msg (IPAllocatorException m) = m"
| "exn_msg (DHCP_PacketException m) = m"
| "exn_msg (DHCP_NetException m) = m"
| "exn_msg (NetException m) = m"
| "exn_msg (PFException m) = m"
| "exn_msg (DaemonException m) = m"
| "exn_msg _ = []"

definition on_log :: "('h, 'k, 'd, 'st, 'q, 'r) world \<Rightarrow> (log_env \<Rightarrow> (dsLog, 'a) proc) \<Rightarrow> (('h, 'k, 'd, 'q, 'r) s3dhcpd, 'a) prog" where
  "on_log w m = (\<lambda>s.
     case m \<lparr>le_form = w_form w, le_time = w_time w, le_rc = g_rc s, le_open = w_open w\<rparr> (g_log s) of
       (r, l) \<Rightarrow> liftG r (s\<lparr>g_log := l\<rparr>))"

definition on_process :: "(process, 'a) prog \<Rightarrow> (('h, 'k, 'd, 'q, 'r) s3dhcpd, 'a) prog" where
  "on_process m = (\<lambda>s. map_option (\<lambda>(r, u). (r, s\<lparr>g_process := u\<rparr>)) (m (g_process s)))"

definition from_rc :: "(dsApprc \<Rightarrow> 'a res) \<Rightarrow> (('h, 'k, 'd, 'q, 'r) s3dhcpd, 'a) prog" where
  "from_rc f = bindG (getG g_rc) (\<lambda>rc. liftG (f rc))"

section \<open>The allocator's factory\<close>

definition the_alloc_env :: "('h, 'k, 'd, 'st, 'q, 'r) world \<Rightarrow> ('h, 'k, 'd, 'q, 'r) s3dhcpd \<Rightarrow> alloc_env" where
  "the_alloc_env w s =
     \<lparr>env_subnets = g_subnets s, pf_enabled = pf_active (g_pf s),
      rad_enabled = (case g_radius s of None \<Rightarrow> False | Some r \<Rightarrow> net_enabled r),
      env_getstring = rc_seek (g_rc s),
      env_getbool = (\<lambda>key def. bindR (getbool_default (g_rc s) key (def \<noteq> 0)) (\<lambda>b. Inr (if b then 1 else 0))),
      env_require = getstring (g_rc s), env_has_key = has_key (g_rc s), env_clock = w_clock w\<rparr>"

definition new_IPAllocatorSQL :: "('h, 'k, 'd, 'st, 'q, 'r) world \<Rightarrow> (('h, 'k, 'd, 'q, 'r) s3dhcpd, 'd alloc_state) prog" where
  "new_IPAllocatorSQL w = (\<lambda>s. liftG (prepare_databases (the_alloc_env w s) (w_rows w) (w_sql w) (w_databases w)) s)"

definition allocator_initialize :: "('h, 'k, 'd, 'st, 'q, 'r) world \<Rightarrow> (('h, 'k, 'd, 'q, 'r) s3dhcpd, unit) prog" where
  "allocator_initialize w =
     bindG (getG g_allocator) (\<lambda>current.
     if current = None
     then bindG (new_IPAllocatorSQL w) (\<lambda>a. modifyG (\<lambda>s. s\<lparr>g_allocator := Some a\<rparr>))
     else retG ())"

definition get_allocator :: "('h, 'k, 'd, 'st, 'q, 'r) world \<Rightarrow> (('h, 'k, 'd, 'q, 'r) s3dhcpd, 'd alloc_state) prog" where
  "get_allocator w =
     bindG (allocator_initialize w) (\<lambda>_.
     bindG (getG g_allocator) (\<lambda>current. liftG (deref current)))"

text \<open>\<open>shutdown\<close> deletes the object that is returned here, if there is one, and leaves the pointer as it is.\<close>

definition allocator_shutdown :: "(('h, 'k, 'd, 'q, 'r) s3dhcpd, 'd alloc_state option) prog" where
  "allocator_shutdown = getG g_allocator"

section \<open>Starting the parts\<close>

definition load_config :: "('h, 'k, 'd, 'st, 'q, 'r) world \<Rightarrow> string \<Rightarrow> (('h, 'k, 'd, 'q, 'r) s3dhcpd, unit) prog" where
  "load_config w config_file =
     bindG (from_rc (\<lambda>rc. load_file (w_rc w) rc config_file)) (\<lambda>rc. modifyG (\<lambda>s. s\<lparr>g_rc := rc\<rparr>))"

definition start_log :: "('h, 'k, 'd, 'st, 'q, 'r) world \<Rightarrow> string \<Rightarrow> bool \<Rightarrow> (('h, 'k, 'd, 'q, 'r) s3dhcpd, unit) prog" where
  "start_log w interface_name daemonise =
     bindG (from_rc (\<lambda>rc. getstring_default rc ''log-filename'' ''cerr'')) (\<lambda>logname.
     let progname = ''s3dhcpd_'' @ interface_name in
     bindG (on_log w (\<lambda>le. log_print le (''%s'' @ [CHR 0x0A]) [VStr (Some (w_version w))])) (\<lambda>_.
     bindG (on_log w (\<lambda>le. log_print le ''As %s. See %s'' [VStr (Some progname), VStr (Some logname)])) (\<lambda>_.
     bindG (if daemonise then on_process (daemonize (w_os w) progname 0) else retG ()) (\<lambda>_.
     bindG (on_log w (\<lambda>le. set_output le logname)) (\<lambda>_.
     on_log w (\<lambda>le. push_component le ''init''))))))"

definition start_subnets :: "(('h, 'k, 'd, 'q, 'r) s3dhcpd, unit) prog" where
  "start_subnets =
     bindG (getG g_subnets) (\<lambda>sn.
     bindG (from_rc (\<lambda>rc. subnets_load rc sn)) (\<lambda>(rc, sn). modifyG (\<lambda>s. s\<lparr>g_rc := rc, g_subnets := sn\<rparr>)))"

definition start_net :: "('h, 'k, 'd, 'st, 'q, 'r) world \<Rightarrow> string \<Rightarrow> (('h, 'k, 'd, 'q, 'r) s3dhcpd, unit) prog" where
  "start_net w interface_name =
     bindG (from_rc (\<lambda>rc. getstring rc ''global-server-addr'')) (\<lambda>server_addr.
     bindG (from_rc (\<lambda>rc. getbool_default rc ''global-bind-to-address'' False)) (\<lambda>bind_to_address.
     bindG (liftG (net_initialize (w_net w) interface_name server_addr bind_to_address)) (\<lambda>net.
     modifyG (\<lambda>s. s\<lparr>g_net := Some net\<rparr>))))"

abbreviation (input) RADIUS_ACCT_PORT :: int where "RADIUS_ACCT_PORT \<equiv> 1813"

definition start_radius :: "('h, 'k, 'd, 'st, 'q, 'r) world \<Rightarrow> (('h, 'k, 'd, 'q, 'r) s3dhcpd, unit) prog" where
  "start_radius w =
     bindG (from_rc (\<lambda>rc. getbool_default rc ''radius-enabled'' False)) (\<lambda>enabled.
     if \<not> enabled then retG ()
     else
       bindG (from_rc (\<lambda>rc. getstring rc ''radius-server-addr'')) (\<lambda>server.
       bindG (from_rc (\<lambda>rc. getstring rc ''radius-auth-salt'')) (\<lambda>salt.
       bindG (from_rc (\<lambda>rc. getint_default rc ''radius-server-port'' RADIUS_ACCT_PORT)) (\<lambda>port.
       bindG (liftG (rad_initialize (w_radius_socket w) server port salt)) (\<lambda>net.
       modifyG (\<lambda>s. s\<lparr>g_radius := Some net\<rparr>))))))"

definition start_pf :: "('h, 'k, 'd, 'st, 'q, 'r) world \<Rightarrow> (('h, 'k, 'd, 'q, 'r) s3dhcpd, unit) prog" where
  "start_pf w =
     bindG (from_rc (\<lambda>rc. getbool_default rc ''pf-enabled'' False)) (\<lambda>enabled.
     if \<not> enabled then retG ()
     else
       bindG (from_rc (\<lambda>rc. getstring rc ''pf-device'')) (\<lambda>dev.
       bindG (from_rc (\<lambda>rc. getstring rc ''pf-default-table'')) (\<lambda>tname.
       bindG (getG g_pf) (\<lambda>pf.
       bindG (liftG (pf_initialize (w_pf w) dev tname pf)) (\<lambda>pf.
       modifyG (\<lambda>s. s\<lparr>g_pf := pf\<rparr>))))))"

text \<open>The parts of \<open>DHCP_Net::main_loop\<close> around its loop: the scope of the log and the buffer on the stack.\<close>

definition serve_clients :: "('h, 'k, 'd, 'st, 'q, 'r) world \<Rightarrow> (('h, 'k, 'd, 'q, 'r) s3dhcpd, unit) prog" where
  "serve_clients w =
     bindG (on_log w (\<lambda>le. push_component le ''net'')) (\<lambda>_.
     bindG (getG g_net) (\<lambda>net.
     bindG (liftG (deref net)) (\<lambda>net.
     bindG (get_allocator w) (\<lambda>a.
     bindG (\<lambda>s.
       case main_loop \<lparr>cfg_verbosity = log_verbosity (g_log s), cfg_hw = hw_header net, cfg_ip = my_ip net\<rparr>
              (the_alloc_env w s) (sql_vtable (the_alloc_env w s) (w_sql w)) (w_heap w) 0 (w_captures w)
              \<lparr>alloc = a, message_buf = w_stack w, sent = []\<rparr> of
         (r, t) \<Rightarrow> Some (Returned r, s\<lparr>g_server := Some t, g_allocator := Some (alloc t)\<rparr>)) (\<lambda>r.
     case r of
       Inr _ \<Rightarrow> retG ()
     | Inl e \<Rightarrow> bindG (on_log w pop_component) (\<lambda>_. throwG e))))))"

definition run_server :: "('h, 'k, 'd, 'st, 'q, 'r) world \<Rightarrow> string \<Rightarrow> bool \<Rightarrow> (('h, 'k, 'd, 'q, 'r) s3dhcpd, unit) prog" where
  "run_server w interface_name daemonise =
     bindG (start_log w interface_name daemonise) (\<lambda>_.
     bindG start_subnets (\<lambda>_.
     bindG (start_net w interface_name) (\<lambda>_.
     bindG (start_radius w) (\<lambda>_.
     bindG (start_pf w) (\<lambda>_.
     bindG (allocator_initialize w) (\<lambda>_.
     bindG (on_log w (\<lambda>le. log_print le ''*** Server initilization done.'' [])) (\<lambda>_.
     bindG (on_log w pop_component) (\<lambda>_. serve_clients w))))))))"

text \<open>The handler of \<open>main\<close>: the exception is logged, and printed unless in the background.\<close>

definition fatal :: "('h, 'k, 'd, 'st, 'q, 'r) world \<Rightarrow> bool \<Rightarrow> exn \<Rightarrow> (('h, 'k, 'd, 'q, 'r) s3dhcpd, unit) prog" where
  "fatal w daemonise e =
     bindG (on_log w (\<lambda>le. log_print le ''FATAL %s'' [VStr (Some (exn_msg e))])) (\<lambda>_.
     bindG (on_log w (\<lambda>le. log_print le ''** Shutting down !!!'' [])) (\<lambda>_.
     bindG (modifyG (\<lambda>s. if daemonise then s else s\<lparr>g_stderr := g_stderr s @ [e]\<rparr>)) (\<lambda>_.
     exitG 1)))"

definition s3dhcpd_main :: "('h, 'k, 'd, 'st, 'q, 'r) world \<Rightarrow> string list \<Rightarrow> (('h, 'k, 'd, 'q, 'r) s3dhcpd, unit) prog" where
  "s3dhcpd_main w argv =
     bindG (\<lambda>s. Some (command_line argv, s)) (\<lambda>opts.
     case opt_config opts of
       None \<Rightarrow> bindG (on_log w (\<lambda>le. log_error le ''No config file specified. Exiting'' [])) (\<lambda>_. exitG 7)
     | Some config_file \<Rightarrow>
         (case opt_interface opts of
            None \<Rightarrow> bindG (on_log w (\<lambda>le. log_error le ''No interface specified. Exiting'' [])) (\<lambda>_. exitG 7)
          | Some interface_name \<Rightarrow>
              catchG
                (bindG (load_config w config_file) (\<lambda>_. run_server w interface_name (opt_daemonise opts)))
                (fatal w (opt_daemonise opts))))"

end
