(* ===== verification/NetFrames.thy ===== *)
theory NetFrames
  imports DhcpNet
begin

text \<open>
  Frames on the wire: what \<open>recv_packet\<close> hands to the server is exactly the UDP payload of one
  captured frame, and what \<open>send_broadcast_packet\<close> injects is a complete Ethernet/IP/UDP frame
  that a receiver accepts and reads back.
\<close>

section \<open>Receiving\<close>

text \<open>A frame that the loop of \<open>recv_packet\<close> drops.\<close>

definition dropped :: "nat \<Rightarrow> capture \<Rightarrow> bool" where
  "dropped maxlen c \<longleftrightarrow>
     (case c of None \<Rightarrow> True
      | Some (packet, len) \<Rightarrow> 14 < length packet
          \<and> (let hdr = 22 + IP_HEADER_SIZE (packet ! 14) in unat len < hdr \<or> int maxlen < sint (len - of_nat hdr)))"

definition delivers :: "bytes \<Rightarrow> u32 \<Rightarrow> bytes \<Rightarrow> nat \<Rightarrow> bytes \<Rightarrow> bool" where
  "delivers packet len buf n buf' \<longleftrightarrow> 14 < length packet
     \<and> (let hdr = 22 + IP_HEADER_SIZE (packet ! 14) in
        unat len = hdr + n \<and> unat len \<le> length packet \<and> n \<le> length buf
        \<and> buf' = take n (drop hdr packet) @ drop n buf)"

lemma recv_packet_Some:
  "recv_packet caps buf maxlen = Inr (Some (n, buf', rest)) \<Longrightarrow>
     \<exists>lost packet len. caps = lost @ Some (packet, len) # rest \<and> list_all (dropped maxlen) lost
       \<and> n \<le> maxlen \<and> delivers packet len buf n buf'"
proof (induction caps)
  case (Cons c caps)
  show ?case
  proof (cases "recv_packet caps buf maxlen = Inr (Some (n, buf', rest)) \<and> dropped maxlen c")
    case True
    with Cons.IH obtain lost packet len where "caps = lost @ Some (packet, len) # rest"
      "list_all (dropped maxlen) lost" "n \<le> maxlen" "delivers packet len buf n buf'" by blast
    with True show ?thesis by (intro exI [of _ "c # lost"]) auto
  next
    case False
    with Cons.prems obtain packet len where c: "c = Some (packet, len)"
      by (cases c) (auto simp: dropped_def)
    with False Cons.prems payload_size [of "22 + IP_HEADER_SIZE (packet ! 14)" len]
    have "caps = rest" "n \<le> maxlen" "delivers packet len buf n buf'"
      by (auto simp: dropped_def delivers_def Let_def read_at_def read_range_def write_range_def min_absorb2 diff_le_mono
          split: if_splits)
    with c show ?thesis by (intro exI [of _ "[]"] exI [of _ packet] exI [of _ len]) simp
  qed
qed simp

lemma recv_packet_length:
  "recv_packet caps buf maxlen = Inr (Some (n, buf', rest)) \<Longrightarrow> n \<le> maxlen \<and> length buf' = length buf"
  by (drule recv_packet_Some) (auto simp: delivers_def Let_def)

text \<open>What the server receives: \<open>recv_packet\<close> returns the payload of the first captured frame
  that is long enough for its headers and whose payload fits the buffer; the length it reports
  is that of the payload, the payload is at the start of the buffer and the rest of the buffer
  is as before.\<close>

theorem recv_packet_payload:
  assumes "recv_packet caps buf maxlen = Inr (Some (n, buf', rest))"
  shows "\<exists>lost packet len. caps = lost @ Some (packet, len) # rest \<and> list_all (dropped maxlen) lost
     \<and> n \<le> maxlen \<and> unat len = 22 + IP_HEADER_SIZE (packet ! 14) + n
     \<and> take n buf' = take n (drop (22 + IP_HEADER_SIZE (packet ! 14)) packet) \<and> drop n buf' = drop n buf
     \<and> length buf' = length buf"
proof -
  from recv_packet_Some [OF assms] obtain lost packet len where
    1: "caps = lost @ Some (packet, len) # rest" "list_all (dropped maxlen) lost" "n \<le> maxlen"
    and 2: "delivers packet len buf n buf'" by blast
  from 2 have "length (take n (drop (22 + IP_HEADER_SIZE (packet ! 14)) packet)) = n"
    by (auto simp: delivers_def Let_def)
  with 2 show ?thesis unfolding delivers_def Let_def
    by (intro exI [of _ lost] exI [of _ packet] exI [of _ len]) (simp add: 1)
qed

theorem recv_packet_payload_witness:
  "\<exists>buf'. recv_packet [None, Some (replicate 14 0 @ [0x45] @ replicate 27 0 @ [7, 8, 9], 45)] (replicate 5 1) 5
       = Inr (Some (3, buf', [])) \<and> take 3 buf' = [7, 8, 9] \<and> drop 3 buf' = [1, 1]"
proof -
  let ?p = "replicate 14 0 @ [0x45] @ replicate 27 0 @ [7, 8, 9] :: bytes"
  have h: "IP_HEADER_SIZE 0x45 = 20" by (simp add: IP_HEADER_SIZE_def)
  have r: "recv_packet [None, Some (?p, 45)] (replicate 5 1) 5 = Inr (Some (3, [7, 8, 9, 1, 1], []))"
    using recv_packet_frame [where packet = ?p and b = "0x45" and len = 45 and n = 3 and maxlen = 5 and buf = "replicate 5 1" and caps = "[]"] by (simp add: h nth_append) (simp add: numeral_eq_Suc)
  from recv_packet_payload [OF r] show ?thesis using r by auto
qed

section \<open>Sending\<close>

definition broadcast_ip :: "u32 \<Rightarrow> nat \<Rightarrow> s3_ip" where
  "broadcast_ip src n =
     (let ip = fst (broadcast_headers src n) in ip\<lparr>ip_sum := ucast (ip_wrapsum (checksum_loop (ip_bytes ip) 0))\<rparr>)"

lemma broadcast_frame_eq:
  assumes "length (eth_bytes hw) = 14"
  shows "broadcast_frame hw src data =
    Inr (eth_bytes hw @ ip_bytes (broadcast_ip src (length data)) @ udp_bytes (snd (broadcast_headers src (length data))) @ data)"
proof -
  obtain ip udp where h: "broadcast_headers src (length data) = (ip, udp)" by fastforce
  let ?fs = "[(0, eth_bytes hw), (14, ip_bytes ip), (34, udp_bytes udp), (42, data)]"
  let ?all = "eth_bytes hw @ ip_bytes ip @ udp_bytes udp @ data"
  have "write_fields (replicate (length data + 42) 0) ?fs = Inr (overlay (replicate (length data + 42) 0) 0 ?all)"
    using write_fields_contiguous [of 0 ?fs "replicate (length data + 42) 0"] assms by simp
  also have "\<dots> = Inr ?all" using assms by (simp add: overlay_def)
  finally have w: "write_fields (replicate (length data + 42) 0) ?fs = Inr ?all" .
  have sum: "ip_bytes (ip\<lparr>ip_sum := v\<rparr>) = take 10 (ip_bytes ip) @ le_bytes 2 v @ drop 12 (ip_bytes ip)" for v
    by (simp add: ip_bytes_def)
  show ?thesis
    using assms by (simp add: broadcast_frame_def h broadcast_ip_def w ip_checksum_def sum del: write_fields.simps)
qed

lemma broadcast_ip_verifies: "ip_checksum (ip_bytes (broadcast_ip src n)) 20 0 = Inr 0xFFFF"
proof -
  define h where "h = fst (broadcast_headers src n)"
  define rest where "rest = sum_list (words16 (take 10 (ip_bytes h))) + sum_list (words16 (drop 12 (ip_bytes h)))"
  have "h\<lparr>ip_sum := 0\<rparr> = h" by (simp add: h_def broadcast_headers_def Let_def)
  then show ?thesis
    using header_sum_verifies [of h "checksum_loop (ip_bytes h) 0"]
    by (simp add: broadcast_ip_def h_def broadcast_headers_def Let_def ip_checksum_def)
qed

lemma first_byte_broadcast: "ip_bytes (broadcast_ip src n) ! 0 = 0x45"
  by (simp add: ip_bytes_def broadcast_ip_def broadcast_headers_def Let_def)

lemma unat_htons_field:
  "m < 2 ^ 16 \<Longrightarrow> unat (ntohs (htons (of_nat m))) = m"
  by (simp add: unat_of_nat)

text \<open>C17 The broadcast frame. With a source address of six bytes \<open>send_broadcast_packet\<close> injects a
  frame of the data preceded by 42 bytes of headers: the Ethernet header of the server, a
  20 byte IP header from the server's address to the broadcast address with the right length
  and a checksum that verifies, and a UDP header from port 67 to port 68 with the right length.
  The server's own \<open>recv_packet\<close> reads exactly the data from such a frame.\<close>

theorem broadcast_frame_wellformed:
  assumes "length (eth_dhost hw) = 6" and "length (eth_shost hw) = 6"
    and "length data \<le> 65507" and "length data \<le> maxlen" and "length data \<le> length buf"
  shows "\<exists>pkt ip udp. broadcast_frame hw src data = Inr pkt
     \<and> pkt = eth_bytes hw @ ip_bytes ip @ udp_bytes udp @ data \<and> length pkt = length data + 42
     \<and> ip_v ip = 4 \<and> ip_hl ip = 5 \<and> ip_p ip = 17 \<and> ip_src ip = src \<and> ip_dst ip = 0xFFFFFFFF
     \<and> unat (ntohs (ip_len ip)) = length data + 28 \<and> ip_checksum (ip_bytes ip) 20 0 = Inr 0xFFFF
     \<and> ntohs (uh_sport udp) = 67 \<and> ntohs (uh_dport udp) = 68 \<and> unat (ntohs (uh_ulen udp)) = length data + 8
     \<and> recv_packet [Some (pkt, of_nat (length pkt))] buf maxlen = Inr (Some (length data, data @ drop (length data) buf, []))"
proof -
  let ?ip = "broadcast_ip src (length data)" and ?udp = "snd (broadcast_headers src (length data))"
  let ?pkt = "eth_bytes hw @ ip_bytes ?ip @ udp_bytes ?udp @ data"
  have e: "length (eth_bytes hw) = 14" using assms by (simp add: eth_bytes_def)
  have b: "?pkt ! 14 = 0x45" using e by (simp add: nth_append first_byte_broadcast)
  have h: "IP_HEADER_SIZE 0x45 = 20" by (simp add: IP_HEADER_SIZE_def)
  have 1: "recv_packet [Some (?pkt, of_nat (length ?pkt))] buf maxlen = Inr (Some (length data, data @ drop (length data) buf, []))"
    using assms e h recv_packet_frame [OF b, where len = "of_nat (length ?pkt)" and n = "length data" and maxlen = maxlen and buf = buf and caps = "[]"]
    by (simp add: unat_of_nat del: of_nat_add recv_packet.simps)
  have 2: "unat (of_nat (28 + length data) :: u16) = length data + 28" "unat (of_nat (8 + length data) :: u16) = length data + 8"
    using assms(3) by (simp_all add: unat_of_nat del: of_nat_add)
  have "swap32 0xFFFFFFFF = 0xFFFFFFFF" by code_simp
  with 2 have 3: "ip_v ?ip = 4" "ip_hl ?ip = 5" "ip_p ?ip = 17" "ip_src ?ip = src" "ip_dst ?ip = 0xFFFFFFFF"
      "unat (ntohs (ip_len ?ip)) = length data + 28" "ntohs (uh_sport ?udp) = 67" "ntohs (uh_dport ?udp) = 68"
      "unat (ntohs (uh_ulen ?udp)) = length data + 8"
    by (simp_all add: broadcast_ip_def broadcast_headers_def Let_def)
  have 4: "length ?pkt = length data + 42" using e by simp
  show ?thesis
    by (intro exI [of _ ?pkt] exI [of _ ?ip] exI [of _ ?udp] conjI broadcast_frame_eq [OF e] refl
        broadcast_ip_verifies 1 3 4)
qed

theorem broadcast_frame_wellformed_witness:
  "\<exists>pkt. broadcast_frame \<lparr>eth_dhost = replicate 6 255, eth_shost = [1, 2, 3, 4, 5, 6], eth_type = htons 0x0800\<rparr> 0x0100000A [1, 2, 3]
       = Inr pkt \<and> length pkt = 45
       \<and> recv_packet [Some (pkt, 45)] (replicate 10 0) 10 = Inr (Some (3, [1, 2, 3, 0, 0, 0, 0, 0, 0, 0], []))"
proof -
  let ?hw = "\<lparr>eth_dhost = replicate 6 255, eth_shost = [1, 2, 3, 4, 5, 6], eth_type = htons 0x0800\<rparr>"
  have d: "drop 3 (replicate 10 (0::u8)) = [0, 0, 0, 0, 0, 0, 0]" by (simp add: numeral_eq_Suc)
  have l: "length (eth_dhost ?hw) = 6" "length (eth_shost ?hw) = 6" "length [1, 2, 3 :: u8] \<le> 65507"
    "length [1, 2, 3 :: u8] \<le> 10" "length [1, 2, 3 :: u8] \<le> length (replicate 10 (0 :: u8))" by simp_all
  from broadcast_frame_wellformed [OF l, of "0x0100000A"] show ?thesis
  proof (elim exE conjE)
    fix pkt
    assume "broadcast_frame ?hw 0x0100000A [1, 2, 3] = Inr pkt" "length pkt = length [1, 2, 3 :: u8] + 42"
      "recv_packet [Some (pkt, of_nat (length pkt))] (replicate 10 0) 10
       = Inr (Some (length [1, 2, 3 :: u8], [1, 2, 3] @ drop (length [1, 2, 3 :: u8]) (replicate 10 0), []))"
    then show ?thesis using d by (intro exI [of _ pkt]) (simp del: recv_packet.simps)
  qed
qed

end
