(* ===== verification/AllocatorProps.thy ===== *)
theory AllocatorProps
  imports MemEngine DhcpReplies
begin

text \<open>
  The promises of the allocator over SQLite: who gets which address, what REQUEST, RELEASE and
  DECLINE do to the lease table, and what the table holds after the start. The contract of the
  database (\<open>lease_engine\<close>, \<open>populating_engine\<close>) is a hypothesis; each property is applied to
  the reference engine on a concrete table.
\<close>

lemmas sql_backend = recording_backend.axioms(1) [OF lease_engine.sql_recording_backend]

lemma ip_free_frame: "leases_db (snd (ip_free env mac ip s)) = leases_db s"
  by (cases "ip_free env mac ip s") (auto simp: ip_free_def emit_frame)

section \<open>A concrete allocator\<close>

definition example_env :: alloc_env where
  "example_env = \<lparr>env_subnets = example_subnets, pf_enabled = True, rad_enabled = False,
     env_getstring = (\<lambda>_. Inr None), env_getbool = (\<lambda>_ d. Inr d), env_require = (\<lambda>k. Inr k),
     env_has_key = (\<lambda>_. Inr False), env_clock = (\<lambda>_. 1000)\<rparr>"

definition example_lease :: lease where
  "example_lease = \<lparr>lease_mac = ''18:E7:28:F0:2A:55'', lease_ip = ''10.0.0.100'', lease_ts = 500,
     lease_expire = 4100, lease_auth = ''new''\<rparr>"

definition example_state :: "mem_db alloc_state" where
  "example_state = \<lparr>leases_db = \<lparr>mem_rows = [example_lease, pool_row ''10.0.0.101''], mem_changes = 0, mem_errcode = 0\<rparr>,
     static_db = None, static_get_query = None, clock_calls = 0, events = []\<rparr>"

lemma example_static [simp]:
  "sql_get_static_ip example_env api mac example_state = (Inr None, example_state)"
  by (simp add: sql_get_static_ip_def base_get_static_ip_def Let_def example_env_def example_state_def
      bindP_def proc_defs)

lemma example_keyed [simp]: "keyed (set (mem_rows (leases_db example_state)))"
  by (simp add: keyed_def example_state_def example_lease_def pool_row_def)

section \<open>Properties\<close>

text \<open>C1 A lease is not given to anybody else while it lasts. While \<open>ip_alloc\<close> serves a client,
  with whatever outcome, the row of every other client whose expiry time is not before any
  reading of the clock during the call stays as it is, unless the address is the one
  statically assigned to the requesting client.\<close>

theorem live_lease_not_reassigned:
  assumes "lease_engine api rows query args"
    and "ip_alloc env (sql_vtable env api) mac s = (x, s')" and "keyed (rows (leases_db s))"
    and "row \<in> rows (leases_db s)" and "lease_mac row \<noteq> mac_s_addr mac"
    and "\<forall>n. clock_calls s \<le> n \<and> n < clock_calls s' \<longrightarrow> sint (env_clock env n) \<le> lease_expire row"
    and "\<forall>ip acc s1. sql_get_static_ip env api mac s = (Inr (Some (ip, acc)), s1) \<longrightarrow> ip_s_addr ip \<noteq> lease_ip row"
  shows "row \<in> rows (leases_db s')"
proof (rule allocator_backend.ip_alloc_live_kept [OF sql_backend [OF assms(1)] assms(2-5)])
  show "sint (env_clock env n) \<le> lease_expire row" if "clock_calls s \<le> n" "n < clock_calls s'" for n
    using assms(6) that by blast
  show "ip_s_addr ip \<noteq> lease_ip row"
    if "vt_get_static_ip (sql_vtable env api) mac s = (Inr (Some (ip, acc)), s1)" for ip acc s1
    using assms(7) that by (simp add: sql_vtable_def)
qed

theorem live_lease_not_reassigned_witness:
  "example_lease \<in> set (mem_rows (leases_db
     (snd (ip_alloc example_env (sql_vtable example_env mem_api) (MACAddress_u 1) example_state))))"
proof (rule live_lease_not_reassigned [OF mem.lease_engine_axioms, where env = example_env
      and mac = "MACAddress_u 1" and s = example_state])
  show "ip_alloc example_env (sql_vtable example_env mem_api) (MACAddress_u 1) example_state
      = (fst (ip_alloc example_env (sql_vtable example_env mem_api) (MACAddress_u 1) example_state),
         snd (ip_alloc example_env (sql_vtable example_env mem_api) (MACAddress_u 1) example_state))" by simp
  show "example_lease \<in> set (mem_rows (leases_db example_state))" by (simp add: example_state_def)
  have "mac_u2s 1 = ''01:00:00:00:00:00''" by code_simp
  then show "lease_mac example_lease \<noteq> mac_s_addr (MACAddress_u 1)" by (simp add: example_lease_def)
  show "\<forall>n. clock_calls example_state \<le> n \<and> n < clock_calls (snd (ip_alloc example_env
      (sql_vtable example_env mem_api) (MACAddress_u 1) example_state)) \<longrightarrow>
      sint (env_clock example_env n) \<le> lease_expire example_lease"
    by (simp add: example_env_def example_lease_def)
qed simp_all

lemma granted_exclusive:
  assumes "lease_engine api rows query args" and "keyed (rows (leases_db s))"
    and "ip_alloc env (sql_vtable env api) mac s = (Inr (Some ip), s')"
  shows "keyed (rows (leases_db s')) \<and> (\<exists>r. {r \<in> rows (leases_db s'). lease_ip r = ip_s_addr ip} = {r}
           \<and> lease_mac r = mac_s_addr mac)"
proof -
  have key: "keyed (rows (leases_db s'))"
    using allocator_backend.ip_alloc_keyed [OF sql_backend [OF assms(1)] assms(3,2)] .
  obtain r where r: "r \<in> rows (leases_db s')" "lease_ip r = ip_s_addr ip" "lease_mac r = mac_s_addr mac"
    using recording_backend.ip_alloc_owner [OF lease_engine.sql_recording_backend [OF assms(1)] assms(3)] by blast
  then have "{r \<in> rows (leases_db s'). lease_ip r = ip_s_addr ip} = {r}"
    using key by (auto simp: keyed_def inj_on_def)
  with r key show ?thesis by blast
qed

text \<open>C2 A granted address belongs to the client alone: when \<open>ip_alloc\<close> returns an address, the
  lease table, which has one row per address before, has exactly one row for it afterwards,
  and this row names the client.\<close>

theorem granted_address_exclusive:
  assumes "lease_engine api rows query args" and "keyed (rows (leases_db s))"
    and "ip_alloc env (sql_vtable env api) mac s = (Inr (Some ip), s')"
  shows "keyed (rows (leases_db s')) \<and> (\<exists>r. {r \<in> rows (leases_db s'). lease_ip r = ip_s_addr ip} = {r}
           \<and> lease_mac r = mac_s_addr mac)"
  using assms by (rule granted_exclusive)

lemma example_alloc:
  "fst (ip_alloc example_env (sql_vtable example_env mem_api) (MACAddress_u 1) example_state)
   = Inr (Some (IPAddress_u 0x6500000A))"
  by code_simp

theorem granted_address_exclusive_witness:
  "let s' = snd (ip_alloc example_env (sql_vtable example_env mem_api) (MACAddress_u 1) example_state) in
   keyed (set (mem_rows (leases_db s')))
   \<and> (\<exists>r. {r \<in> set (mem_rows (leases_db s')). lease_ip r = ip_s_addr (IPAddress_u 0x6500000A)} = {r}
        \<and> lease_mac r = mac_s_addr (MACAddress_u 1))"
  unfolding Let_def
  by (rule granted_address_exclusive [OF mem.lease_engine_axioms example_keyed, where env = example_env])
    (simp add: prod_eq_iff example_alloc)

lemma accepted_own:
  assumes "lease_engine api rows query args"
    and "ip_check env (sql_vtable env api) mac ip s = (Inr True, s')"
  shows "\<exists>sub. mysubnet (env_subnets env) ip = Some sub
     \<and> ((\<exists>newip acc s1. sql_get_static_ip env api mac s = (Inr (Some (newip, acc)), s1) \<and> ip_u_addr newip = ip_u_addr ip)
      \<or> (has_dynamic_range sub \<and> (\<exists>r \<in> rows (leases_db s). lease_mac r = mac_s_addr mac
            \<and> (\<exists>newip. IPAddress_s (lease_ip r) = Inr newip \<and> ip_u_addr newip = ip_u_addr ip))))"
  using allocator_backend.ip_check_True_lease [OF sql_backend [OF assms(1)] assms(2)]
  by (simp add: sql_vtable_def)

text \<open>C14 REQUEST is acknowledged only for the client's own address: when \<open>ip_check\<close> accepts, the
  address lies in a configured subnet and either is the static address of the client, or the
  subnet has a dynamic range and the lease table had a row of this client for it.\<close>

theorem ip_check_accepts_own_address:
  assumes "lease_engine api rows query args"
    and "ip_check env (sql_vtable env api) mac ip s = (Inr True, s')"
  shows "\<exists>sub. mysubnet (env_subnets env) ip = Some sub
     \<and> ((\<exists>newip acc s1. sql_get_static_ip env api mac s = (Inr (Some (newip, acc)), s1) \<and> ip_u_addr newip = ip_u_addr ip)
      \<or> (has_dynamic_range sub \<and> (\<exists>r \<in> rows (leases_db s). lease_mac r = mac_s_addr mac
            \<and> (\<exists>newip. IPAddress_s (lease_ip r) = Inr newip \<and> ip_u_addr newip = ip_u_addr ip))))"
  using assms by (rule accepted_own)

lemma example_check:
  "fst (ip_check example_env (sql_vtable example_env mem_api) (MACAddress_u 0x552AF028E718) (IPAddress_u 0x6400000A) example_state)
   = Inr True"
  by code_simp

theorem ip_check_accepts_own_address_witness:
  "\<exists>r \<in> set (mem_rows (leases_db example_state)). lease_mac r = mac_s_addr (MACAddress_u 0x552AF028E718)
     \<and> (\<exists>newip. IPAddress_s (lease_ip r) = Inr newip \<and> ip_u_addr newip = 0x6400000A)"
proof -
  have "ip_check example_env (sql_vtable example_env mem_api) (MACAddress_u 0x552AF028E718) (IPAddress_u 0x6400000A) example_state
      = (Inr True, snd (ip_check example_env (sql_vtable example_env mem_api) (MACAddress_u 0x552AF028E718) (IPAddress_u 0x6400000A) example_state))"
    by (simp add: prod_eq_iff example_check)
  from ip_check_accepts_own_address [OF mem.lease_engine_axioms this] show ?thesis by auto
qed

lemma operations_keyed:
  assumes "lease_engine api rows query args" and "keyed (rows (leases_db s))"
    and "m \<in> {snd \<circ> ip_alloc env (sql_vtable env api) mac, snd \<circ> ip_check env (sql_vtable env api) mac ip,
              snd \<circ> ip_free env mac ip, snd \<circ> ip_invalidate (sql_vtable env api) mac ip}"
  shows "keyed (rows (leases_db (m s))) \<and> (\<exists>i. touches_only i (rows (leases_db s)) (rows (leases_db (m s))))"
proof -
  note be = sql_backend [OF assms(1), of env]
  have alloc: "\<exists>i. affects_rows rows i s (snd (ip_alloc env (sql_vtable env api) mac s))"
    using allocator_backend.ip_alloc_affects [OF be] allocator_backend.reads_affects [OF be]
    by (metis prod.collapse)
  have check: "affects_rows rows (ip_s_addr ip) s (snd (ip_check env (sql_vtable env api) mac ip s))"
    by (rule allocator_backend.ip_check_affects [OF be prod.collapse [symmetric]])
  have inval: "affects_rows rows (ip_s_addr ip) s (snd (ip_invalidate (sql_vtable env api) mac ip s))"
    by (rule allocator_backend.ip_invalidate_affects [OF be prod.collapse [symmetric]])
  show ?thesis
    using alloc check inval assms(2,3) by (auto simp: affects_rows_def ip_free_frame)
qed

text \<open>C7 One row per address is an invariant: serving DISCOVER, REQUEST, RELEASE and DECLINE never
  makes two rows for one address, and each of them leaves the rows of all addresses but one as
  they were, also when it ends with an exception.\<close>

theorem lease_table_invariant:
  assumes "lease_engine api rows query args" and "keyed (rows (leases_db s))"
    and "m \<in> {snd \<circ> ip_alloc env (sql_vtable env api) mac, snd \<circ> ip_check env (sql_vtable env api) mac ip,
              snd \<circ> ip_free env mac ip, snd \<circ> ip_invalidate (sql_vtable env api) mac ip}"
  shows "keyed (rows (leases_db (m s))) \<and> (\<exists>i. touches_only i (rows (leases_db s)) (rows (leases_db (m s))))"
  using assms by (rule operations_keyed)

theorem lease_table_invariant_witness:
  "keyed (set (mem_rows (leases_db
     ((snd \<circ> ip_alloc example_env (sql_vtable example_env mem_api) (MACAddress_u 1)) example_state))))"
  using lease_table_invariant [OF mem.lease_engine_axioms example_keyed,
      of "snd \<circ> ip_alloc example_env (sql_vtable example_env mem_api) (MACAddress_u 1)"
        example_env "MACAddress_u 1" IPAddress_none] by blast

subsection \<open>What happens to a declined address\<close>

text \<open>The calls of the allocator that requests lead to, as \<open>dispatch\<close> makes them; the address of a
  message comes from its 32-bit field. The result is the address that is offered or acknowledged.\<close>

datatype client_call = Discover MACAddress | Request MACAddress u32 | Release MACAddress u32 | Decline MACAddress u32

fun client_step :: "alloc_env \<Rightarrow> 'd alloc_vtable \<Rightarrow> client_call \<Rightarrow> ('d alloc_state, IPAddress option) proc" where
  "client_step env vt (Discover mac) = ip_alloc env vt mac"
| "client_step env vt (Request mac a) =
     bindP (ip_check env vt mac (IPAddress_u a)) (\<lambda>ok. retP (if ok then Some (IPAddress_u a) else None))"
| "client_step env vt (Release mac a) = bindP (ip_free env mac (IPAddress_u a)) (\<lambda>_. retP None)"
| "client_step env vt (Decline mac a) = bindP (ip_invalidate vt mac (IPAddress_u a)) (\<lambda>_. retP None)"

definition no_hardware :: string where
  "no_hardware = ''00:00:00:00:00:00''"

text \<open>The conditions on a later call, from the state \<open>t\<close> to \<open>u\<close>: the clock is at or before \<open>e\<close>, the
  client has a hardware address other than zero and no static address \<open>v\<close>, and nobody declines \<open>v\<close>
  again.\<close>

definition other_client :: "alloc_env \<Rightarrow> 'd alloc_vtable \<Rightarrow> u32 \<Rightarrow> MACAddress \<Rightarrow> 'd alloc_state \<Rightarrow> bool" where
  "other_client env vt v mac t \<longleftrightarrow> mac_s_addr mac \<noteq> no_hardware
     \<and> (\<forall>w acc t1. vt_get_static_ip vt mac t = (Inr (Some (w, acc)), t1) \<longrightarrow> ip_u_addr w \<noteq> v)"

definition within_lease :: "alloc_env \<Rightarrow> 'd alloc_vtable \<Rightarrow> u32 \<Rightarrow> int \<Rightarrow> client_call \<Rightarrow> 'd alloc_state \<Rightarrow> 'd alloc_state \<Rightarrow> bool" where
  "within_lease env vt v e c t u \<longleftrightarrow> (\<forall>n. clock_calls t \<le> n \<and> n < clock_calls u \<longrightarrow> sint (env_clock env n) \<le> e)
     \<and> (case c of Discover mac \<Rightarrow> other_client env vt v mac t | Request mac _ \<Rightarrow> other_client env vt v mac t
        | Release _ _ \<Rightarrow> True | Decline _ a \<Rightarrow> a \<noteq> v)"

text \<open>The states that such calls, whatever their outcome, lead to.\<close>

inductive later :: "alloc_env \<Rightarrow> 'd alloc_vtable \<Rightarrow> u32 \<Rightarrow> int \<Rightarrow> 'd alloc_state \<Rightarrow> 'd alloc_state \<Rightarrow> bool"
  for env :: alloc_env and vt :: "'d alloc_vtable" and v :: u32 and e :: int and s :: "'d alloc_state" where
  later_start: "later env vt v e s s"
| later_call: "later env vt v e s t \<Longrightarrow> client_step env vt c t = (x, u) \<Longrightarrow> within_lease env vt v e c t u \<Longrightarrow> later env vt v e s u"

text \<open>No row of the table names the address \<open>v\<close> by another text than the one \<open>v\<close> is printed as.\<close>

definition named_once :: "u32 \<Rightarrow> lease set \<Rightarrow> bool" where
  "named_once v R \<longleftrightarrow> (\<forall>r \<in> R. \<forall>ip. IPAddress_s (lease_ip r) = Inr ip \<and> ip_u_addr ip = v \<longrightarrow> lease_ip r = ip_u2s v)"

definition blocked :: "u32 \<Rightarrow> lease \<Rightarrow> lease set \<Rightarrow> bool" where
  "blocked v r R \<longleftrightarrow> r \<in> R \<and> keyed R \<and> named_once v R"

lemma IPAddress_s_again: "IPAddress_s t = Inr ip \<Longrightarrow> IPAddress_s (ip_s_addr ip) = Inr ip"
  by (auto simp: IPAddress_s_def strcpy20_def split: if_splits)

lemma static_ip_text: "sql_get_static_ip env api mac s = (Inr (Some (ip, acc)), s') \<Longrightarrow> IPAddress_s (ip_s_addr ip) = Inr ip"
  by (fastforce simp: sql_get_static_ip_def base_get_static_ip_def bindP_eq_Inr Let_def IPAddress_s_again
      split: option.splits if_splits)

lemma touches_named_once:
  assumes "touches_only i R R'" and "named_once v R"
    and "\<And>ip. IPAddress_s i = Inr ip \<Longrightarrow> ip_u_addr ip = v \<Longrightarrow> i = ip_u2s v"
  shows "named_once v R'"
  using assms unfolding named_once_def touches_only_def by metis

lemma blocked_keeps:
  assumes "blocked v r (rows (leases_db t))" and "lease_ip r = ip_u2s v" and "affects_rows rows i t u" and "i \<noteq> ip_u2s v"
    and "\<And>ip. IPAddress_s i = Inr ip \<Longrightarrow> ip_u_addr ip = v \<Longrightarrow> i = ip_u2s v"
  shows "blocked v r (rows (leases_db u))"
  using assms touches_named_once [of i "rows (leases_db t)" "rows (leases_db u)" v] touches_onlyD [of i "rows (leases_db t)" "rows (leases_db u)" r]
  unfolding blocked_def affects_rows_def by metis

lemma declined_row:
  assumes "blocked v r R" and "lease_ip r = ip_u2s v" and "r' \<in> R" and "IPAddress_s (lease_ip r') = Inr ip" and "ip_u_addr ip = v"
  shows "r' = r"
  using assms unfolding blocked_def named_once_def keyed_def inj_on_def by metis

lemma blocked_discover:
  assumes "lease_engine api rows query args" and "blocked v r (rows (leases_db t))" and "lease_ip r = ip_u2s v" and "lease_mac r = no_hardware"
    and run: "ip_alloc env (sql_vtable env api) mac t = (x, u)"
    and within: "within_lease env (sql_vtable env api) v (lease_expire r) (Discover mac) t u"
  shows "blocked v r (rows (leases_db u)) \<and> (\<forall>ip. x = Inr (Some ip) \<longrightarrow> ip_u_addr ip \<noteq> v)"
proof -
  note be = sql_backend [OF assms(1), of env]
  let ?vt = "sql_vtable env api"
  from within have mac: "mac_s_addr mac \<noteq> lease_mac r"
    using assms(4) by (simp add: within_lease_def other_client_def)
  from within have static: "ip_u_addr w \<noteq> v" if "vt_get_static_ip ?vt mac t = (Inr (Some (w, acc)), t1)" for w acc t1
    using that by (auto simp: within_lease_def other_client_def)
  from within have clock: "sint (env_clock env n) \<le> lease_expire r" if "clock_calls t \<le> n" "n < clock_calls u" for n
    using that by (simp add: within_lease_def)
  have static_text: "IPAddress_s (ip_s_addr w) = Inr w" if "vt_get_static_ip ?vt mac t = (Inr (Some (w, acc)), t1)" for w acc t1
    using that static_ip_text by (simp add: sql_vtable_def)
  have "blocked v r (rows (leases_db u))"
  proof -
    from allocator_backend.ip_alloc_affects [OF be run]
    consider "allocator_backend.reads rows t u" | i where "affects_rows rows i t u" "allocator_backend.entitled env ?vt rows mac t u i" by blast
    then show ?thesis
    proof cases
      case 1
      then show ?thesis using assms(2) by (simp add: allocator_backend.reads_def [OF be])
    next
      case 2
      from 2(2) consider (config) w acc t1 where "vt_get_static_ip ?vt mac t = (Inr (Some (w, acc)), t1)" "ip_s_addr w = i"
        | (row) r' where "r' \<in> rows (leases_db t)" "lease_ip r' = i" "r' \<noteq> r"
        unfolding allocator_backend.entitled_def [OF be] using mac clock by fastforce
      then have i: "IPAddress_s i = Inr ip \<Longrightarrow> ip_u_addr ip \<noteq> v" for ip
      proof cases
        case config
        then show "IPAddress_s i = Inr ip \<Longrightarrow> ip_u_addr ip \<noteq> v" using static_text [OF config(1)] static [OF config(1)] by auto
      next
        case row
        then show "IPAddress_s i = Inr ip \<Longrightarrow> ip_u_addr ip \<noteq> v" using declined_row [OF assms(2,3) row(1)] by auto
      qed
      then have "i \<noteq> ip_u2s v" by force
      then show ?thesis using blocked_keeps [OF assms(2,3) 2(1)] i by blast
    qed
  qed
  moreover have "ip_u_addr ip \<noteq> v" if "x = Inr (Some ip)" for ip
  proof
    assume v: "ip_u_addr ip = v"
    have run: "ip_alloc env ?vt mac t = (Inr (Some ip), u)" using run that by simp
    from allocator_backend.ip_alloc_source [OF be run] static v
    obtain r' where "r' \<in> rows (leases_db t)" "IPAddress_s (lease_ip r') = Inr ip" by blast
    with declined_row [OF assms(2,3)] v assms(3) have "ip_s_addr ip = ip_u2s v"
      by (metis IPAddress_s_printed IPAddress_u_sel(2) Inr_inject)
    moreover obtain r'' where "r'' \<in> rows (leases_db u)" "lease_ip r'' = ip_s_addr ip" "lease_mac r'' = mac_s_addr mac"
      using recording_backend.ip_alloc_owner [OF lease_engine.sql_recording_backend [OF assms(1)] run] by blast
    ultimately show False
      using \<open>blocked v r (rows (leases_db u))\<close> assms(3) mac unfolding blocked_def keyed_def inj_on_def by metis
  qed
  ultimately show ?thesis by blast
qed

lemma blocked_request:
  assumes "lease_engine api rows query args" and "blocked v r (rows (leases_db t))" and "lease_ip r = ip_u2s v" and "lease_mac r = no_hardware"
    and run: "ip_check env (sql_vtable env api) mac (IPAddress_u a) t = (x, u)"
    and other: "other_client env (sql_vtable env api) v mac t"
  shows "blocked v r (rows (leases_db u)) \<and> (x = Inr True \<longrightarrow> a \<noteq> v)"
proof -
  note be = sql_backend [OF assms(1), of env]
  let ?vt = "sql_vtable env api"
  have static: "ip_u_addr w \<noteq> v" if "vt_get_static_ip ?vt mac t = (Inr (Some (w, acc)), t1)" for w acc t1
    using other that by (auto simp: other_client_def)
  have own: "ip_u_addr ip \<noteq> v"
    if "r' \<in> rows (leases_db t)" "lease_mac r' = mac_s_addr mac" "IPAddress_s (lease_ip r') = Inr ip" for r' ip
    using declined_row [OF assms(2,3) that(1,3)] that(2) assms(4) other by (auto simp: other_client_def)
  have "blocked v r (rows (leases_db u))"
  proof (cases "a = v")
    case True
    with allocator_backend.ip_check_touch [OF be run] static own have "allocator_backend.reads rows t u" by fastforce
    then show ?thesis using assms(2) by (simp add: allocator_backend.reads_def [OF be])
  next
    case False
    then show ?thesis
      using blocked_keeps [OF assms(2,3) allocator_backend.ip_check_affects [OF be run]] by simp
  qed
  moreover have "a \<noteq> v" if "x = Inr True"
  proof -
    have "ip_check env ?vt mac (IPAddress_u a) t = (Inr True, u)" using run that by simp
    from allocator_backend.ip_check_True_lease [OF be this] static own show ?thesis by fastforce
  qed
  ultimately show ?thesis by blast
qed

lemma blocked_call:
  assumes "lease_engine api rows query args" and "blocked v r (rows (leases_db t))" and "lease_ip r = ip_u2s v" and "lease_mac r = no_hardware"
    and run: "client_step env (sql_vtable env api) c t = (x, u)"
    and within: "within_lease env (sql_vtable env api) v (lease_expire r) c t u"
  shows "blocked v r (rows (leases_db u)) \<and> (\<forall>ip. x = Inr (Some ip) \<longrightarrow> ip_u_addr ip \<noteq> v)"
proof (cases c)
  case (Discover mac)
  then show ?thesis using blocked_discover [OF assms(1-4)] run within by simp
next
  case (Request mac a)
  obtain y u' where y: "ip_check env (sql_vtable env api) mac (IPAddress_u a) t = (y, u')" by fastforce
  with run Request have "u' = u" "x = Inr (Some ip) \<Longrightarrow> y = Inr True \<and> ip = IPAddress_u a" for ip
    by (auto simp: bindP_def retP_def split: sum.splits if_splits)
  with blocked_request [OF assms(1-4) y] within Request show ?thesis by (auto simp: within_lease_def)
next
  case (Release mac a)
  with run have "leases_db u = leases_db t" "x \<noteq> Inr (Some ip)" for ip
    using ip_free_frame [of env mac "IPAddress_u a" t] by (auto simp: bindP_def retP_def split: prod.splits sum.splits)
  with assms(2) show ?thesis by auto
next
  case (Decline mac a)
  note be = sql_backend [OF assms(1), of env]
  from Decline within have a: "a \<noteq> v" by (simp add: within_lease_def)
  obtain y where y: "ip_invalidate (sql_vtable env api) mac (IPAddress_u a) t = (y, u)" and x: "x \<noteq> Inr (Some ip)" for ip
    using run Decline by (auto simp: bindP_def retP_def split: prod.splits sum.splits)
  with blocked_keeps [OF assms(2,3) allocator_backend.ip_invalidate_affects [OF be y]] a show ?thesis by simp
qed

lemma blocked_later:
  assumes "lease_engine api rows query args" and "blocked v r (rows (leases_db s))" and "lease_ip r = ip_u2s v" and "lease_mac r = no_hardware"
    and "later env (sql_vtable env api) v (lease_expire r) s t"
  shows "blocked v r (rows (leases_db t))"
  using assms(5)
proof induction
  case (later_call t c x u)
  with blocked_call [OF assms(1) _ assms(3,4)] show ?case by blast
qed (rule assms(2))

lemma declined_row_recorded:
  assumes "lease_engine api rows query args" and "keyed (rows (leases_db s))" and "named_once v (rows (leases_db s))"
    and "ip_u2s v \<in> lease_ip ` rows (leases_db s)"
    and run: "ip_invalidate (sql_vtable env api) mac (IPAddress_u v) s = (Inr (), s')"
  shows "\<exists>r lt. blocked v r (rows (leases_db s')) \<and> lease_ip r = ip_u2s v \<and> lease_mac r = no_hardware \<and> lease_auth r = ''invalidated''
     \<and> Option.bind (globalnet (env_subnets env)) lease_time = Some lt \<and> lease_expire r = sint (env_clock env (clock_calls s) + lt)"
proof -
  note rec = lease_engine.sql_recording_backend [OF assms(1), of env]
  have zero: "mac_u2s 0 = no_hardware" by code_simp
  have rl: "vt_record_lease (sql_vtable env api) (MACAddress_u 0) (IPAddress_u v) (Some ''invalidated'') s = (Inr (), s')"
    using run by (simp add: ip_invalidate_def)
  from recording_backend.recorded_exists [OF rec rl] assms(4) obtain r where r: "r \<in> rows (leases_db s')" "lease_ip r = ip_u2s v" by auto
  have touch: "affects_rows rows (ip_u2s v) s s'"
    using allocator_backend.ip_invalidate_affects [OF sql_backend [OF assms(1)] run] by simp
  then have "keyed (rows (leases_db s'))" "named_once v (rows (leases_db s'))"
    using assms(2,3) touches_named_once [of "ip_u2s v" "rows (leases_db s)"] by (auto simp: affects_rows_def)
  with r recording_backend.recorded [OF rec rl r(1)] zero show ?thesis by (auto simp: blocked_def)
qed

text \<open>C15 An address that a client declines is blocked. If the lease table has a row for it, under its
  own text only, the row afterwards belongs to the hardware address zero and expires one lease time
  after the clock reading. In every state that later calls for DISCOVER, REQUEST, RELEASE and
  DECLINE reach, whatever their outcome, the row is still there, and no further call offers or
  acknowledges the address, under these conditions on each call: the clock is at or before the
  row's expiry, the client's hardware address is not zero and its static address is another one, and
  the address is not declined again.\<close>

theorem declined_address_blocked:
  assumes "lease_engine api rows query args" and "keyed (rows (leases_db s))" and "named_once v (rows (leases_db s))"
    and "ip_u2s v \<in> lease_ip ` rows (leases_db s)"
    and "ip_invalidate (sql_vtable env api) mac (IPAddress_u v) s = (Inr (), s')"
  shows "\<exists>r lt. r \<in> rows (leases_db s') \<and> lease_ip r = ip_u2s v
     \<and> lease_mac r = ''00:00:00:00:00:00'' \<and> lease_auth r = ''invalidated''
     \<and> Option.bind (globalnet (env_subnets env)) lease_time = Some lt
     \<and> lease_expire r = sint (env_clock env (clock_calls s) + lt)
     \<and> (\<forall>t. later env (sql_vtable env api) v (lease_expire r) s' t \<longrightarrow> r \<in> rows (leases_db t)
          \<and> (\<forall>c ip u. client_step env (sql_vtable env api) c t = (Inr (Some ip), u)
               \<and> within_lease env (sql_vtable env api) v (lease_expire r) c t u \<longrightarrow> ip_u_addr ip \<noteq> v))"
proof -
  obtain r lt where b: "blocked v r (rows (leases_db s'))" and r: "lease_ip r = ip_u2s v" "lease_mac r = no_hardware"
    and rest: "lease_auth r = ''invalidated''" "Option.bind (globalnet (env_subnets env)) lease_time = Some lt"
      "lease_expire r = sint (env_clock env (clock_calls s) + lt)"
    using declined_row_recorded [OF assms] by blast
  have kept: "blocked v r (rows (leases_db t))" if "later env (sql_vtable env api) v (lease_expire r) s' t" for t
    by (rule blocked_later [OF assms(1) b r that])
  have "ip_u_addr ip \<noteq> v"
    if "later env (sql_vtable env api) v (lease_expire r) s' t" "client_step env (sql_vtable env api) c t = (Inr (Some ip), u)"
      "within_lease env (sql_vtable env api) v (lease_expire r) c t u" for t c ip u
    using blocked_call [OF assms(1) kept [OF that(1)] r that(2,3)] by blast
  moreover have "r \<in> rows (leases_db t)" if "later env (sql_vtable env api) v (lease_expire r) s' t" for t
    using kept [OF that] by (simp add: blocked_def)
  ultimately show ?thesis
    using b r rest by (intro exI [of _ r] exI [of _ lt] conjI allI impI) (auto simp: no_hardware_def blocked_def)
qed

definition declined_state :: "mem_db alloc_state" where
  "declined_state = snd (ip_invalidate (sql_vtable example_env mem_api) (MACAddress_u 1) (IPAddress_u 0x6500000A) example_state)"

lemma example_decline:
  "ip_invalidate (sql_vtable example_env mem_api) (MACAddress_u 1) (IPAddress_u 0x6500000A) example_state = (Inr (), declined_state)"
proof -
  have "fst (ip_invalidate (sql_vtable example_env mem_api) (MACAddress_u 1) (IPAddress_u 0x6500000A) example_state) = Inr ()"
    by code_simp
  then show ?thesis by (simp add: prod_eq_iff declined_state_def)
qed

text \<open>A client with the hardware address zero is given the declined address at once: the row counts as
  its own lease.\<close>

lemma zero_client_gets_declined:
  "fst (client_step example_env (sql_vtable example_env mem_api) (Discover (MACAddress_u 0)) declined_state)
   = Inr (Some (IPAddress_u 0x6500000A))"
  by code_simp

lemma example_named_once: "named_once 0x6500000A (set (mem_rows (leases_db example_state)))"
proof -
  have t: "ip_u2s 0x6500000A = ''10.0.0.101''" "ip_u2s 0x6400000A = ''10.0.0.100''" by code_simp+
  have "IPAddress_s ''10.0.0.100'' = Inr (IPAddress_u 0x6400000A)" using IPAddress_s_printed [of "0x6400000A"] t by simp
  then show ?thesis using t by (auto simp: named_once_def example_state_def example_lease_def pool_row_def)
qed

text \<open>The next client is not given it.\<close>

theorem declined_address_blocked_witness:
  "\<exists>r. r \<in> set (mem_rows (leases_db declined_state)) \<and> lease_ip r = ''10.0.0.101'' \<and> lease_expire r = 4600
     \<and> (\<forall>ip. fst (client_step example_env (sql_vtable example_env mem_api) (Discover (MACAddress_u 2)) declined_state) = Inr (Some ip)
           \<longrightarrow> ip_u_addr ip \<noteq> 0x6500000A)"
proof -
  let ?vt = "sql_vtable example_env mem_api" and ?c = "Discover (MACAddress_u 2)"
  have t: "ip_u2s 0x6500000A = ''10.0.0.101''" by code_simp
  have in_table: "ip_u2s 0x6500000A \<in> lease_ip ` set (mem_rows (leases_db example_state))"
    by (simp add: t example_state_def pool_row_def)
  obtain r lt where r: "r \<in> set (mem_rows (leases_db declined_state))" "lease_ip r = ip_u2s 0x6500000A"
      "Option.bind (globalnet (env_subnets example_env)) lease_time = Some lt"
      "lease_expire r = sint (env_clock example_env (clock_calls example_state) + lt)"
    and free: "client_step example_env ?vt c t = (Inr (Some ip), u) \<Longrightarrow> later example_env ?vt 0x6500000A (lease_expire r) declined_state t
        \<Longrightarrow> within_lease example_env ?vt 0x6500000A (lease_expire r) c t u \<Longrightarrow> ip_u_addr ip \<noteq> 0x6500000A" for c t ip u
    using declined_address_blocked [OF mem.lease_engine_axioms example_keyed example_named_once in_table example_decline] by blast
  have e: "lease_expire r = 4600"
    using r(3,4) by (auto simp: example_env_def example_subnets_def example_global_def)
  have "fst (sql_get_static_ip example_env mem_api (MACAddress_u 2) declined_state) = Inr None" by code_simp
  moreover have "mac_u2s 2 \<noteq> no_hardware" by code_simp
  ultimately have "within_lease example_env ?vt 0x6500000A (lease_expire r) ?c declined_state u" for u
    by (auto simp: within_lease_def other_client_def e example_env_def sql_vtable_def)
  with free [OF _ later_start] r(1,2) e t show ?thesis by (metis prod.collapse)
qed

text \<open>RELEASE does not touch the lease table: \<open>ip_free\<close> always succeeds and, at most, sends the
  accounting message for the end of the session, although the header promises that the address
  returns to the pool immediately.\<close>

theorem release_keeps_lease:
  "ip_free env mac ip s =
     (Inr (), s\<lparr>events := events s @ (if rad_enabled env
                then [Acct RAD_SESSION_DHCP_END (mac_s_addr mac) (ip_s_addr ip)] else [])\<rparr>)"
  by (simp add: ip_free_def emit_def modifyP_def retP_def)

text \<open>C16 The lease table after the start. When \<open>prepare_databases\<close> has filled the table, all rows
  from earlier runs are still there, the addresses of the table are the earlier ones and those
  of the configured ranges, from the host number of \<open>range_start\<close> up to but not including that
  of \<open>range_end\<close>, the added rows are free (no owner, expired), and there is still one row per
  address.\<close>

theorem start_fills_lease_table:
  assumes "populating_engine api rows query args rows_left" and "populate_leases env api db = Inr db'"
  shows "rows db \<subseteq> rows db'
     \<and> lease_ip ` rows db' = lease_ip ` rows db \<union>
         {ip_s_addr (compose_ip sub k) |sub k. sub \<in> set (subnets (env_subnets env)) \<and> has_dynamic_range sub
            \<and> host_number sub (range_start sub) \<le> k \<and> k < host_number sub (range_end sub)}
     \<and> (\<forall>r \<in> rows db' - rows db. lease_mac r = [] \<and> lease_expire r = 0 \<and> free_row r)
     \<and> (keyed (rows db) \<longrightarrow> keyed (rows db'))"
proof -
  have f: "fills (\<Union> (subnet_pool ` set (subnets (env_subnets env)))) (rows db) (rows db')"
    using populating_engine.populate_leases_fills [OF assms] .
  have pool: "\<Union> (subnet_pool ` set (subnets (env_subnets env)))
      = {ip_s_addr (compose_ip sub k) |sub k. sub \<in> set (subnets (env_subnets env)) \<and> has_dynamic_range sub
            \<and> host_number sub (range_start sub) \<le> k \<and> k < host_number sub (range_end sub)}"
    by (auto simp: subnet_pool_def range_pool_def split: if_splits)
  have "lease_mac r = [] \<and> lease_expire r = 0 \<and> free_row r" if "r = pool_row (lease_ip r)" for r
    by (subst that, subst that, subst that) (simp add: pool_row_def free_row_def)
  with f show ?thesis unfolding pool fills_def by blast
qed

definition short_env :: alloc_env where
  "short_env = example_env\<lparr>env_subnets := example_subnets\<lparr>subnets :=
     [example_subnet\<lparr>range_end := IPAddress_u 0x6700000A\<rparr>]\<rparr>\<rparr>"

lemma example_populate:
  "map_sum id (\<lambda>db. map lease_ip (mem_rows db)) (populate_leases short_env mem_api \<lparr>mem_rows = [], mem_changes = 0, mem_errcode = 0\<rparr>)
   = Inr (map (\<lambda>n. ''10.0.0.'' @ show_nat n) [100..<103])"
  by code_simp

theorem start_fills_lease_table_witness:
  "\<exists>db'. populate_leases short_env mem_api \<lparr>mem_rows = [], mem_changes = 0, mem_errcode = 0\<rparr> = Inr db'
     \<and> lease_ip ` set (mem_rows db') = set (map (\<lambda>n. ''10.0.0.'' @ show_nat n) [100..<103])
     \<and> (\<forall>r \<in> set (mem_rows db'). free_row r)"
proof -
  obtain db' where run: "populate_leases short_env mem_api \<lparr>mem_rows = [], mem_changes = 0, mem_errcode = 0\<rparr> = Inr db'"
    and ips: "map lease_ip (mem_rows db') = map (\<lambda>n. ''10.0.0.'' @ show_nat n) [100..<103]"
    using example_populate
    by (cases "populate_leases short_env mem_api \<lparr>mem_rows = [], mem_changes = 0, mem_errcode = 0\<rparr>") simp_all
  have "\<forall>r \<in> set (mem_rows db'). free_row r"
    using start_fills_lease_table [OF mem.populating_engine_axioms run] by simp
  moreover have "lease_ip ` set (mem_rows db') = set (map (\<lambda>n. ''10.0.0.'' @ show_nat n) [100..<103])"
    using arg_cong [OF ips, of set] by simp
  ultimately show ?thesis using run by blast
qed

lemma pf_populate_raises: "pf_populate fuel api db st evs = Inl e \<Longrightarrow> e = Diverges \<or> e = MemFault"
proof (induction fuel arbitrary: db st evs)
  case (Suc fuel)
  have ip: "IPAddress_s t = Inl x \<Longrightarrow> x = MemFault" for t x
    by (auto simp: IPAddress_s_def strcpy20_def bindR_eq_Inl dest: ip_s2u_raises split: if_splits)
  show ?case
    using Suc by (auto simp: bindR_eq_Inl Let_def dest: ip split: prod.splits if_splits)
qed simp

text \<open>Announcing the static leases to the packet filter ends: with more steps than the query
  has rows left the loop of \<open>prepare_databases\<close> never runs out of them.\<close>

theorem pf_announcement_terminates:
  assumes "populating_engine api rows query args rows_left" and "query st = query_static"
    and "rows_left db st < fuel"
  shows "(\<exists>db' evs'. pf_populate fuel api db st evs = Inr (db', evs')) \<or> pf_populate fuel api db st evs = Inl MemFault"
  using populating_engine.pf_populate_enough [OF assms] pf_populate_raises [of fuel api db st evs]
  by (cases "pf_populate fuel api db st evs") auto

theorem pf_announcement_terminates_witness:
  "pf_populate 5 mem_api (leases_db example_state) \<lparr>stmt_query = query_static, stmt_args = [], stmt_row = None, stmt_rest = None\<rparr> [] \<noteq> Inl Diverges"
  using pf_announcement_terminates [OF mem.populating_engine_axioms,
      of "\<lparr>stmt_query = query_static, stmt_args = [], stmt_row = None, stmt_rest = None\<rparr>" "leases_db example_state" 5 "[]"]
  by (auto simp: mem_left_def example_state_def)

text \<open>The year 2038. As long as clock and lease time together stay below \<open>2^31\<close> a recorded
  lease ends exactly one lease time after the clock reading; beyond that the expiry time that is
  stored is negative, so that the lease counts as expired at once.\<close>

theorem lease_end_wraps:
  assumes "globalnet (env_subnets env) = Some g" and "lease_time g = Some lt"
    and "unat now < 2 ^ 31" and "unat lt < 2 ^ 31"
  shows "\<exists>ex. lease_end env now = Inr ex
     \<and> (if unat now + unat lt < 2 ^ 31 then sint ex = int (unat now) + int (unat lt) else sint ex < 0)"
proof -
  have u: "unat (now + lt) = unat now + unat lt"
    using assms(3,4) by (simp add: unat_word_ariths)
  have "lease_end env now = Inr (now + lt)" using assms(1,2) by (simp add: lease_end_def)
  moreover have "if unat now + unat lt < 2 ^ 31 then sint (now + lt) = int (unat now) + int (unat lt)
      else sint (now + lt) < 0"
  proof (cases "unat now + unat lt < 2 ^ 31")
    case False
    have "int (unat now) < 2 ^ 31" "int (unat lt) < 2 ^ 31" using assms(3,4) by (simp_all add: unat_less_numeral)
    then have "int (unat now) + int (unat lt) - 2 ^ 32 < 0" by simp
    then show ?thesis using False by (simp only: sint32_unat u of_nat_add if_False)
  qed (simp add: sint32_unat u)
  ultimately show ?thesis by blast
qed

theorem lease_end_wraps_witness:
  "\<exists>ex. lease_end example_env 2147483000 = Inr ex \<and> sint ex < 0"
  using lease_end_wraps [of example_env example_global 3600 2147483000]
  by (auto simp: example_env_def example_subnets_def example_global_def)

end
