(* ===== verification/ServerProps.thy ===== *)
theory ServerProps
  imports NetFrames AllocatorProps
begin

text \<open>
  The message loop as a whole: which datagrams leave the server for which requests, what a
  message does to the lease table, and the invariants of a run. A run is a sequence of served
  messages (\<open>server_run\<close>); \<open>main_loop\<close> performs one, so that the invariants of runs, proved by
  rule induction, are invariants of the loop.
\<close>

section \<open>Serving one message\<close>

lemma on_alloc_run:
  "on_alloc m s = (x, t) \<longleftrightarrow> (\<exists>a. m (alloc s) = (x, a) \<and> t = s\<lparr>alloc := a\<rparr>)"
  by (auto simp: on_alloc_def split: prod.splits)

text \<open>What \<open>dispatch\<close> did: the allocator call it made, and the reply it built.\<close>

inductive handled :: "alloc_env \<Rightarrow> 'd alloc_vtable \<Rightarrow> u32 \<Rightarrow> DHCP_Packet \<Rightarrow> int \<Rightarrow>
    'd alloc_state \<Rightarrow> 'd alloc_state \<Rightarrow> DHCP_Packet option \<Rightarrow> bool"
  for env :: alloc_env and vt :: "'d alloc_vtable" and junk :: u32 and request :: DHCP_Packet where
  discover_offer: "ip_alloc env vt (pkt_mac request) a = (Inr (Some ip), a') \<Longrightarrow>
     create_dhcp_offer (env_subnets env) junk request ip = Inr r \<Longrightarrow> handled env vt junk request 1 a a' (Some r)"
| discover_nak: "ip_alloc env vt (pkt_mac request) a = (Inr None, a') \<Longrightarrow>
     create_dhcp_nak (env_subnets env) request IPAddress_none = Inr r \<Longrightarrow> handled env vt junk request 1 a a' (Some r)"
| request_ack: "get_requested_address request = Inr ip \<Longrightarrow> ip_check env vt (pkt_mac request) ip a = (Inr True, a') \<Longrightarrow>
     create_dhcp_ack (env_subnets env) junk request ip = Inr r \<Longrightarrow> handled env vt junk request 3 a a' r"
| request_nak: "get_requested_address request = Inr ip \<Longrightarrow> ip_check env vt (pkt_mac request) ip a = (Inr False, a') \<Longrightarrow>
     create_dhcp_nak (env_subnets env) request ip = Inr r \<Longrightarrow> handled env vt junk request 3 a a' (Some r)"
| decline: "ip_invalidate vt (pkt_mac request) (pkt_ip request) a = (Inr (), a') \<Longrightarrow> handled env vt junk request 4 a a' None"
| release: "ip_free env (pkt_mac request) (pkt_ip request) a = (Inr (), a') \<Longrightarrow> handled env vt junk request 7 a a' None"
| inform: "get_requested_address request = Inr ip \<Longrightarrow> create_dhcp_ack2 (env_subnets env) junk request ip = Inr r \<Longrightarrow>
     handled env vt junk request 8 a a r"
| other: "mt \<notin> {1, 3, 4, 7, 8} \<Longrightarrow> handled env vt junk request mt a a None"

text \<open>The branches of the switch.\<close>

lemma dispatch_branch:
  "dispatch env vt junk request 1 = bindP (on_alloc (ip_alloc env vt (pkt_mac request))) (\<lambda>r.
     case r of Some ip \<Rightarrow> bindP (liftP (create_dhcp_offer (env_subnets env) junk request ip)) (\<lambda>p. retP (Some p))
     | None \<Rightarrow> bindP (liftP (create_dhcp_nak (env_subnets env) request IPAddress_none)) (\<lambda>p. retP (Some p)))"
  "dispatch env vt junk request 3 = bindP (liftP (get_requested_address request)) (\<lambda>ip.
     bindP (on_alloc (ip_check env vt (pkt_mac request) ip)) (\<lambda>ok.
     if ok then liftP (create_dhcp_ack (env_subnets env) junk request ip)
     else bindP (liftP (create_dhcp_nak (env_subnets env) request ip)) (\<lambda>p. retP (Some p))))"
  "dispatch env vt junk request 4 = bindP (on_alloc (ip_invalidate vt (pkt_mac request) (pkt_ip request))) (\<lambda>_. retP None)"
  "dispatch env vt junk request 7 = bindP (on_alloc (ip_free env (pkt_mac request) (pkt_ip request))) (\<lambda>_. retP None)"
  "dispatch env vt junk request 8 = bindP (liftP (get_requested_address request)) (\<lambda>ip.
     liftP (create_dhcp_ack2 (env_subnets env) junk request ip))"
  "mt \<notin> {1, 3, 4, 7, 8} \<Longrightarrow> dispatch env vt junk request mt = retP None"
  by (simp_all add: dispatch_def Let_def)

lemma dispatch_handled:
  assumes "dispatch env vt junk request mt s = (Inr r, t)"
  shows "\<exists>a. handled env vt junk request mt (alloc s) a r \<and> t = s\<lparr>alloc := a\<rparr>"
proof -
  consider "mt = 1" | "mt = 3" | "mt = 4" | "mt = 7" | "mt = 8" | "mt \<notin> {1, 3, 4, 7, 8}" by blast
  then show ?thesis
  proof cases
    case 1
    from assms [unfolded 1 dispatch_branch bindP_eq_Inr on_alloc_run] obtain g a where
      g: "ip_alloc env vt (pkt_mac request) (alloc s) = (Inr g, a)"
      and rest: "(case g of Some ip \<Rightarrow> bindP (liftP (create_dhcp_offer (env_subnets env) junk request ip)) (\<lambda>p. retP (Some p))
        | None \<Rightarrow> bindP (liftP (create_dhcp_nak (env_subnets env) request IPAddress_none)) (\<lambda>p. retP (Some p))) (s\<lparr>alloc := a\<rparr>) = (Inr r, t)"
      by blast
    show ?thesis using g rest unfolding 1 by (cases g) (auto simp: bindP_eq_Inr intro!: exI [of _ a] intro: discover_offer discover_nak)
  next
    case 2
    from assms [unfolded 2 dispatch_branch bindP_eq_Inr on_alloc_run] obtain ip ok a where
      g: "get_requested_address request = Inr ip" "ip_check env vt (pkt_mac request) ip (alloc s) = (Inr ok, a)"
      and rest: "(if ok then liftP (create_dhcp_ack (env_subnets env) junk request ip)
        else bindP (liftP (create_dhcp_nak (env_subnets env) request ip)) (\<lambda>p. retP (Some p))) (s\<lparr>alloc := a\<rparr>) = (Inr r, t)"
      by auto
    show ?thesis using g rest unfolding 2 by (cases ok) (auto simp: bindP_eq_Inr intro: request_ack request_nak)
  qed (use assms in \<open>auto simp: dispatch_branch bindP_eq_Inr on_alloc_run intro: handled.intros\<close>)
qed

lemma dispatch_frame:
  "dispatch env vt junk request mt s = (x, t) \<Longrightarrow> sent t = sent s \<and> message_buf t = message_buf s"
  by (cases "mt \<in> {1, 3, 4, 7, 8}")
    (auto simp: dispatch_branch on_alloc_run split: if_splits option.splits elim!: bindP_elim)

lemma handled_reply:
  "handled env vt junk request mt a a' (Some r) \<Longrightarrow> \<exists>ip. reply_of (env_subnets env) junk request ip r"
  by (auto simp: reply_of_def elim: handled.cases)

definition reply_event :: "net_cfg \<Rightarrow> DHCP_Packet \<Rightarrow> DHCP_Packet \<Rightarrow> net_event" where
  "reply_event cfg request r =
     (if ciaddr r = 0
      then Broadcast (eth_bytes (cfg_hw cfg) @ ip_bytes (broadcast_ip (cfg_ip cfg) (length (wire r)))
                      @ udp_bytes (snd (broadcast_headers (cfg_ip cfg) (length (wire r)))) @ wire r)
      else Unicast (ciaddr request) (htons 68) (wire r))"

lemma print_packet_ok: "42 \<le> length pkt \<Longrightarrow> \<exists>ls. print_packet pkt n = Inr ls"
  by (simp add: print_packet_def read16_def read32_def Let_def)

lemma respond_run:
  assumes "reply_of sn junk request ip r" and "canonical request" and "length (message_buf s) = DHCP_MAX_MTU"
    and "length (eth_bytes (cfg_hw cfg)) = 14"
  shows "respond cfg request r s =
    (case dump_if cfg r s of
       (Inl e, t) \<Rightarrow> (Inl e, t)
     | (Inr _, t) \<Rightarrow> (Inr (), s\<lparr>message_buf := wire r @ drop (length (wire r)) (message_buf s),
                            sent := sent s @ [reply_event cfg request r]\<rparr>))"
proof -
  have "length (chaddr request) = 16" using assms(2) by (simp add: canonical_def wf_header_def)
  note w = reply_writable [OF assms(1) this]
  have u: "unmarshall r (message_buf s) = Inr (wire r @ drop (length (wire r)) (message_buf s), length (wire r))"
    using unmarshall_wire [OF w(2,1)] w(3) assms(3) by simp
  let ?pkt = "eth_bytes (cfg_hw cfg) @ ip_bytes (broadcast_ip (cfg_ip cfg) (length (wire r)))
      @ udp_bytes (snd (broadcast_headers (cfg_ip cfg) (length (wire r)))) @ wire r"
  obtain ls where "print_packet ?pkt (length ?pkt) = Inr ls" using print_packet_ok [of ?pkt] assms(4) by auto
  then have b: "send_broadcast_packet cfg (wire r) s' = (Inr (), s'\<lparr>sent := sent s' @ [Broadcast ?pkt]\<rparr>)" for s'
    by (simp add: send_broadcast_packet_def broadcast_frame_eq [OF assms(4)] bindP_def proc_defs)
  have d: "dump_if cfg r s = (x, t) \<Longrightarrow> t = s" for x t
    by (auto simp: dump_if_def split: if_splits elim!: bindP_elim)
  show ?thesis
    by (cases "dump_if cfg r s")
      (auto simp: respond_def bindP_def proc_defs u b reply_event_def get_ciaddr_def send_packet_def pkt_ip_def
        split: sum.splits dest!: d)
qed

definition after_reply :: "net_cfg \<Rightarrow> DHCP_Packet \<Rightarrow> DHCP_Packet option \<Rightarrow> 'd server \<Rightarrow> 'd server" where
  "after_reply cfg request response s =
     (case response of None \<Rightarrow> s
      | Some r \<Rightarrow> s\<lparr>message_buf := wire r @ drop (length (wire r)) (message_buf s),
                     sent := sent s @ [reply_event cfg request r]\<rparr>)"

lemma dump_if_frame: "dump_if cfg r s = (x, t) \<Longrightarrow> t = s"
  by (auto simp: dump_if_def split: if_splits elim!: bindP_elim)

lemma serve_served:
  assumes "serve cfg env vt junk n s = (Inr (), t)" and "length (message_buf s) = DHCP_MAX_MTU"
    and "length (eth_bytes (cfg_hw cfg)) = 14"
  obtains (ignored) "t = s" "n < 236 \<or> check_magic_cookie (message_buf s) (int n) = Inr False"
    | (answered) request mt a r where "parse_request (message_buf s) (int n) = Inr request"
      "get_message_type request = Inr mt" "handled env vt junk request mt (alloc s) a r"
      "t = after_reply cfg request r (s\<lparr>alloc := a\<rparr>)" "236 \<le> n"
proof (cases "n < 236 \<or> check_magic_cookie (message_buf s) (int n) = Inr False")
  case True
  with assms(1) have "t = s" by (auto simp: serve_def bindP_eq_Inr split: if_splits)
  with True show thesis by (rule ignored [rotated])
next
  case False
  with assms(1) obtain request mt r s' where
    1: "parse_request (message_buf s) (int n) = Inr request" "get_message_type request = Inr mt"
    and d: "dispatch env vt junk request mt s = (Inr r, s')"
    and rest: "(case r of None \<Rightarrow> retP () | Some p \<Rightarrow> respond cfg request p) s' = (Inr (), t)"
    by (auto simp: serve_def bindP_eq_Inr split: if_splits dest!: dump_if_frame)
  from dispatch_handled [OF d] obtain a where a: "handled env vt junk request mt (alloc s) a r" "s' = s\<lparr>alloc := a\<rparr>" by blast
  have "t = after_reply cfg request r (s\<lparr>alloc := a\<rparr>)"
  proof (cases r)
    case (Some p)
    with a handled_reply obtain ip where "reply_of (env_subnets env) junk request ip p" by blast
    from respond_run [OF this parse_request_canonical(1) [OF 1(1)], of s' cfg] show ?thesis
      using rest Some a(2) assms(2,3) by (auto simp: after_reply_def split: prod.splits sum.splits)
  qed (use rest a in \<open>simp add: after_reply_def\<close>)
  with 1 a False show thesis by (intro answered) simp_all
qed

lemma serve_answers:
  assumes "236 \<le> n" and "parse_request (message_buf s) (int n) = Inr request" and "get_message_type request = Inr mt"
    and "dispatch env vt junk request mt s = (Inr r, s\<lparr>alloc := a\<rparr>)" and "cfg_verbosity cfg \<le> 4"
    and "length (message_buf s) = DHCP_MAX_MTU" and "length (eth_bytes (cfg_hw cfg)) = 14"
  shows "serve cfg env vt junk n s = (Inr (), after_reply cfg request r (s\<lparr>alloc := a\<rparr>))"
proof -
  have cookie: "check_magic_cookie (message_buf s) (int n) = Inr True"
    by (rule parse_request_canonical(2) [OF assms(2)])
  have d: "dump_if cfg p s' = (Inr (), s')" for p and s' :: "'a server" using assms(5) by (simp add: dump_if_def retP_def)
  have start: "serve cfg env vt junk n s = (case r of None \<Rightarrow> retP () | Some p \<Rightarrow> respond cfg request p) (s\<lparr>alloc := a\<rparr>)"
    using assms(1-4) by (cases r) (simp_all add: serve_def bindP_def proc_defs cookie d)
  show ?thesis
  proof (cases r)
    case (Some p)
    from dispatch_handled [OF assms(4)] obtain a' where "handled env vt junk request mt (alloc s) a' r" by blast
    then obtain ip where "reply_of (env_subnets env) junk request ip p" using handled_reply Some by blast
    from respond_run [OF this parse_request_canonical(1) [OF assms(2)], of "s\<lparr>alloc := a\<rparr>" cfg] show ?thesis
      using start Some assms(6,7) by (simp add: d after_reply_def)
  qed (use start in \<open>simp add: after_reply_def retP_def\<close>)
qed

section \<open>Runs\<close>

text \<open>One served message, and sequences of them. The heap content \<open>junk\<close> may differ each time.\<close>

inductive srv_step :: "net_cfg \<Rightarrow> alloc_env \<Rightarrow> 'd alloc_vtable \<Rightarrow>
    capture list \<times> 'd server \<Rightarrow> capture list \<times> 'd server \<Rightarrow> bool"
  for cfg :: net_cfg and env :: alloc_env and vt :: "'d alloc_vtable" where
  "recv_packet caps (message_buf (clear_buf cfg s)) DHCP_MAX_MTU = Inr (Some (n, buf, rest)) \<Longrightarrow>
   serve cfg env vt junk n ((clear_buf cfg s)\<lparr>message_buf := buf\<rparr>) = (Inr (), t) \<Longrightarrow>
   srv_step cfg env vt (caps, s) (rest, t)"

inductive server_run :: "net_cfg \<Rightarrow> alloc_env \<Rightarrow> 'd alloc_vtable \<Rightarrow>
    capture list \<times> 'd server \<Rightarrow> capture list \<times> 'd server \<Rightarrow> bool"
  for cfg :: net_cfg and env :: alloc_env and vt :: "'d alloc_vtable" where
  run_start: "server_run cfg env vt c c"
| run_step: "server_run cfg env vt c d \<Longrightarrow> srv_step cfg env vt d e \<Longrightarrow> server_run cfg env vt c e"

inductive_cases srv_stepE: "srv_step cfg env vt (caps, s) d"

lemma server_run_trans: "server_run cfg env vt d e \<Longrightarrow> server_run cfg env vt c d \<Longrightarrow> server_run cfg env vt c e"
  by (induction rule: server_run.induct) (auto intro: run_step)

lemma main_loop_runs:
  "main_loop cfg env vt junk k caps s = (Inr (), t) \<Longrightarrow>
     \<exists>rest s'. server_run cfg env vt (caps, s) (rest, s') \<and> t = clear_buf cfg s'
       \<and> recv_packet rest (message_buf t) DHCP_MAX_MTU = Inr None"
proof (induction cfg env vt junk k caps s rule: main_loop.induct)
  case (1 cfg env vt junk k caps s)
  let ?s0 = "clear_buf cfg s"
  consider "recv_packet caps (message_buf ?s0) DHCP_MAX_MTU = Inr None" "t = ?s0"
    | n buf rest t1 where "recv_packet caps (message_buf ?s0) DHCP_MAX_MTU = Inr (Some (n, buf, rest))"
      "serve cfg env vt (junk k) n (?s0\<lparr>message_buf := buf\<rparr>) = (Inr (), t1)"
      "main_loop cfg env vt junk (Suc k) rest t1 = (Inr (), t)"
    using "1.prems" by (auto simp: main_loop.simps [of cfg env vt junk k caps s] Let_def
        split: sum.splits option.splits prod.splits)
  then show ?case
  proof cases
    case 1
    then show ?thesis by (auto intro: run_start)
  next
    case (2 n buf rest t1)
    have step: "srv_step cfg env vt (caps, s) (rest, t1)" using 2(1,2) by (rule srv_step.intros)
    from "1.IH" [OF refl 2(1) refl refl refl 2(2) [symmetric] refl 2(3)] show ?thesis
      using server_run_trans [OF _ run_step [OF run_start step]] by blast
  qed
qed

section \<open>Invariant\<close>

text \<open>The message buffer keeps its size and the lease table one row per address.\<close>

definition server_ok :: "('d \<Rightarrow> lease set) \<Rightarrow> 'd server \<Rightarrow> bool" where
  "server_ok rows s \<longleftrightarrow> length (message_buf s) = DHCP_MAX_MTU \<and> keyed (rows (leases_db (alloc s)))"

lemma server_ok_clear [simp]: "server_ok rows s \<Longrightarrow> server_ok rows (clear_buf cfg s)"
  by (simp add: server_ok_def clear_buf_def)

lemma clear_buf_sent [simp]: "sent (clear_buf cfg s) = sent s"
  by (simp add: clear_buf_def)

lemma handled_keyed:
  assumes "lease_engine api rows query args" and "handled env (sql_vtable env api) junk request mt a a' r"
    and "keyed (rows (leases_db a))"
  shows "keyed (rows (leases_db a'))"
proof -
  note k = operations_keyed [OF assms(1,3)]
  have op: "ip_alloc env (sql_vtable env api) mac a = (x, b) \<Longrightarrow> keyed (rows (leases_db b))"
    "ip_check env (sql_vtable env api) mac ip a = (y, b) \<Longrightarrow> keyed (rows (leases_db b))"
    "ip_free env mac ip a = (z, b) \<Longrightarrow> keyed (rows (leases_db b))"
    "ip_invalidate (sql_vtable env api) mac ip a = (z, b) \<Longrightarrow> keyed (rows (leases_db b))" for mac ip b x y z
    using k [of "snd \<circ> ip_alloc env (sql_vtable env api) mac" env mac ip]
      k [of "snd \<circ> ip_check env (sql_vtable env api) mac ip" env mac ip]
      k [of "snd \<circ> ip_free env mac ip" env mac ip]
      k [of "snd \<circ> ip_invalidate (sql_vtable env api) mac ip" env mac ip] by auto
  show ?thesis using assms(2,3) by cases (auto dest: op)
qed

lemma length_after_reply:
  assumes "handled env vt junk request mt a a' r" and "canonical request" and "length (message_buf s) = DHCP_MAX_MTU"
  shows "length (message_buf (after_reply cfg request r s)) = DHCP_MAX_MTU"
proof (cases r)
  case (Some p)
  have "length (chaddr request) = 16" using assms(2) by (simp add: canonical_def wf_header_def)
  then have "length (wire p) \<le> 541" using handled_reply assms(1) reply_writable(3) unfolding Some by blast
  then show ?thesis using assms(3) Some by (simp add: after_reply_def)
qed (use assms in \<open>simp add: after_reply_def\<close>)

lemma srv_step_ok:
  assumes "lease_engine api rows query args" and "length (eth_bytes (cfg_hw cfg)) = 14"
    and "srv_step cfg env (sql_vtable env api) (caps, s) (rest, t)" and "server_ok rows s"
  shows "server_ok rows t \<and> length rest < length caps \<and> (\<exists>evs. sent t = sent s @ evs \<and> length evs \<le> 1)"
proof -
  from assms(3) obtain n buf junk where
    r: "recv_packet caps (message_buf (clear_buf cfg s)) DHCP_MAX_MTU = Inr (Some (n, buf, rest))"
    and v: "serve cfg env (sql_vtable env api) junk n ((clear_buf cfg s)\<lparr>message_buf := buf\<rparr>) = (Inr (), t)"
    by (elim srv_stepE) simp
  have c: "server_ok rows (clear_buf cfg s)" using assms(4) by simp
  then have l: "length buf = DHCP_MAX_MTU" using recv_packet_length [OF r] by (simp add: server_ok_def)
  from v show ?thesis
  proof (rule serve_served [OF _ _ assms(2)], goal_cases)
    case 1
    then show ?case using l by simp
  next
    case 2
    then show ?case using c l recv_packet_consumes [OF r] by (simp add: server_ok_def)
  next
    case (3 request mt a p)
    have "keyed (rows (leases_db a))"
      using handled_keyed [OF assms(1) 3(3)] c by (simp add: server_ok_def)
    moreover have "length (message_buf t) = DHCP_MAX_MTU"
      unfolding 3(4) by (rule length_after_reply [OF 3(3) parse_request_canonical(1) [OF 3(1)]]) (simp add: l)
    ultimately show ?case
      using recv_packet_consumes [OF r] 3(4) by (auto simp: server_ok_def after_reply_def split: option.splits)
  qed
qed

section \<open>A concrete server\<close>

definition example_discover :: DHCP_Packet where
  "example_discover = DHCP_Packet_new\<lparr>pkt_op := 1, htype := 1, hlen := 6, xid := 42,
     chaddr := le_bytes 8 (0x552AF028E718 :: u64) @ replicate 8 0,
     pkt_options := option_slots [set_value_u8 DHO_DHCP_MESSAGE_TYPE 1]\<rparr>"

definition example_request :: DHCP_Packet where
  "example_request = example_discover\<lparr>pkt_options := option_slots
     [set_value_u8 DHO_DHCP_MESSAGE_TYPE 3, set_value_u32 DHO_DHCP_REQUESTED_ADDRESS 0x6400000A]\<rparr>"

definition example_cfg :: net_cfg where
  "example_cfg = \<lparr>cfg_verbosity = 3, cfg_hw = \<lparr>eth_dhost = replicate 6 255, eth_shost = [1, 2, 3, 4, 5, 6], eth_type = htons 0x0800\<rparr>,
     cfg_ip = 0x0100000A\<rparr>"

definition example_server :: "DHCP_Packet \<Rightarrow> mem_db server" where
  "example_server pkt = \<lparr>alloc = example_state, message_buf = wire pkt @ replicate (DHCP_MAX_MTU - length (wire pkt)) 0, sent = []\<rparr>"

lemma example_packets_canonical: "canonical example_discover" "canonical example_request"
  by (rule canonicalI(1) [where opts = "[set_value_u8 DHO_DHCP_MESSAGE_TYPE 1]"],
      simp_all add: wf_header_def example_discover_def DHCP_Packet_new_def canonical_option_def set_value_u8_def)
    (rule canonicalI(1) [where opts = "[set_value_u8 DHO_DHCP_MESSAGE_TYPE 3, set_value_u32 DHO_DHCP_REQUESTED_ADDRESS 0x6400000A]"],
      simp_all add: wf_header_def example_request_def example_discover_def DHCP_Packet_new_def canonical_option_def
        set_value_u8_def set_value_u32_def)

lemma example_hw [simp]: "length (eth_bytes (cfg_hw example_cfg)) = 14"
  by (simp add: example_cfg_def eth_bytes_def)

lemma example_wire_length: "length (wire example_discover) = 300" "length (wire example_request) = 300"
  by code_simp+

lemma example_server_parse:
  "parse_request (message_buf (example_server example_discover)) 300 = Inr example_discover"
  "parse_request (message_buf (example_server example_request)) 300 = Inr example_request"
  using write_read_canonical(2) [OF example_packets_canonical(1), of "replicate 300 0"]
    write_read_canonical(2) [OF example_packets_canonical(2), of "replicate 300 0"]
  by (simp_all add: example_server_def example_wire_length)

lemma example_server_alloc:
  "ip_alloc example_env (sql_vtable example_env mem_api) (pkt_mac example_discover) example_state
   = (Inr (Some (IPAddress_u 0x6400000A)), snd (ip_alloc example_env (sql_vtable example_env mem_api) (pkt_mac example_discover) example_state))"
proof -
  have "fst (ip_alloc example_env (sql_vtable example_env mem_api) (pkt_mac example_discover) example_state)
    = Inr (Some (IPAddress_u 0x6400000A))" by code_simp
  then show ?thesis by (simp add: prod_eq_iff)
qed

lemma example_dispatch:
  "dispatch example_env (sql_vtable example_env mem_api) 7 example_discover 1 (example_server example_discover)
   = (Inr (Some (projr (create_dhcp_offer example_subnets 7 example_discover (IPAddress_u 0x6400000A)))),
      (example_server example_discover)\<lparr>alloc := snd (ip_alloc example_env (sql_vtable example_env mem_api) (pkt_mac example_discover) example_state)\<rparr>)"
proof -
  obtain r where "create_dhcp_offer example_subnets 7 example_discover (IPAddress_u 0x6400000A) = Inr r"
    by (simp add: create_dhcp_offer_eq) (simp add: example_subnets_def example_global_def)
  moreover have "env_subnets example_env = example_subnets" by (simp add: example_env_def)
  moreover have "alloc (example_server example_discover) = example_state" by (simp add: example_server_def)
  moreover obtain a where "ip_alloc example_env (sql_vtable example_env mem_api) (pkt_mac example_discover) example_state
      = (Inr (Some (IPAddress_u 0x6400000A)), a)" using example_server_alloc by blast
  ultimately show ?thesis
    unfolding dispatch_branch by (simp add: bindP_def on_alloc_def proc_defs)
qed

lemma example_message_type:
  "get_message_type example_discover = Inr 1" "get_message_type example_request = Inr 3"
  by (simp_all add: example_discover_def example_request_def)

lemma example_server_buf:
  "length (message_buf (example_server example_discover)) = DHCP_MAX_MTU"
  "length (message_buf (example_server example_request)) = DHCP_MAX_MTU"
  by (simp_all add: example_server_def example_wire_length)

lemma example_serve:
  "\<exists>t. serve example_cfg example_env (sql_vtable example_env mem_api) 7 300 (example_server example_discover) = (Inr (), t)"
proof -
  have "parse_request (message_buf (example_server example_discover)) (int 300) = Inr example_discover"
    using example_server_parse(1) by simp
  moreover have "cfg_verbosity example_cfg \<le> 4" by (simp add: example_cfg_def)
  ultimately show ?thesis
    using serve_answers [OF _ _ example_message_type(1) example_dispatch _ example_server_buf(1) example_hw, of 300] by auto
qed

section \<open>Properties\<close>

text \<open>C3 A DISCOVER that is served gets exactly one reply. It is either the OFFER of an address
  whose only row in the lease table afterwards belongs to the client, or, if the allocator has
  no address, a NAK.\<close>

theorem discover_is_answered:
  assumes "lease_engine api rows query args" and "server_ok rows s" and "length (eth_bytes (cfg_hw cfg)) = 14"
    and "serve cfg env (sql_vtable env api) junk n s = (Inr (), t)" and "236 \<le> n"
    and "parse_request (message_buf s) (int n) = Inr request" and "get_message_type request = Inr 1"
  shows "server_ok rows t
    \<and> (\<exists>r. sent t = sent s @ [reply_event cfg request r]
       \<and> ((\<exists>ip row. create_dhcp_offer (env_subnets env) junk request ip = Inr r
            \<and> {l \<in> rows (leases_db (alloc t)). lease_ip l = ip_s_addr ip} = {row} \<and> lease_mac row = mac_s_addr (pkt_mac request))
         \<or> create_dhcp_nak (env_subnets env) request IPAddress_none = Inr r))"
proof -
  have l: "length (message_buf s) = DHCP_MAX_MTU" and k: "keyed (rows (leases_db (alloc s)))"
    using assms(2) by (simp_all add: server_ok_def)
  note c = parse_request_canonical [OF assms(6)]
  from serve_served [OF assms(4) l assms(3)] obtain a r where
    h: "handled env (sql_vtable env api) junk request 1 (alloc s) a r" and t: "t = after_reply cfg request r (s\<lparr>alloc := a\<rparr>)"
    using assms(5-7) c(2) by (metis Inr_inject linorder_not_le)
  have ok: "server_ok rows t"
    using handled_keyed [OF assms(1) h k] length_after_reply [OF h c(1), of "s\<lparr>alloc := a\<rparr>" cfg] l
    unfolding t by (auto simp: server_ok_def after_reply_def split: option.splits)
  from h show ?thesis
  proof cases
    case (discover_offer ip p)
    from granted_exclusive [OF assms(1) k discover_offer(2)] obtain row where
      "{l \<in> rows (leases_db a). lease_ip l = ip_s_addr ip} = {row}" "lease_mac row = mac_s_addr (pkt_mac request)" by blast
    moreover have "sent t = sent s @ [reply_event cfg request p]" "alloc t = a"
      by (simp_all add: t after_reply_def discover_offer(1))
    ultimately show ?thesis using ok discover_offer(3) by auto
  next
    case (discover_nak p)
    then show ?thesis using ok unfolding t after_reply_def by auto
  qed simp_all
qed

theorem discover_is_answered_witness:
  "\<exists>t r. serve example_cfg example_env (sql_vtable example_env mem_api) 7 300 (example_server example_discover) = (Inr (), t)
     \<and> sent t = [reply_event example_cfg example_discover r]"
proof -
  obtain t where t: "serve example_cfg example_env (sql_vtable example_env mem_api) 7 300 (example_server example_discover) = (Inr (), t)"
    using example_serve by blast
  have ok: "server_ok (\<lambda>d. set (mem_rows d)) (example_server example_discover)"
    using example_server_buf(1) example_keyed by (simp add: server_ok_def) (simp add: example_server_def)
  show ?thesis
    using discover_is_answered [OF mem.lease_engine_axioms ok example_hw t _ _ example_message_type(1)] example_server_parse(1) t
    by (auto simp: example_server_def)
qed

lemma served_request:
  assumes "lease_engine api rows query args" and "server_ok rows s" and "length (eth_bytes (cfg_hw cfg)) = 14"
    and "serve cfg env (sql_vtable env api) junk n s = (Inr (), t)" and "236 \<le> n"
    and "parse_request (message_buf s) (int n) = Inr request" and "get_message_type request = Inr 3"
  shows "\<exists>ip ok r. get_requested_address request = Inr ip
     \<and> ip_check env (sql_vtable env api) (pkt_mac request) ip (alloc s) = (Inr ok, alloc t)
     \<and> sent t = sent s @ [reply_event cfg request r]
     \<and> (if ok then create_dhcp_ack (env_subnets env) junk request ip = Inr (Some r)
         else create_dhcp_nak (env_subnets env) request ip = Inr r)"
proof -
  have l: "length (message_buf s) = DHCP_MAX_MTU" using assms(2) by (simp add: server_ok_def)
  from serve_served [OF assms(4) l assms(3)] obtain a r where
    h: "handled env (sql_vtable env api) junk request 3 (alloc s) a r" and t: "t = after_reply cfg request r (s\<lparr>alloc := a\<rparr>)"
    using assms(5-7) parse_request_canonical [OF assms(6)] by (metis Inr_inject linorder_not_le)
  from h show ?thesis
  proof cases
    case (request_ack ip)
    from accepted_own [OF assms(1) request_ack(2)] obtain p where p: "r = Some p" using request_ack(3)
      by (cases r) (auto simp: create_dhcp_ack_def Let_def split: option.splits)
    then have "sent t = sent s @ [reply_event cfg request p]" "alloc t = a" by (simp_all add: t after_reply_def)
    then show ?thesis using request_ack p by (intro exI [of _ ip] exI [of _ True] exI [of _ p]) simp
  next
    case (request_nak ip p)
    then have "sent t = sent s @ [reply_event cfg request p]" "alloc t = a" by (simp_all add: t after_reply_def)
    then show ?thesis using request_nak by (intro exI [of _ ip] exI [of _ False] exI [of _ p]) simp
  qed simp_all
qed

text \<open>C4 A REQUEST that is served gets exactly one reply: an ACK exactly if \<open>ip_check\<close> accepts the
  requested address, otherwise a NAK, and the ACK only for an address of a configured subnet that
  is the client's static address or, in a subnet with a dynamic range, an address of which the lease
  table had a row of this client. There is no third case: RFC 2131 (\<open>src/doc/rfc2131.txt\<close>, 4.3.2) asks
  a server without a record of the client to remain silent, and a server other than the one that the
  request selects not to answer; this server answers both, the first with a NAK.\<close>

theorem request_is_answered:
  assumes "lease_engine api rows query args" and "server_ok rows s" and "length (eth_bytes (cfg_hw cfg)) = 14"
    and "serve cfg env (sql_vtable env api) junk n s = (Inr (), t)" and "236 \<le> n"
    and "parse_request (message_buf s) (int n) = Inr request" and "get_message_type request = Inr 3"
  shows "\<exists>ip ok r. get_requested_address request = Inr ip \<and> sent t = sent s @ [reply_event cfg request r]
     \<and> ip_check env (sql_vtable env api) (pkt_mac request) ip (alloc s) = (Inr ok, alloc t)
     \<and> (if ok
        then create_dhcp_ack (env_subnets env) junk request ip = Inr (Some r)
         \<and> (\<exists>sub. mysubnet (env_subnets env) ip = Some sub
            \<and> ((\<exists>newip acc a1. sql_get_static_ip env api (pkt_mac request) (alloc s) = (Inr (Some (newip, acc)), a1)
                  \<and> ip_u_addr newip = ip_u_addr ip)
             \<or> has_dynamic_range sub \<and> (\<exists>row \<in> rows (leases_db (alloc s)). lease_mac row = mac_s_addr (pkt_mac request)
                  \<and> (\<exists>newip. IPAddress_s (lease_ip row) = Inr newip \<and> ip_u_addr newip = ip_u_addr ip))))
        else create_dhcp_nak (env_subnets env) request ip = Inr r)"
proof -
  from served_request [OF assms] obtain ip ok r where
    1: "get_requested_address request = Inr ip" "ip_check env (sql_vtable env api) (pkt_mac request) ip (alloc s) = (Inr ok, alloc t)"
      "sent t = sent s @ [reply_event cfg request r]"
    and 2: "if ok then create_dhcp_ack (env_subnets env) junk request ip = Inr (Some r) else create_dhcp_nak (env_subnets env) request ip = Inr r"
    by blast
  show ?thesis
  proof (cases ok)
    case True
    with 1(2) have "ip_check env (sql_vtable env api) (pkt_mac request) ip (alloc s) = (Inr True, alloc t)" by simp
    note own = accepted_own [OF assms(1) this]
    from 1 2 True own show ?thesis by (intro exI [of _ ip] exI [of _ ok] exI [of _ r]) simp
  next
    case False
    with 1 2 show ?thesis by (intro exI [of _ ip] exI [of _ ok] exI [of _ r]) simp
  qed
qed

text \<open>A client of which the server has no record, neither a static address nor a row, is sent a NAK.\<close>

lemma unknown_client_gets_nak:
  assumes "lease_engine api rows query args" and "server_ok rows s" and "length (eth_bytes (cfg_hw cfg)) = 14"
    and "serve cfg env (sql_vtable env api) junk n s = (Inr (), t)" and "236 \<le> n"
    and "parse_request (message_buf s) (int n) = Inr request" and "get_message_type request = Inr 3"
    and "\<And>v a1. sql_get_static_ip env api (pkt_mac request) (alloc s) \<noteq> (Inr (Some v), a1)"
    and "\<And>row. row \<in> rows (leases_db (alloc s)) \<Longrightarrow> lease_mac row \<noteq> mac_s_addr (pkt_mac request)"
  shows "\<exists>ip r. create_dhcp_nak (env_subnets env) request ip = Inr r \<and> sent t = sent s @ [reply_event cfg request r]"
proof -
  from served_request [OF assms(1-7)] obtain ip ok r where
    1: "ip_check env (sql_vtable env api) (pkt_mac request) ip (alloc s) = (Inr ok, alloc t)" "sent t = sent s @ [reply_event cfg request r]"
    and 2: "if ok then create_dhcp_ack (env_subnets env) junk request ip = Inr (Some r) else create_dhcp_nak (env_subnets env) request ip = Inr r"
    by blast
  have "\<not> ok"
  proof
    assume ok
    with accepted_own [OF assms(1), of env "pkt_mac request" ip "alloc s" "alloc t"] 1(1) assms(8,9) show False by auto
  qed
  with 1 2 show ?thesis by auto
qed

text \<open>A DECLINE as RFC 2131 (table 5) has it carries the address in an option and zero in \<open>ciaddr\<close>, which
  is the field that the server takes it from: no row changes, unless the table has one for 0.0.0.0.\<close>

lemma conforming_decline_blocks_nothing:
  assumes "lease_engine api rows query args" and "server_ok rows s" and "length (eth_bytes (cfg_hw cfg)) = 14"
    and "serve cfg env (sql_vtable env api) junk n s = (Inr (), t)" and "236 \<le> n"
    and "parse_request (message_buf s) (int n) = Inr request" and "get_message_type request = Inr 4"
    and "ciaddr request = 0" and "ip_u2s 0 \<notin> lease_ip ` rows (leases_db (alloc s))"
  shows "rows (leases_db (alloc t)) = rows (leases_db (alloc s)) \<and> sent t = sent s"
proof -
  have l: "length (message_buf s) = DHCP_MAX_MTU" using assms(2) by (simp add: server_ok_def)
  from serve_served [OF assms(4) l assms(3)] obtain a r where
    h: "handled env (sql_vtable env api) junk request 4 (alloc s) a r" and t: "t = after_reply cfg request r (s\<lparr>alloc := a\<rparr>)"
    using assms(5-7) parse_request_canonical [OF assms(6)] by (metis Inr_inject linorder_not_le)
  from h have run: "ip_invalidate (sql_vtable env api) (pkt_mac request) (IPAddress_u 0) (alloc s) = (Inr (), a)" and r: "r = None"
    using assms(8) by (cases, simp_all add: pkt_ip_def)+
  have "touches_only (ip_u2s 0) (rows (leases_db (alloc s))) (rows (leases_db a))"
    using allocator_backend.ip_invalidate_affects [OF sql_backend [OF assms(1)] run] by (simp add: affects_rows_def)
  moreover have "lease_ip ` rows (leases_db a) = lease_ip ` rows (leases_db (alloc s))"
    using recording_backend.record_ips [OF lease_engine.sql_recording_backend [OF assms(1)]] run by (simp add: ip_invalidate_def)
  ultimately have "rows (leases_db a) = rows (leases_db (alloc s))"
    using assms(9) unfolding touches_only_def by (metis imageI subsetI subset_antisym)
  with t r show ?thesis by (simp add: after_reply_def)
qed

lemma example_request_mac: "pkt_mac example_request = MACAddress_u 0x552AF028E718"
  by code_simp

lemma example_request_address: "get_requested_address example_request = Inr (IPAddress_u 0x6400000A)"
  by code_simp

lemma example_serve_request:
  "\<exists>t. serve example_cfg example_env (sql_vtable example_env mem_api) 7 300 (example_server example_request) = (Inr (), t)"
proof -
  obtain a where a: "ip_check example_env (sql_vtable example_env mem_api) (MACAddress_u 0x552AF028E718) (IPAddress_u 0x6400000A) example_state
      = (Inr True, a)" using example_check by (metis prod.collapse)
  obtain r where r: "create_dhcp_ack example_subnets 7 example_request (IPAddress_u 0x6400000A) = Inr (Some r)"
    by (simp add: create_dhcp_ack_eq) (simp add: example_subnets_def example_global_def)
  have e: "env_subnets example_env = example_subnets" by (simp add: example_env_def)
  have st: "alloc (example_server example_request) = example_state" by (simp add: example_server_def)
  have d: "dispatch example_env (sql_vtable example_env mem_api) 7 example_request 3 (example_server example_request)
      = (Inr (Some r), (example_server example_request)\<lparr>alloc := a\<rparr>)"
    unfolding dispatch_branch example_request_mac example_request_address e
    using a r st by (simp add: bindP_def on_alloc_def proc_defs)
  have "parse_request (message_buf (example_server example_request)) (int 300) = Inr example_request"
    using example_server_parse(2) by simp
  moreover have "cfg_verbosity example_cfg \<le> 4" by (simp add: example_cfg_def)
  ultimately show ?thesis
    using serve_answers [OF _ _ example_message_type(2) d _ example_server_buf(2) example_hw, of 300] by auto
qed

theorem request_is_answered_witness:
  "\<exists>t r. serve example_cfg example_env (sql_vtable example_env mem_api) 7 300 (example_server example_request) = (Inr (), t)
     \<and> sent t = [reply_event example_cfg example_request r]"
proof -
  obtain t where t: "serve example_cfg example_env (sql_vtable example_env mem_api) 7 300 (example_server example_request) = (Inr (), t)"
    using example_serve_request by blast
  have ok: "server_ok (\<lambda>d. set (mem_rows d)) (example_server example_request)"
    using example_server_buf(2) example_keyed by (simp add: server_ok_def) (simp add: example_server_def)
  have p: "parse_request (message_buf (example_server example_request)) (int 300) = Inr example_request"
    using example_server_parse(2) by simp
  from request_is_answered [OF mem.lease_engine_axioms ok example_hw t _ p example_message_type(2)]
  obtain r where "sent t = sent (example_server example_request) @ [reply_event example_cfg example_request r]" by auto
  then show ?thesis using t by (auto simp: example_server_def)
qed

lemma server_run_ok:
  assumes "lease_engine api rows query args" and "length (eth_bytes (cfg_hw cfg)) = 14"
    and "server_run cfg env (sql_vtable env api) (caps, s) (rest, t)" and "server_ok rows s"
  shows "server_ok rows t
    \<and> (\<exists>evs. sent t = sent s @ evs \<and> length evs + length rest \<le> length caps)"
  using assms(3)
proof (induction "(caps, s)" "(rest, t)" arbitrary: rest t rule: server_run.induct)
  case run_start
  then show ?case using assms(4) by simp
next
  case (run_step d)
  obtain mid u where d: "d = (mid, u)" by (cases d)
  from run_step.hyps(2) [OF d] obtain evs where
    u: "server_ok rows u" "sent u = sent s @ evs" "length evs + length mid \<le> length caps" by blast
  from srv_step_ok [OF assms(1,2) run_step.hyps(3) [unfolded d] u(1)] obtain evs' where
    "server_ok rows t" "length rest < length mid" "sent t = sent u @ evs'" "length evs' \<le> 1" by blast
  with u show ?case by (intro conjI exI [of _ "evs @ evs'"]) auto
qed

text \<open>C5 The invariant of a run. From a state with a message buffer of its full size and one lease
  row per address, every state that the loop reaches has both again; datagrams are only added
  to those already sent, at most one for every captured frame that was used up.\<close>

theorem server_run_invariant:
  assumes "lease_engine api rows query args" and "length (eth_bytes (cfg_hw cfg)) = 14"
    and "server_run cfg env (sql_vtable env api) (caps, s) (rest, t)" and "server_ok rows s"
  shows "server_ok rows t
    \<and> (\<exists>evs. sent t = sent s @ evs \<and> length evs + length rest \<le> length caps)"
  by (rule server_run_ok [OF assms])

definition example_frame :: bytes where
  "example_frame = replicate 14 0 @ [0x45] @ replicate 27 0 @ wire example_discover"

lemma example_recv:
  "recv_packet [Some (example_frame, 342)] (message_buf (example_server example_discover)) DHCP_MAX_MTU
   = Inr (Some (300, message_buf (example_server example_discover), []))"
proof -
  have h: "example_frame ! 14 = 0x45" "IP_HEADER_SIZE 0x45 = 20"
    by (simp_all add: IP_HEADER_SIZE_def example_frame_def nth_append)
  have d: "drop 42 example_frame = wire example_discover" "length example_frame = 342"
    using example_wire_length(1) by (simp_all add: example_frame_def)
  have "wire example_discover @ drop 300 (message_buf (example_server example_discover)) = message_buf (example_server example_discover)"
    using example_wire_length(1) by (simp add: example_server_def)
  then show ?thesis
    using recv_packet_frame [OF h(1), of 342 300 DHCP_MAX_MTU "message_buf (example_server example_discover)" "[]"]
      h(2) d example_wire_length(1) example_server_buf(1) by simp
qed

lemma example_srv_step:
  "\<exists>t. srv_step example_cfg example_env (sql_vtable example_env mem_api)
     ([Some (example_frame, 342)], example_server example_discover) ([], t)"
proof -
  let ?s = "example_server example_discover"
  have c: "clear_buf example_cfg ?s = ?s" by (simp add: clear_buf_def example_cfg_def)
  obtain t where "serve example_cfg example_env (sql_vtable example_env mem_api) 7 300 (?s\<lparr>message_buf := message_buf ?s\<rparr>) = (Inr (), t)"
    using example_serve by auto
  then show ?thesis using srv_step.intros [of _ example_cfg ?s] c example_recv by metis
qed

theorem server_run_invariant_witness:
  "\<exists>t. server_run example_cfg example_env (sql_vtable example_env mem_api)
     ([Some (example_frame, 342)], example_server example_discover) ([], t)
     \<and> server_ok (\<lambda>d. set (mem_rows d)) t"
proof -
  obtain t where "server_run example_cfg example_env (sql_vtable example_env mem_api)
     ([Some (example_frame, 342)], example_server example_discover) ([], t)"
    using example_srv_step run_step [OF run_start] by blast
  moreover have "server_ok (\<lambda>d. set (mem_rows d)) (example_server example_discover)"
    using example_server_buf(1) example_keyed by (simp add: server_ok_def) (simp add: example_server_def)
  ultimately show ?thesis using server_run_invariant [OF mem.lease_engine_axioms example_hw] by blast
qed

text \<open>C18 An address outside the configured subnets ends the server: if the allocator grants such
  an address for a DISCOVER (a static entry, or a row of an earlier configuration), the exception
  of \<open>create_dhcp_offer\<close> leaves the message loop, no reply is sent and the frames after
  this one are not served.\<close>

theorem offer_outside_subnets_ends_server:
  assumes "recv_packet caps (message_buf s) DHCP_MAX_MTU = Inr (Some (n, buf, rest))" and "236 \<le> n"
    and "cfg_verbosity cfg \<le> 4" and "parse_request buf (int n) = Inr request" and "get_message_type request = Inr 1"
    and "ip_alloc env vt (pkt_mac request) (alloc s) = (Inr (Some ip), a)" and "mysubnet (env_subnets env) ip = None"
  shows "main_loop cfg env vt junk k caps s
         = (Inl (DHCP_PacketException (out_of_range_text ip)), s\<lparr>message_buf := buf, alloc := a\<rparr>)"
proof -
  have c: "check_magic_cookie buf (int n) = Inr True" by (rule parse_request_canonical(2) [OF assms(4)])
  have d: "dump_if cfg p u = (Inr (), u)" for p and u :: "'a server" using assms(3) by (simp add: dump_if_def retP_def)
  have "create_dhcp_offer (env_subnets env) (junk k) request ip = Inl (DHCP_PacketException (out_of_range_text ip))"
    using assms(7) by (simp add: create_dhcp_offer_def Let_def)
  then have "dispatch env vt (junk k) request 1 (s\<lparr>message_buf := buf\<rparr>)
      = (Inl (DHCP_PacketException (out_of_range_text ip)), s\<lparr>message_buf := buf, alloc := a\<rparr>)"
    using assms(6) by (simp add: dispatch_branch bindP_def on_alloc_def proc_defs)
  then have "serve cfg env vt (junk k) n (s\<lparr>message_buf := buf\<rparr>)
      = (Inl (DHCP_PacketException (out_of_range_text ip)), s\<lparr>message_buf := buf, alloc := a\<rparr>)"
    using assms(2,4,5) c d by (simp add: serve_def bindP_def proc_defs)
  moreover have "clear_buf cfg s = s" using assms(3) by (simp add: clear_buf_def)
  ultimately show ?thesis using assms(1) by (simp add: main_loop.simps [of cfg env vt junk k caps s])
qed

definition static_env :: alloc_env where
  "static_env = example_env\<lparr>env_getstring := (\<lambda>_. Inr (Some ''192.168.1.1''))\<rparr>"

theorem offer_outside_subnets_ends_server_witness:
  "\<exists>t. main_loop example_cfg static_env (sql_vtable static_env mem_api) (\<lambda>_. 0) 0
        [Some (example_frame, 342)] (example_server example_discover)
      = (Inl (DHCP_PacketException (out_of_range_text (IPAddress_u 0x0101A8C0))), t)"
proof -
  have "fst (ip_alloc static_env (sql_vtable static_env mem_api) (pkt_mac example_discover) example_state)
      = Inr (Some (IPAddress_u 0x0101A8C0))" by code_simp
  then obtain a where a: "ip_alloc static_env (sql_vtable static_env mem_api) (pkt_mac example_discover) (alloc (example_server example_discover))
      = (Inr (Some (IPAddress_u 0x0101A8C0)), a)"
    by (cases "ip_alloc static_env (sql_vtable static_env mem_api) (pkt_mac example_discover) example_state") (simp add: example_server_def)
  have v: "cfg_verbosity example_cfg \<le> 4" by (simp add: example_cfg_def)
  have m: "mysubnet (env_subnets static_env) (IPAddress_u 0x0101A8C0) = None" by code_simp
  have p: "parse_request (message_buf (example_server example_discover)) (int 300) = Inr example_discover"
    using example_server_parse(1) by simp
  show ?thesis
    using offer_outside_subnets_ends_server [OF example_recv _ v p example_message_type(1) a m] by auto
qed

end
