(* ===== verification/StartupExample.thy ===== *)
theory StartupExample
  imports Startup ServerProps
begin

text \<open>
  Closed instances of the start of the program: a world with the reference engine of \<open>MemEngine\<close>
  whose files are empty tables, a network interface and no configuration file, in which
  \<open>run_server\<close> reaches the loop from a loaded configuration and \<open>main\<close> ends without one.
\<close>

section \<open>The configuration\<close>

lemma ex_more_seeks:
  "ht_seek ex_table ''log-filename'' = Inr None"
  "ht_seek ex_table ''log-init'' = Inr None"
  "ht_seek ex_table ''log-sys'' = Inr None"
  "ht_seek ex_table ''log-net'' = Inr None"
  "ht_seek ex_table ''global-bind-to-address'' = Inr None"
  "ht_seek ex_table ''radius-enabled'' = Inr None"
  "ht_seek ex_table ''pf-enabled'' = Inr None"
  "ht_seek ex_table ''database-static'' = Inr None"
  "ht_seek ex_table ''database-leases'' = Inr (Some ''/var/db/leases'')"
  by (simp_all add: ht_seek_def ht_seek_item_def hi_seek_def hi_seek_loop_pos HSize_def slot_at_def ex_slots ex_item_def hash_eval Let_def)

definition ex_net_api :: "(unit, unit) net_api" where
  "ex_net_api = \<lparr>pcap_lookupdev = Inr ''eth0'', pcap_open_live = (\<lambda>_ _ _. Inr ()), pcap_compile = (\<lambda>_ _. True),
     pcap_setfilter = (\<lambda>_ _. True), pcap_geterr = (\<lambda>_. ''''), sock_udp = Inr (), sock_bind = (\<lambda>_ _ _. None),
     sock_raw = None, ioctl_hwaddr = (\<lambda>_. Inr (replicate 6 7))\<rparr>"

lemma ip_s2u_loop_ok: "i + length (filter ((=) (CHR ''.'')) s) < length t \<Longrightarrow> \<exists>t'. ip_s2u_loop s i t = Inr t'"
  by (induction s arbitrary: i t) auto

lemma ex_net: "\<exists>net. net_initialize ex_net_api ''eth0'' ''10.0.0.10'' False = Inr net"
proof -
  obtain u where u: "ip_s2u ''10.0.0.10'' = Inr u"
    using ip_s2u_loop_ok [of 0 "''10.0.0.10''" "[0, 0, 0, 0]"] by (auto simp: ip_s2u_def)
  have "read_range (replicate 6 (7 :: u8)) 0 6 = Inr (replicate 6 7)" by (simp add: read_range_def)
  with u show ?thesis
    by (simp add: net_initialize_def open_listening_socket_def open_broadcast_socket_def open_communication_socket_def
      device_name_def open_live_def build_ethernet_header_def ex_net_api_def)
qed

definition ex_sql :: "(mem_db, mem_stmt) sqlite_api" where
  "ex_sql = mem_api\<lparr>sq_open := \<lambda>_ _ _. (SQLITE_OK, \<lparr>mem_rows = [], mem_changes = 0, mem_errcode = 0\<rparr>)\<rparr>"

text \<open>The contract says nothing of how a file is opened.\<close>

lemma populating_engine_open: "populating_engine (api\<lparr>sq_open := f\<rparr>) rows query args left = populating_engine api rows query args left"
  by (cases api) (simp only: populating_engine_def lease_engine_def populating_engine_axioms_def sqlite_api.simps)

lemma ex_sql_engine: "populating_engine ex_sql (\<lambda>d. set (mem_rows d)) stmt_query (\<lambda>st. map_of (stmt_args st)) mem_left"
  unfolding ex_sql_def populating_engine_open by (rule mem.populating_engine_axioms)


definition ex_world :: "(unit, unit, mem_db, mem_stmt, string \<Rightarrow> u32 set, unit) world" where
  "ex_world = \<lparr>w_version = ''s3dhcpd 1.0'', w_rc = \<lparr>getenv = (\<lambda>_. None), file_text = (\<lambda>_. Inl ''No such file'')\<rparr>,
     w_form = ex_form_env, w_time = ''2012-06-01 12:00:00'', w_open = (\<lambda>_. True), w_os = ex_os_env, w_net = ex_net_api,
     w_radius_socket = Inr (), w_pf = mem_pf, w_sql = ex_sql, w_databases = Map.empty, w_rows = 1, w_clock = (\<lambda>_. 0),
     w_captures = [], w_stack = replicate DHCP_MAX_MTU 0, w_heap = (\<lambda>_. 0)\<rparr>"

definition ex_start :: "dsApprc \<Rightarrow> (unit, unit, mem_db, string \<Rightarrow> u32 set, unit) s3dhcpd" where
  "ex_start rc = \<lparr>g_process = ex_process, g_log = dsLog_new, g_rc = rc, g_subnets = \<lparr>subnets = [], globalnet = None\<rparr>,
     g_net = None, g_radius = None, g_pf = example_pf\<lparr>pf_active := False\<rparr>, g_allocator = None, g_server = None, g_stderr = []\<rparr>"

text \<open>Running a program forward.\<close>

definition runs :: "('s, 'a) prog \<Rightarrow> 's \<Rightarrow> ('a \<Rightarrow> 's \<Rightarrow> bool) \<Rightarrow> bool" where
  "runs m s P \<longleftrightarrow> (\<exists>x t. m s = Some (Returned x, t) \<and> P x t)"

lemma runs_bindG: "runs m s (\<lambda>x t. runs (f x) t P) \<Longrightarrow> runs (bindG m f) s P"
  by (auto simp: runs_def bindG_def)

lemma runs_basic:
  "P x s \<Longrightarrow> runs (retG x) s P" "P (g s) s \<Longrightarrow> runs (getG g) s P" "P () (h s) \<Longrightarrow> runs (modifyG h) s P"
  "r = Inr x \<Longrightarrow> P x s \<Longrightarrow> runs (liftG r) s P"
  by (auto simp: runs_def retG_def getG_def modifyG_def liftG_def)

lemma runs_from_rc: "f (g_rc s) = Inr x \<Longrightarrow> P x s \<Longrightarrow> runs (from_rc f) s P"
  by (auto simp: runs_def from_rc_def bindG_def getG_def liftG_def)

text \<open>The log on the standard error stream, with its stack of components.\<close>

definition quiet :: "string option list \<Rightarrow> nat \<Rightarrow> dsLog \<Rightarrow> bool" where
  "quiet st n l \<longleftrightarrow> log_out l = Cerr \<and> os_width (log_os l Cerr) = 0 \<and> log_stack l = st \<and> log_top l = n"

lemma runs_print:
  assumes "quiet st n (g_log s)" and "separated ps" and "print_pieces ps ap = Some t" and "unsigned_pads ps ap"
    and "f = concat (map piece_format ps)" and "\<And>l. quiet st n l \<Longrightarrow> P 0 (s\<lparr>g_log := l\<rparr>)"
  shows "runs (on_log w (\<lambda>le. log_print le f ap)) s P"
proof -
  let ?le = "\<lparr>le_form = w_form w, le_time = w_time w, le_rc = g_rc s, le_open = w_open w\<rparr>"
  from adds_log_write [OF assms(2-4), of Cerr 0 "g_log s" ?le] assms(1) obtain os where
    "log_write ?le Cerr (WITH_BANNER OR WITH_EOL) 0 f ap (g_log s) = (Inr (), (g_log s)\<lparr>log_os := (log_os (g_log s))(Cerr := os)\<rparr>)"
    "os_width os = 0" by (auto simp: adds_def quiet_def assms(5))
  with assms(1) have "on_log w (\<lambda>le. log_print le f ap) s =
      Some (Returned 0, s\<lparr>g_log := (g_log s)\<lparr>log_os := (log_os (g_log s))(Cerr := os)\<rparr>\<rparr>)"
    "quiet st n ((g_log s)\<lparr>log_os := (log_os (g_log s))(Cerr := os)\<rparr>)"
    by (simp_all add: on_log_def log_print_def log_message_def bindP_def proc_defs quiet_def liftG_def)
  with assms(6) show ?thesis by (auto simp: runs_def)
qed

lemma runs_push:
  assumes "quiet st n (g_log s)" and "n < 9" and "getint_default (g_rc s) (''log-'' @ name) 99 = Inr v"
    and "\<And>l. quiet (st[Suc n := Some name]) (Suc n) l \<Longrightarrow> P () (s\<lparr>g_log := l\<rparr>)"
  shows "runs (on_log w (\<lambda>le. push_component le name)) s P"
proof -
  have "\<exists>l. on_log w (\<lambda>le. push_component le name) s = Some (Returned (), s\<lparr>g_log := l\<rparr>) \<and> quiet (st[Suc n := Some name]) (Suc n) l"
    using assms(1-3)
    by (simp add: on_log_def push_component_def bindP_def proc_defs quiet_def liftG_def verbosity_def)
      (intro exI conjI, rule refl, simp_all)
  with assms(4) show ?thesis by (auto simp: runs_def)
qed

lemma runs_pop:
  assumes "quiet st (Suc n) (g_log s)" and "n < length st" and "st ! n = Some name" and "getint_default (g_rc s) (''log-'' @ name) 99 = Inr v"
    and "\<And>l. quiet st n l \<Longrightarrow> P () (s\<lparr>g_log := l\<rparr>)"
  shows "runs (on_log w pop_component) s P"
proof -
  have "\<exists>l. on_log w pop_component s = Some (Returned (), s\<lparr>g_log := l\<rparr>) \<and> quiet st n l"
    using assms(1-4)
    by (simp add: on_log_def pop_component_def bindP_def proc_defs quiet_def liftG_def verbosity_def)
      (intro exI conjI, rule refl, simp_all)
  with assms(5) show ?thesis by (auto simp: runs_def)
qed


lemma ex_gets:
  "getstring_default ex_rc ''log-filename'' ''cerr'' = Inr ''cerr''"
  "getint_default ex_rc ''log-init'' 99 = Inr 99" "getint_default ex_rc ''log-net'' 99 = Inr 99"
  "getint_default ex_rc ''log-sys'' 99 = Inr 99"
  "getstring ex_rc ''global-server-addr'' = Inr ''10.0.0.10''" "getbool_default ex_rc ''global-bind-to-address'' False = Inr False"
  "getbool_default ex_rc ''radius-enabled'' False = Inr False" "getbool_default ex_rc ''pf-enabled'' False = Inr False"
  "has_key ex_rc ''database-static'' = Inr False" "getstring ex_rc ''database-leases'' = Inr ''/var/db/leases''"
  by (simp_all add: getstring_default_def getint_default_def getstring_def getbool_default_def has_key_def rc_seek_def ex_rc_h ex_more_seeks ex_seeks)

lemma ex_prepare:
  assumes "g_rc s = ex_rc" and "g_subnets s = \<lparr>subnets = [sub], globalnet = g\<rparr>" and "range_start sub = IPAddress_none" and "\<not> pf_active (g_pf s)"
  shows "\<exists>a. prepare_databases (the_alloc_env ex_world s) 1 ex_sql Map.empty = Inr a"
proof -
  have "\<not> has_dynamic_range sub" using assms(3) by (simp add: has_dynamic_range_def IPAddress_none_def)
  with assms show ?thesis
    by (simp add: prepare_databases_def open_static_def create_leases_def populate_leases_def populate_pf_def the_alloc_env_def
        ex_gets ex_sql_def mem_api_def Let_def)
qed

lemma runs_mono: "runs m s P \<Longrightarrow> (\<And>x t. P x t \<Longrightarrow> Q x t) \<Longrightarrow> runs m s Q"
  by (auto simp: runs_def)

lemma runs_eq: "m s = Some (Returned x, t) \<Longrightarrow> P x t \<Longrightarrow> runs m s P"
  by (auto simp: runs_def)

lemmas runs_defs = bindG_def getG_def liftG_def modifyG_def retG_def from_rc_def

text \<open>The stack of components at the start.\<close>

abbreviation ex_stack :: "string option list" where
  "ex_stack \<equiv> (replicate 10 None)[0 := Some ''sys'']"

lemma ex_start_log:
  "runs (start_log ex_world ''eth0'' False) (ex_start ex_rc)
     (\<lambda>_ t. \<exists>l. t = (ex_start ex_rc)\<lparr>g_log := l\<rparr> \<and> quiet (ex_stack[Suc 0 := Some ''init'']) (Suc 0) l)"
proof -
  have 0: "quiet ex_stack 0 (g_log (ex_start ex_rc))" by (simp add: ex_start_def quiet_def dsLog_new_def ostream_new_def)
  have f: "''%s'' @ [CHR 0x0A] = concat (map piece_format [PStr, PText [CHR 0x0A]])"
    "''As %s. See %s'' = concat (map piece_format [PText ''As '', PStr, PText ''. See '', PStr])" by simp_all
  have set: "runs (on_log ex_world (\<lambda>le. set_output le ''cerr'')) s P"
    if "quiet st n (g_log s)" "\<And>l. quiet st n l \<Longrightarrow> P () (s\<lparr>g_log := l\<rparr>)" for s st n P
    using that by (intro runs_eq [where t = "s\<lparr>g_log := (g_log s)\<lparr>log_out := Cerr\<rparr>\<rparr>"])
      (simp_all add: on_log_def set_output_def proc_defs liftG_def quiet_def)
  show ?thesis
    unfolding start_log_def Let_def if_False
    by (intro runs_bindG runs_from_rc [where x = "''cerr''"] runs_print [OF _ _ _ _ f(1), where n = 0 and st = ex_stack]
          runs_print [OF _ _ _ _ f(2), where n = 0 and st = ex_stack] runs_basic(1) set [where n = 0 and st = ex_stack]
          runs_push [where n = 0 and st = ex_stack and v = 99])
      (use 0 in \<open>auto simp: ex_gets ex_start_def\<close>)
qed

lemma ex_serve:
  assumes "g_rc s = ex_rc" and "g_net s = Some net" and "g_allocator s = Some a" and "quiet st 0 (g_log s)"
  shows "runs (serve_clients ex_world) s (\<lambda>_ _. True)"
  unfolding serve_clients_def get_allocator_def allocator_initialize_def
  by (intro runs_bindG runs_push [where n = 0 and st = st and v = 99])
    (use assms in \<open>simp_all add: ex_gets runs_def runs_defs main_loop.simps ex_world_def clear_buf_def\<close>)

lemma ex_run: "runs (run_server ex_world ''eth0'' False) (ex_start ex_rc) (\<lambda>_ _. True)"
proof -
  obtain net where net: "net_initialize ex_net_api ''eth0'' ''10.0.0.10'' False = Inr net" using ex_net by blast
  obtain sub g where load: "subnets_load ex_rc \<lparr>subnets = [], globalnet = None\<rparr> = Inr (ex_rc, \<lparr>subnets = [sub], globalnet = Some g\<rparr>)"
    "range_start sub = IPAddress_none" using ex_load by blast
  have rest: "runs (bindG start_subnets (\<lambda>_. bindG (start_net ex_world ''eth0'') (\<lambda>_.
     bindG (start_radius ex_world) (\<lambda>_. bindG (start_pf ex_world) (\<lambda>_. allocator_initialize ex_world)))))
     ((ex_start ex_rc)\<lparr>g_log := l\<rparr>) (\<lambda>_ t. g_rc t = ex_rc \<and> g_net t = Some net \<and> (\<exists>a. g_allocator t = Some a) \<and> g_log t = l)" for l
  proof -
    let ?t = "(ex_start ex_rc)\<lparr>g_log := l, g_subnets := \<lparr>subnets = [sub], globalnet = Some g\<rparr>, g_net := Some net\<rparr>"
    obtain a where "prepare_databases (the_alloc_env ex_world ?t) 1 ex_sql Map.empty = Inr a"
      using ex_prepare [of ?t sub "Some g"] load(2) by (auto simp: ex_start_def)
    then show ?thesis
      using load(1) net
      by (simp add: runs_def runs_defs start_subnets_def start_net_def start_radius_def start_pf_def allocator_initialize_def
          new_IPAllocatorSQL_def ex_gets ex_start_def ex_world_def)
  qed
  have assoc: "bindG (bindG m h) k = bindG m (\<lambda>x. bindG (h x) k)" for m :: "('s, 'a) prog" and h :: "'a \<Rightarrow> ('s, 'b) prog" and k :: "'b \<Rightarrow> ('s, 'c) prog"
    by (simp add: bindG_def fun_eq_iff split: option.splits outcome.splits)
  have f: "''*** Server initilization done.'' = concat (map piece_format [PText ''*** Server initilization done.''])" by simp
  have tail: "runs (bindG (on_log ex_world (\<lambda>le. log_print le ''*** Server initilization done.'' []))
      (\<lambda>_. bindG (on_log ex_world pop_component) (\<lambda>_. serve_clients ex_world))) t (\<lambda>_ _. True)"
    if "g_rc t = ex_rc" "g_net t = Some net" "g_allocator t = Some a" "quiet st (Suc 0) (g_log t)" "st = ex_stack[Suc 0 := Some ''init'']" for t a st
    by (intro runs_bindG runs_print [OF _ _ _ _ f, where n = "Suc 0" and st = st] runs_pop [where n = 0 and st = st and name = "''sys''" and v = 99]
        ex_serve [where net = net and a = a and st = st])
      (use that in \<open>simp_all add: ex_gets\<close>)
  let ?tail = "bindG (on_log ex_world (\<lambda>le. log_print le ''*** Server initilization done.'' []))
      (\<lambda>_. bindG (on_log ex_world pop_component) (\<lambda>_. serve_clients ex_world))"
  have "run_server ex_world ''eth0'' False = bindG (start_log ex_world ''eth0'' False) (\<lambda>_. bindG (bindG start_subnets (\<lambda>_. bindG (start_net ex_world ''eth0'') (\<lambda>_.
     bindG (start_radius ex_world) (\<lambda>_. bindG (start_pf ex_world) (\<lambda>_. allocator_initialize ex_world))))) (\<lambda>_. ?tail))"
    by (simp add: run_server_def assoc)
  moreover have "runs \<dots> (ex_start ex_rc) (\<lambda>_ _. True)"
    by (rule runs_bindG, rule runs_mono [OF ex_start_log], elim exE conjE, hypsubst, rule runs_bindG, rule runs_mono [OF rest])
      (auto intro: tail)
  ultimately show ?thesis by simp
qed


text \<open>Without its configuration file the program ends.\<close>

abbreviation ex_argv :: "string list" where
  "ex_argv \<equiv> [''s3dhcpd'', ''-c'', ''/etc/s3dhcpd.rc'', ''-i'', ''eth0'']"

lemma ex_line: "command_line ex_argv = Returned \<lparr>opt_config = Some ''/etc/s3dhcpd.rc'', opt_interface = Some ''eth0'', opt_daemonise = False\<rparr>"
  by code_simp

lemma ex_fatal:
  assumes "quiet st n (g_log s)"
  shows "\<exists>t. fatal ex_world False e s = Some (Exited 1, t)"
proof -
  have f: "''FATAL %s'' = concat (map piece_format [PText ''FATAL '', PStr])"
    "''** Shutting down !!!'' = concat (map piece_format [PText ''** Shutting down !!!''])" by simp_all
  let ?quiet = "\<lambda>_ t. quiet st n (g_log t)"
  have "runs (on_log ex_world (\<lambda>le. log_print le ''FATAL %s'' [VStr (Some (exn_msg e))])) s ?quiet"
    using assms by (intro runs_print [OF _ _ _ _ f(1), where n = n and st = st]) simp_all
  then obtain x t where 1: "on_log ex_world (\<lambda>le. log_print le ''FATAL %s'' [VStr (Some (exn_msg e))]) s = Some (Returned x, t)"
    "quiet st n (g_log t)" by (auto simp: runs_def)
  have "runs (on_log ex_world (\<lambda>le. log_print le ''** Shutting down !!!'' [])) t ?quiet"
    using 1(2) by (intro runs_print [OF _ _ _ _ f(2), where n = n and st = st]) simp_all
  then obtain y u where "on_log ex_world (\<lambda>le. log_print le ''** Shutting down !!!'' []) t = Some (Returned y, u)"
    by (auto simp: runs_def)
  with 1(1) show ?thesis by (simp add: fatal_def runs_defs exitG_def)
qed

lemma ex_main: "\<exists>t. s3dhcpd_main ex_world ex_argv (ex_start dsApprc_new) = Some (Exited 1, t)"
proof -
  have q: "quiet ex_stack 0 (g_log (ex_start dsApprc_new))" by (simp add: ex_start_def quiet_def dsLog_new_def ostream_new_def)
  have load: "\<exists>m. load_config ex_world ''/etc/s3dhcpd.rc'' (ex_start dsApprc_new) = Some (Threw (KeyException m), ex_start dsApprc_new)"
    by (simp add: load_config_def load_file_def ex_world_def runs_defs)
  show ?thesis
    using load ex_fatal [OF q] by (auto simp: s3dhcpd_main_def ex_line catchG_def bindG_def)
qed

end
