(* ===== verification/StartupProps.thy ===== *)
theory StartupProps
  imports StartupExample
begin

text \<open>
  What the composition of the parts in \<open>main\<close> gives: how the program can end, and in which state it
  serves.
\<close>

section \<open>Runs of programs\<close>

lemma bindG_Returned:
  "bindG m f s = Some (Returned y, t) \<longleftrightarrow> (\<exists>x s'. m s = Some (Returned x, s') \<and> f x s' = Some (Returned y, t))"
  by (auto simp: bindG_def split: option.splits outcome.splits)

lemma bindG_ReturnedE:
  assumes "bindG m f s = Some (Returned y, t)"
  obtains x s' where "m s = Some (Returned x, s')" and "f x s' = Some (Returned y, t)"
  using assms by (auto simp: bindG_Returned)

lemma bindG_unitE:
  fixes m :: "('s, unit) prog"
  assumes "bindG m f s = Some (Returned y, t)"
  obtains s' where "m s = Some (Returned (), s')" and "f () s' = Some (Returned y, t)"
  using assms by (auto simp: bindG_Returned)

lemma liftG_run [simp]: "liftG r s = Some (o', t) \<longleftrightarrow> t = s \<and> o' = (case r of Inl e \<Rightarrow> Threw e | Inr x \<Rightarrow> Returned x)"
  by (auto simp: liftG_def)

lemma getG_run [simp]: "getG f s = Some (o', t) \<longleftrightarrow> t = s \<and> o' = Returned (f s)"
  by (auto simp: getG_def)

lemma case_sum_Returned [simp]: "Returned y = (case r of Inl e \<Rightarrow> Threw e | Inr x \<Rightarrow> Returned x) \<longleftrightarrow> r = Inr y"
  by (auto split: sum.splits)

lemma from_rc_Returned: "from_rc f s = Some (Returned x, t) \<longleftrightarrow> t = s \<and> f (g_rc s) = Inr x"
  by (auto simp: from_rc_def bindG_Returned)

lemma on_log_frame: "on_log w m s = Some (r, t) \<Longrightarrow> \<exists>l. t = s\<lparr>g_log := l\<rparr>"
  by (auto simp: on_log_def split: prod.splits)

lemma on_process_frame: "on_process m s = Some (r, t) \<Longrightarrow> \<exists>u. t = s\<lparr>g_process := u\<rparr>"
  by (auto simp: on_process_def)

text \<open>What holds between the start and the end of a program, and of the codes it exits with.\<close>

definition outcomes :: "('s \<Rightarrow> 's \<Rightarrow> bool) \<Rightarrow> (int \<Rightarrow> bool) \<Rightarrow> ('s, 'a) prog \<Rightarrow> bool" where
  "outcomes R X m \<longleftrightarrow> (\<forall>s r t. m s = Some (r, t) \<longrightarrow> R s t \<and> (\<forall>c. r = Exited c \<longrightarrow> X c))"

named_theorems outcomes_intros

lemma outcomesD: "outcomes R X m \<Longrightarrow> m s = Some (r, t) \<Longrightarrow> R s t \<and> (\<forall>c. r = Exited c \<longrightarrow> X c)"
  by (auto simp: outcomes_def)

lemma outcomes_bindG [outcomes_intros]:
  assumes "transp R" and "outcomes R X m" and "\<And>x. outcomes R X (f x)"
  shows "outcomes R X (bindG m f)"
  unfolding outcomes_def
proof (intro allI impI)
  fix s r t assume "bindG m f s = Some (r, t)"
  then show "R s t \<and> (\<forall>c. r = Exited c \<longrightarrow> X c)"
  proof (rule bindG_cases)
    fix x s' assume "m s = Some (Returned x, s')" "f x s' = Some (r, t)"
    then show ?thesis using outcomesD [OF assms(2)] outcomesD [OF assms(3)] transpD [OF assms(1)] by blast
  qed (use outcomesD [OF assms(2)] in blast)+
qed

lemma outcomes_basic [outcomes_intros]:
  assumes "reflp R"
  shows "outcomes R X (retG x)" and "outcomes R X (throwG e)" and "outcomes R X (getG f)" and "outcomes R X (liftG q)"
  using reflpD [OF assms] by (auto simp: outcomes_def split: sum.splits)

lemma outcomes_exitG: "reflp R \<Longrightarrow> X c \<Longrightarrow> outcomes R X (exitG c)"
  by (auto simp: outcomes_def dest: reflpD)

lemma outcomes_modifyG: "(\<And>s. R s (f s)) \<Longrightarrow> outcomes R X (modifyG f)"
  by (auto simp: outcomes_def)

lemma outcomes_if [outcomes_intros]: "outcomes R X m \<Longrightarrow> outcomes R X n \<Longrightarrow> outcomes R X (if b then m else n)"
  by simp

section \<open>How the program ends\<close>

definition same_stderr :: "('h, 'k, 'd, 'q, 'r) s3dhcpd \<Rightarrow> ('h, 'k, 'd, 'q, 'r) s3dhcpd \<Rightarrow> bool" where
  "same_stderr s t \<longleftrightarrow> g_stderr t = g_stderr s"

lemma same_stderr_rel [outcomes_intros]: "reflp same_stderr" "transp same_stderr"
  by (auto simp: same_stderr_def reflp_def transp_def)

lemma on_log_stderr [outcomes_intros]: "outcomes same_stderr X (on_log w m)"
  by (auto simp: outcomes_def same_stderr_def on_log_def split: prod.splits sum.splits)

lemma from_rc_stderr [outcomes_intros]: "outcomes same_stderr X (from_rc f)"
  unfolding from_rc_def by (intro outcomes_intros)

lemma modify_stderr [outcomes_intros]:
  "outcomes same_stderr X (modifyG (\<lambda>s. s\<lparr>g_rc := rc\<rparr>))" "outcomes same_stderr X (modifyG (\<lambda>s. s\<lparr>g_rc := rc, g_subnets := sn\<rparr>))"
  "outcomes same_stderr X (modifyG (\<lambda>s. s\<lparr>g_net := n\<rparr>))" "outcomes same_stderr X (modifyG (\<lambda>s. s\<lparr>g_radius := rd\<rparr>))"
  "outcomes same_stderr X (modifyG (\<lambda>s. s\<lparr>g_pf := pf\<rparr>))" "outcomes same_stderr X (modifyG (\<lambda>s. s\<lparr>g_allocator := a\<rparr>))"
  by (intro outcomes_modifyG, simp add: same_stderr_def)+

lemma daemonize_exits: "daemonize env prog_name options u = Some (Exited c, u') \<Longrightarrow> c = 0"
  using write_pid_file_frame [of env prog_name]
  by (fastforce simp: daemonize_def go_background_def elim!: bindG_cases split: if_splits)

lemma daemonize_stderr [outcomes_intros]:
  "outcomes same_stderr (\<lambda>c. c = 0 \<and> d) (if d then on_process (daemonize env p options) else retG ())"
  by (auto simp: outcomes_def same_stderr_def on_process_def dest: daemonize_exits)

lemma outcomes_prod [outcomes_intros]: "(\<And>a b. outcomes R X (m a b)) \<Longrightarrow> outcomes R X (case p of (a, b) \<Rightarrow> m a b)"
  by (cases p) simp

lemma outcomes_sum [outcomes_intros]:
  "(\<And>a. outcomes R X (m a)) \<Longrightarrow> (\<And>b. outcomes R X (n b)) \<Longrightarrow> outcomes R X (case p of Inl a \<Rightarrow> m a | Inr b \<Rightarrow> n b)"
  by (cases p) simp_all

lemma start_stderr [outcomes_intros]:
  "outcomes same_stderr X (load_config w fname)" "outcomes same_stderr X start_subnets" "outcomes same_stderr X (start_net w i)"
  "outcomes same_stderr X (start_radius w)" "outcomes same_stderr X (start_pf w)"
  unfolding load_config_def start_subnets_def start_net_def start_radius_def start_pf_def
  by (intro outcomes_intros)+

lemma start_log_stderr [outcomes_intros]: "outcomes same_stderr (\<lambda>c. c = 0 \<and> d) (start_log w i d)"
  unfolding start_log_def Let_def by (intro outcomes_intros)

lemma allocator_stderr [outcomes_intros]:
  "outcomes same_stderr X (allocator_initialize w)" "outcomes same_stderr X (get_allocator w)"
proof -
  have new: "outcomes same_stderr X (new_IPAllocatorSQL w)"
    by (auto simp: outcomes_def new_IPAllocatorSQL_def same_stderr_def split: sum.splits)
  show init: "outcomes same_stderr X (allocator_initialize w)"
    unfolding allocator_initialize_def by (intro outcomes_intros new)
  show "outcomes same_stderr X (get_allocator w)"
    unfolding get_allocator_def by (intro outcomes_intros init)
qed

lemma serve_stderr [outcomes_intros]: "outcomes same_stderr X (serve_clients w)"
proof -
  have loop: "outcomes same_stderr X (\<lambda>s. case ml s of (r, t) \<Rightarrow>
      Some (Returned r, s\<lparr>g_server := Some t, g_allocator := Some (alloc t)\<rparr>))" for ml :: "_ \<Rightarrow> unit res \<times> _"
    by (auto simp: outcomes_def same_stderr_def split: prod.splits)
  show ?thesis unfolding serve_clients_def by (intro outcomes_intros loop)
qed











lemma serve_clients_run:
  assumes "serve_clients w s = Some (Returned (), t)"
  shows "\<exists>s1 net a s2 srv. on_log w (\<lambda>le. push_component le ''net'') s = Some (Returned (), s1) \<and> g_net s1 = Some net
    \<and> get_allocator w s1 = Some (Returned a, s2)
    \<and> main_loop \<lparr>cfg_verbosity = log_verbosity (g_log s2), cfg_hw = hw_header net, cfg_ip = my_ip net\<rparr>
        (the_alloc_env w s2) (sql_vtable (the_alloc_env w s2) (w_sql w)) (w_heap w) 0 (w_captures w)
        \<lparr>alloc = a, message_buf = w_stack w, sent = []\<rparr> = (Inr (), srv)
    \<and> t = s2\<lparr>g_server := Some srv, g_allocator := Some (alloc srv)\<rparr>"
  using assms unfolding serve_clients_def
  by (elim bindG_ReturnedE)
    (fastforce split: sum.split_asm prod.split_asm elim: bindG_ReturnedE)






section \<open>The state in which it serves\<close>

context populating_engine
begin

lemma pf_populate_rows:
  assumes "query st = query_static" and "pf_populate n api db st evs = Inr (db', evs')"
  shows "rows db' = rows db"
  using assms
proof (induction n arbitrary: db st evs)
  case (Suc n)
  obtain rc st1 db1 where s: "sq_step api db st = (rc, st1, db1)" by (cases "sq_step api db st") auto
  note law = static_law [OF Suc.prems(1) s]
  from Suc.prems(2) s have "db' = db1 \<or> (\<exists>evs1. pf_populate n api db1 st1 evs1 = Inr (db', evs'))" by (auto split: if_splits)
  with Suc.IH [of st1 db1] law Suc.prems(1) show ?case by auto
qed simp

lemma prepare_databases_ok:
  assumes prep: "prepare_databases env n api dbs = Inr a"
    and opens: "\<And>fs p m db. sq_open api fs p m = (SQLITE_OK, db) \<Longrightarrow> keyed (rows db)"
  shows "keyed (rows (leases_db a)) \<and> \<Union> (subnet_pool ` set (subnets (env_subnets env))) \<subseteq> lease_ip ` rows (leases_db a)"
proof -
  obtain v_static path fs where "open_static env api dbs = Inr v_static" "env_require env ''database-leases'' = Inr path"
    "(if dbs path = None then create_leases api dbs path else Inr dbs) = Inr fs"
    using prep unfolding prepare_databases_def by (auto simp: split_beta)
  note steps = this
  obtain rc db0 where o: "sq_open api fs path SQLITE_OPEN_READWRITE = (rc, db0)" by fastforce
  from prep steps o have ok: "rc = SQLITE_OK"
    unfolding prepare_databases_def by (cases "rc = SQLITE_OK") (simp_all add: split_beta)
  with prep steps o obtain db1 db2 evs where fill: "populate_leases env api db0 = Inr db1"
    and pf: "populate_pf env n api db1 = Inr (db2, evs)" and a: "leases_db a = db2"
    unfolding prepare_databases_def by (auto simp: split_beta)
  have f: "fills (\<Union> (subnet_pool ` set (subnets (env_subnets env)))) (rows db0) (rows db1)"
    by (rule populate_leases_fills [OF fill])
  have "rows db2 = rows db1"
  proof (cases "pf_enabled env")
    case True
    obtain rc st where p: "sq_prepare api db1 query_static = (rc, st)" by fastforce
    with pf True have "rc = SQLITE_OK" "pf_populate n api db1 st [] = Inr (db2, evs)"
      by (auto simp: populate_pf_def split: if_splits)
    with pf_populate_rows prepare_law p show ?thesis by blast
  next
    case False
    with pf show ?thesis by (simp add: populate_pf_def)
  qed
  with f opens [OF o [unfolded ok]] a show ?thesis by (auto simp: fills_def)
qed

end

text \<open>What each part changes.\<close>

definition only_log :: "('h, 'k, 'd, 'q, 'r) s3dhcpd \<Rightarrow> ('h, 'k, 'd, 'q, 'r) s3dhcpd \<Rightarrow> bool" where
  "only_log s t \<longleftrightarrow> (\<exists>u l. t = s\<lparr>g_process := u, g_log := l\<rparr>)"

lemma only_log_changes: "only_log s (s\<lparr>g_process := u, g_log := l\<rparr>)"
  by (auto simp: only_log_def)

lemma only_log_rel:
  "reflp (only_log :: ('h, 'k, 'd, 'q, 'r) s3dhcpd \<Rightarrow> _)" "transp (only_log :: ('h, 'k, 'd, 'q, 'r) s3dhcpd \<Rightarrow> _)"
proof -
  have "only_log s s" for s :: "('h, 'k, 'd, 'q, 'r) s3dhcpd" using only_log_changes [where s = s and u = "g_process s" and l = "g_log s"] by (cases s) simp
  then show "reflp (only_log :: ('h, 'k, 'd, 'q, 'r) s3dhcpd \<Rightarrow> _)" by (simp add: reflp_def)
  show "transp (only_log :: ('h, 'k, 'd, 'q, 'r) s3dhcpd \<Rightarrow> _)" 
  proof (rule transpI)
    fix s t r :: "('h, 'k, 'd, 'q, 'r) s3dhcpd" assume "only_log s t" "only_log t r"
    then obtain u l u' l' where "t = s\<lparr>g_process := u, g_log := l\<rparr>" "r = t\<lparr>g_process := u', g_log := l'\<rparr>"
      unfolding only_log_def by blast
    then have "r = s\<lparr>g_process := u', g_log := l'\<rparr>" by simp
    then show "only_log s r" by (simp only: only_log_changes)
  qed
qed

lemma on_log_only_log:
  fixes w :: "('h, 'k, 'd, 'st, 'q, 'r) world"
  assumes "\<And>c. X c"
  shows "outcomes only_log X (on_log w m)"
proof -
  have "only_log s (s\<lparr>g_log := l\<rparr>)" for s :: "('h, 'k, 'd, 'q, 'r) s3dhcpd" and l
    using only_log_changes [where s = s and u = "g_process s" and l = l] by (cases s) simp
  with assms show ?thesis by (fastforce simp: outcomes_def dest!: on_log_frame)
qed

lemma on_process_only_log: "outcomes only_log X (on_process m :: (('h, 'k, 'd, 'q, 'r) s3dhcpd, 'a) prog)" if "\<And>c. X c"
proof -
  have "only_log s (s\<lparr>g_process := u\<rparr>)" for s :: "('h, 'k, 'd, 'q, 'r) s3dhcpd" and u
    using only_log_changes [where s = s and u = u and l = "g_log s"] by (cases s) simp
  with that show ?thesis by (fastforce simp: outcomes_def dest!: on_process_frame)
qed

lemma start_log_run: "outcomes only_log (\<lambda>_. True) (start_log w i d)"
  unfolding start_log_def from_rc_def Let_def
  by (intro outcomes_intros only_log_rel on_log_only_log on_process_only_log TrueI)

lemma start_subnets_run: "start_subnets s = Some (Returned (), t) \<Longrightarrow>
    \<exists>rc sn. subnets_load (g_rc s) (g_subnets s) = Inr (rc, sn) \<and> t = s\<lparr>g_rc := rc, g_subnets := sn\<rparr>"
  unfolding start_subnets_def by (elim bindG_ReturnedE) (auto simp: from_rc_Returned)

lemma start_net_run: "start_net w i s = Some (Returned (), t) \<Longrightarrow>
    \<exists>a b net. net_initialize (w_net w) i a b = Inr net \<and> t = s\<lparr>g_net := Some net\<rparr>"
  unfolding start_net_def by (elim bindG_ReturnedE) (auto simp: from_rc_Returned)

lemma start_radius_run: "start_radius w s = Some (Returned (), t) \<Longrightarrow> \<exists>x. t = s\<lparr>g_radius := x\<rparr>"
  unfolding start_radius_def
  by (elim bindG_ReturnedE) (auto simp: from_rc_Returned split: if_splits elim!: bindG_ReturnedE intro: exI [of _ "g_radius s"])

lemma start_pf_run: "start_pf w s = Some (Returned (), t) \<Longrightarrow> \<exists>x. t = s\<lparr>g_pf := x\<rparr>"
  unfolding start_pf_def
  by (elim bindG_ReturnedE) (auto simp: from_rc_Returned split: if_splits elim!: bindG_ReturnedE intro: exI [of _ "g_pf s"])

lemma allocator_initialize_run:
  "allocator_initialize w s = Some (Returned (), t) \<Longrightarrow> g_allocator s = None \<Longrightarrow>
     \<exists>a. prepare_databases (the_alloc_env w s) (w_rows w) (w_sql w) (w_databases w) = Inr a \<and> t = s\<lparr>g_allocator := Some a\<rparr>"
  unfolding allocator_initialize_def new_IPAllocatorSQL_def by (elim bindG_ReturnedE) (auto elim!: bindG_ReturnedE)

lemma get_allocator_run:
  "get_allocator w s = Some (Returned a, t) \<Longrightarrow> g_allocator s = Some b \<Longrightarrow> a = b \<and> t = s"
  unfolding get_allocator_def allocator_initialize_def by (elim bindG_ReturnedE) auto

text \<open>After \<open>shutdown\<close> the deleted allocator is still handed out.\<close>

lemma deleted_allocator_returned:
  assumes "allocator_shutdown s = Some (Returned (Some a), t)"
  shows "get_allocator w t = Some (Returned a, t)"
  using assms by (auto simp: allocator_shutdown_def get_allocator_def allocator_initialize_def bindG_def getG_def retG_def liftG_def)

lemma net_initialize_hw: "net_initialize api dev src b = Inr net \<Longrightarrow> length (eth_bytes (hw_header net)) = 14"
  by (auto simp: net_initialize_def build_ethernet_header_def eth_bytes_def read_range_def split: option.splits sum.splits if_splits)

text \<open>What starting the parts leaves for the loop.\<close>

lemma run_server_run:
  assumes "run_server w i d s = Some (Returned (), t)" and "g_allocator s = None"
  shows "\<exists>rc net a src b srv.
      subnets_load (g_rc s) (g_subnets s) = Inr (rc, g_subnets t) \<and> g_net t = Some net
    \<and> net_initialize (w_net w) i src b = Inr net
    \<and> prepare_databases (the_alloc_env w t) (w_rows w) (w_sql w) (w_databases w) = Inr a
    \<and> main_loop \<lparr>cfg_verbosity = log_verbosity (g_log t), cfg_hw = hw_header net, cfg_ip = my_ip net\<rparr>
        (the_alloc_env w t) (sql_vtable (the_alloc_env w t) (w_sql w)) (w_heap w) 0 (w_captures w)
        \<lparr>alloc = a, message_buf = w_stack w, sent = []\<rparr> = (Inr (), srv)
    \<and> g_server t = Some srv"
proof -
  obtain s1 s2 s3 s4 s5 s6 s7 s8 v1 v2 where run: "start_log w i d s = Some (Returned (), s1)"
    "start_subnets s1 = Some (Returned (), s2)" "start_net w i s2 = Some (Returned (), s3)"
    "start_radius w s3 = Some (Returned (), s4)" "start_pf w s4 = Some (Returned (), s5)"
    "allocator_initialize w s5 = Some (Returned (), s6)"
    "on_log w (\<lambda>le. log_print le ''*** Server initilization done.'' []) s6 = Some (Returned v1, s7)"
    "on_log w pop_component s7 = Some (Returned v2, s8)" "serve_clients w s8 = Some (Returned (), t)"
    using assms(1) unfolding run_server_def by (elim bindG_unitE bindG_ReturnedE) blast
  obtain u l where 1: "s1 = s\<lparr>g_process := u, g_log := l\<rparr>"
    using outcomesD [OF start_log_run run(1)] by (auto simp: only_log_def)
  obtain rc sn where 2: "subnets_load (g_rc s) (g_subnets s) = Inr (rc, sn)" "s2 = s1\<lparr>g_rc := rc, g_subnets := sn\<rparr>"
    using start_subnets_run [OF run(2)] 1 by auto
  obtain src b net where 3: "net_initialize (w_net w) i src b = Inr net" "s3 = s2\<lparr>g_net := Some net\<rparr>"
    using start_net_run [OF run(3)] by auto
  obtain x y where 4: "s4 = s3\<lparr>g_radius := x\<rparr>" "s5 = s4\<lparr>g_pf := y\<rparr>"
    using start_radius_run [OF run(4)] start_pf_run [OF run(5)] by auto
  obtain a where 5: "prepare_databases (the_alloc_env w s5) (w_rows w) (w_sql w) (w_databases w) = Inr a"
    "s6 = s5\<lparr>g_allocator := Some a\<rparr>"
    using allocator_initialize_run [OF run(6)] assms(2) 1 2 3 4 by auto
  obtain l7 l8 where 6: "s7 = s6\<lparr>g_log := l7\<rparr>" "s8 = s7\<lparr>g_log := l8\<rparr>"
    using on_log_frame [OF run(7)] on_log_frame [OF run(8)] by auto
  from serve_clients_run [OF run(9)] obtain s9 n a' s10 srv where
    7: "on_log w (\<lambda>le. push_component le ''net'') s8 = Some (Returned (), s9)" "g_net s9 = Some n"
      "get_allocator w s9 = Some (Returned a', s10)"
      "main_loop \<lparr>cfg_verbosity = log_verbosity (g_log s10), cfg_hw = hw_header n, cfg_ip = my_ip n\<rparr>
        (the_alloc_env w s10) (sql_vtable (the_alloc_env w s10) (w_sql w)) (w_heap w) 0 (w_captures w)
        \<lparr>alloc = a', message_buf = w_stack w, sent = []\<rparr> = (Inr (), srv)"
      "t = s10\<lparr>g_server := Some srv, g_allocator := Some (alloc srv)\<rparr>" by blast
  obtain l9 where 8: "s9 = s8\<lparr>g_log := l9\<rparr>" using on_log_frame [OF 7(1)] by auto
  have 9: "a' = a" "s10 = s9" using get_allocator_run [OF 7(3), of a] 8 6 5 by auto
  have env: "the_alloc_env w s10 = the_alloc_env w s5" "the_alloc_env w t = the_alloc_env w s5"
    using 7(5) 9 8 6 5 by (simp_all add: the_alloc_env_def)
  have n: "n = net" using 7(2) 8 6 5 4 3 by simp
  have t: "g_subnets t = sn" "g_net t = Some net" "g_server t = Some srv" "log_verbosity (g_log s10) = log_verbosity (g_log t)"
    using 7(5) 9 8 6 5 4 3 2 by simp_all
  show ?thesis
    by (intro exI [of _ rc] exI [of _ net] exI [of _ a] exI [of _ src] exI [of _ b] exI [of _ srv] conjI)
      (use 2(1) 3(1) 5(1) 7(4) in \<open>simp_all only: env n t 9(1)\<close>)
qed

text \<open>C6 The state in which the program serves. When it is started once with a database engine that
  keeps its contract and whose files have one row per address, and reaches the loop, the subnets
  have passed their checks, the lease table has a row for every address of their ranges and one
  row per address, and the loop runs from there: after the captured frames the invariant of the
  server holds, and at most one datagram per frame was sent.\<close>

theorem server_starts_consistent:
  assumes "populating_engine (w_sql w) rows query args left"
    and "\<And>fs p m db. sq_open (w_sql w) fs p m = (SQLITE_OK, db) \<Longrightarrow> keyed (rows db)"
    and "length (w_stack w) = DHCP_MAX_MTU"
    and "g_allocator s = None" and "subnets (g_subnets s) = []"
    and "run_server w i d s = Some (Returned (), t)"
  shows "\<exists>net a srv. g_net t = Some net \<and> g_server t = Some srv
    \<and> list_all subnet_loaded (subnets (g_subnets t))
    \<and> prepare_databases (the_alloc_env w t) (w_rows w) (w_sql w) (w_databases w) = Inr a
    \<and> keyed (rows (leases_db a)) \<and> \<Union> (subnet_pool ` set (subnets (g_subnets t))) \<subseteq> lease_ip ` rows (leases_db a)
    \<and> main_loop \<lparr>cfg_verbosity = log_verbosity (g_log t), cfg_hw = hw_header net, cfg_ip = my_ip net\<rparr>
        (the_alloc_env w t) (sql_vtable (the_alloc_env w t) (w_sql w)) (w_heap w) 0 (w_captures w)
        \<lparr>alloc = a, message_buf = w_stack w, sent = []\<rparr> = (Inr (), srv)
    \<and> server_ok rows srv \<and> length (sent srv) \<le> length (w_captures w)"
proof -
  obtain rc net a src b srv where run: "subnets_load (g_rc s) (g_subnets s) = Inr (rc, g_subnets t)"
    "g_net t = Some net" "net_initialize (w_net w) i src b = Inr net"
    "prepare_databases (the_alloc_env w t) (w_rows w) (w_sql w) (w_databases w) = Inr a"
    "main_loop \<lparr>cfg_verbosity = log_verbosity (g_log t), cfg_hw = hw_header net, cfg_ip = my_ip net\<rparr>
        (the_alloc_env w t) (sql_vtable (the_alloc_env w t) (w_sql w)) (w_heap w) 0 (w_captures w)
        \<lparr>alloc = a, message_buf = w_stack w, sent = []\<rparr> = (Inr (), srv)" "g_server t = Some srv"
    using run_server_run [OF assms(6,4)] by blast
  let ?cfg = "\<lparr>cfg_verbosity = log_verbosity (g_log t), cfg_hw = hw_header net, cfg_ip = my_ip net\<rparr>" and ?env = "the_alloc_env w t"
  have loaded: "list_all subnet_loaded (subnets (g_subnets t))"
    using subnets_load_outcome [of "g_rc s" "globalnet (g_subnets s)"] run(1) assms(5) by (cases "g_subnets s") auto
  have db: "keyed (rows (leases_db a))" "\<Union> (subnet_pool ` set (subnets (g_subnets t))) \<subseteq> lease_ip ` rows (leases_db a)"
    using populating_engine.prepare_databases_ok [OF assms(1) run(4) assms(2)] by (simp_all add: the_alloc_env_def)
  have engine: "lease_engine (w_sql w) rows query args" using assms(1) by (rule populating_engine.axioms)
  obtain rest srv0 where reach: "server_run ?cfg ?env (sql_vtable ?env (w_sql w)) (w_captures w, \<lparr>alloc = a, message_buf = w_stack w, sent = []\<rparr>) (rest, srv0)"
    and srv: "srv = clear_buf ?cfg srv0" using main_loop_runs [OF run(5)] by blast
  have "server_ok rows srv0" "length (sent srv0) \<le> length (w_captures w)"
    using server_run_ok [OF engine _ reach, of] net_initialize_hw [OF run(3)] db assms(3) by (auto simp: server_ok_def)
  with srv have "server_ok rows srv" "length (sent srv) \<le> length (w_captures w)" by simp_all
  with run(2,4,5,6) loaded db show ?thesis by blast
qed

theorem server_starts_consistent_witness:
  "\<exists>t srv. run_server ex_world ''eth0'' False (ex_start ex_rc) = Some (Returned (), t) \<and> g_server t = Some srv
     \<and> server_ok (\<lambda>d. set (mem_rows d)) srv \<and> sent srv = []"
proof -
  obtain t where t: "run_server ex_world ''eth0'' False (ex_start ex_rc) = Some (Returned (), t)"
    using ex_run by (auto simp: runs_def)
  have w: "w_sql ex_world = ex_sql" "w_stack ex_world = replicate DHCP_MAX_MTU 0" "w_captures ex_world = []"
    by (simp_all add: ex_world_def)
  have empty: "keyed (set (mem_rows db))" if "sq_open (w_sql ex_world) fs p m = (SQLITE_OK, db)" for fs p m db
    using that by (auto simp: w ex_sql_def keyed_def)
  have engine: "populating_engine (w_sql ex_world) (\<lambda>d. set (mem_rows d)) stmt_query (\<lambda>st. map_of (stmt_args st)) mem_left"
    unfolding w by (rule ex_sql_engine)
  note consistent = server_starts_consistent [OF engine empty _ _ _ t]
  show ?thesis using consistent t by (fastforce simp: w ex_start_def)
qed

end
