(* ===== verification/RadiusProps.thy ===== *)
theory RadiusProps
  imports Radius
begin

text \<open>
  Writing and reading RADIUS messages: the bytes of the accounting message, its authenticator as
  RFC 2866 defines it, the round trip with the reader, and what the reader does not check.
\<close>

section \<open>The wire format\<close>

definition attr_ok :: "RADIUS_Attribute \<Rightarrow> bool" where
  "attr_ok a \<longleftrightarrow> attr_type a \<noteq> 0 \<and> (\<exists>v. attr_value a = Some v \<and> unat (attr_length a) \<le> length v)"

definition attr_wire :: "RADIUS_Attribute \<Rightarrow> bytes" where
  "attr_wire a = [attr_type a, attr_length a + 2] @ take (unat (attr_length a)) (the (attr_value a))"

abbreviation attrs_wire :: "RADIUS_Attribute list \<Rightarrow> bytes" where
  "attrs_wire as \<equiv> concat (map attr_wire as)"

lemma length_attr_wire [simp]: "attr_ok a \<Longrightarrow> length (attr_wire a) = unat (attr_length a) + 2"
  by (auto simp: attr_ok_def attr_wire_def)

lemma attrs_wire_bound: "list_all attr_ok as \<Longrightarrow> length (attrs_wire as) \<le> 257 * length as"
proof (induction as)
  case (Cons a as)
  have "unat (attr_length a) < 256" using unsigned_less [of "attr_length a", where ?'a = nat] by simp
  with Cons show ?case by simp
qed simp

lemma rad_write_attrs_eq:
  assumes "list_all attr_ok as" and "attr_type e = 0" and "off + length (attrs_wire as) \<le> length buf"
  shows "rad_write_attrs (as @ e # rest) buf off n
         = Inr (overlay buf off (attrs_wire as), n + of_nat (length (attrs_wire as)))"
  using assms
proof (induction as arbitrary: buf off n)
  case (Cons a as)
  then obtain v where v: "attr_value a = Some v" and l: "unat (attr_length a) \<le> length v" and t: "attr_type a \<noteq> 0"
    and ok: "attr_ok a" by (auto simp: attr_ok_def)
  let ?fs = "[(off, [attr_type a]), (off + 1, [attr_length a + 2]), (off + 2, take (unat (attr_length a)) v)]"
  have w: "concat (map snd ?fs) = attr_wire a" using v by (simp add: attr_wire_def)
  have "contiguous off ?fs" by simp
  then have "write_fields buf ?fs = Inr (overlay buf off (attr_wire a))"
    using write_fields_contiguous [of off ?fs buf] Cons.prems(3) unfolding w by simp
  then show ?case
    using t v l ok Cons by (simp add: overlay_overlay add.assoc add.left_commute del: write_fields.simps)
qed simp

text \<open>A packet whose attributes before the first of type zero are \<open>as\<close>.\<close>

definition has_attrs :: "RADIUS_Packet \<Rightarrow> RADIUS_Attribute list \<Rightarrow> bool" where
  "has_attrs pkt as \<longleftrightarrow> list_all attr_ok as \<and> length (rad_auth pkt) = 16
     \<and> (\<exists>e rest. rad_attributes pkt = as @ e # rest \<and> attr_type e = 0)"

definition rad_head :: "RADIUS_Packet \<Rightarrow> u8 \<Rightarrow> RADIUS_Attribute list \<Rightarrow> bytes" where
  "rad_head pkt ident as = [rad_code pkt, ident] @ rev (le_bytes 2 (of_nat (20 + length (attrs_wire as)) :: u16))"

text \<open>The authenticator of RFC 2866: the MD5 digest of code, identifier, length, the
  authenticator field (zero in a request), the attributes and the shared secret.\<close>

definition rad_authenticator :: "RADIUS_Packet \<Rightarrow> u8 \<Rightarrow> RADIUS_Attribute list \<Rightarrow> string \<Rightarrow> bytes" where
  "rad_authenticator pkt ident as salt = md5_rfc (rad_head pkt ident as @ rad_auth pkt @ attrs_wire as @ bytes_of_string salt)"

definition rad_message :: "RADIUS_Packet \<Rightarrow> u8 \<Rightarrow> RADIUS_Attribute list \<Rightarrow> string \<Rightarrow> bytes" where
  "rad_message pkt ident as salt = rad_head pkt ident as @ rad_authenticator pkt ident as salt @ attrs_wire as"

lemma length_rad_message: "length (rad_message pkt ident as salt) = 20 + length (attrs_wire as)"
  by (simp add: rad_message_def rad_head_def rad_authenticator_def)

lemma rad_digest_rfc:
  assumes "length garbage = 64" and "20 \<le> length buffer" and "length auth = 16"
    and "k \<le> length buffer" and "k < 2 ^ 16" and "length salt < 2 ^ 31"
  shows "rad_digest garbage buffer auth (int k - 20) salt
         = Inr (md5_rfc (take 4 buffer @ auth @ take (k - 20) (drop 20 buffer) @ bytes_of_string salt))"
proof -
  obtain s1 where 1: "md5_append (md5_init garbage) buffer 4 = Inr s1" "md5_inv s1 (take 4 buffer)"
    using md5_append_inv [OF md5_init_inv [OF assms(1)], of 4 buffer] assms(2) by auto
  obtain s2 where 2: "md5_append s1 auth 16 = Inr s2" "md5_inv s2 (take 4 buffer @ auth)"
    using md5_append_inv [OF 1(2), of 16 auth] assms(3) by auto
  let ?m = "take 4 buffer @ auth @ take (k - 20) (drop 20 buffer)"
  have "\<exists>s3. md5_append s2 (drop 20 buffer) (int k - 20) = Inr s3 \<and> md5_inv s3 ?m"
  proof (cases "k \<le> 20")
    case True
    then show ?thesis using 2(2) by (simp add: md5_append_def)
  next
    case False
    then have "int k - 20 = int (k - 20)" "k - 20 < 2 ^ 31" using assms(5) by auto
    then show ?thesis
      using md5_append_inv [OF 2(2), of "k - 20" "drop 20 buffer"] assms(4) by (simp del: of_nat_diff)
  qed
  then obtain s3 where 3: "md5_append s2 (drop 20 buffer) (int k - 20) = Inr s3" "md5_inv s3 ?m" by blast
  obtain s4 where 4: "md5_append s3 (bytes_of_string salt) (int (length salt)) = Inr s4"
      "md5_inv s4 (?m @ bytes_of_string salt)"
    using md5_append_inv [OF 3(2), of "length salt" "bytes_of_string salt"] assms(6) by auto
  from md5_finish_rfc [OF 4(2)] show ?thesis using 1 2 3 4 by (auto simp: rad_digest_def)
qed

lemma rad_unmarshall_message:
  assumes "has_attrs pkt as" and "length garbage = 64" and "length salt < 2 ^ 31"
    and "20 + length (attrs_wire as) \<le> length buf" and "20 + length (attrs_wire as) < 2 ^ 16"
  shows "rad_unmarshall garbage pkt buf salt
    = Inr (rad_message pkt (buf ! 1) as salt @ drop (20 + length (attrs_wire as)) buf, 20 + length (attrs_wire as))"
proof -
  let ?w = "attrs_wire as" and ?n = "20 + length (attrs_wire as)"
  obtain e rest where a: "rad_attributes pkt = as @ e # rest" "attr_type e = 0" and ok: "list_all attr_ok as"
    and auth: "length (rad_auth pkt) = 16" using assms(1) by (auto simp: has_attrs_def)
  obtain b0 b1 b2 b3 tl where buf: "buf = b0 # b1 # b2 # b3 # tl" and tl: "16 + length ?w \<le> length tl"
    using assms(4) by (auto simp: Suc_le_length_iff numeral_eq_Suc)
  let ?len = "of_nat ?n :: u16"
  have n: "unat ?len = ?n" using assms(5) by (simp add: unat_of_nat del: of_nat_add)
  let ?b1 = "rad_code pkt # b1 # b2 # b3 # tl"
  have w1: "write_range buf 0 [rad_code pkt] = Inr ?b1" unfolding buf by simp
  let ?b2 = "rad_code pkt # b1 # b2 # b3 # take 16 tl @ ?w @ drop (16 + length ?w) tl"
  have w2: "rad_write_attrs (rad_attributes pkt) ?b1 20 20 = Inr (?b2, ?len)"
    using rad_write_attrs_eq [OF ok a(2), of 20 ?b1 rest 20] tl unfolding a(1)
    by (simp add: overlay_def drop_Cons')
  let ?b3 = "rad_head pkt b1 as @ take 16 tl @ ?w @ drop (16 + length ?w) tl"
  have "length (le_bytes 2 (htons ?len)) = 2" by simp
  then have w3: "write_range ?b2 2 (le_bytes 2 (htons ?len)) = Inr ?b3"
    using tl by (simp add: rad_head_def le_bytes_swap16)
  have t: "take 4 ?b3 = rad_head pkt b1 as" "drop 20 ?b3 = ?w @ drop (16 + length ?w) tl" "length ?b3 = 4 + length tl"
    using tl by (simp_all add: rad_head_def)
  have d: "rad_digest garbage ?b3 (rad_auth pkt) (int (unat ?len) - 20) salt = Inr (rad_authenticator pkt b1 as salt)"
    unfolding n
    using rad_digest_rfc [OF assms(2) _ auth, of ?b3 ?n salt] t tl assms(3,5)
    by (simp add: rad_authenticator_def del: of_nat_add)
  have h: "length (rad_head pkt b1 as) = 4" by (simp add: rad_head_def)
  have "write_range ?b3 4 (rad_authenticator pkt b1 as salt)
      = Inr (rad_message pkt b1 as salt @ drop (16 + length ?w) tl)"
    using tl h by (simp add: rad_message_def rad_authenticator_def)
  moreover have "drop ?n buf = drop (16 + length ?w) tl" "buf ! 1 = b1" by (simp_all add: buf drop_Cons')
  ultimately show ?thesis
    unfolding rad_unmarshall_def w1 bindR.simps w2 prod.case w3 d unfolding n by simp
qed

section \<open>Reading\<close>

text \<open>What the reader stores for an attribute: its value followed by a null byte.\<close>

definition attr_read :: "RADIUS_Attribute \<Rightarrow> RADIUS_Attribute" where
  "attr_read a = a\<lparr>attr_value := Some (take (unat (attr_length a)) (the (attr_value a)) @ [0])\<rparr>"

lemma rad_attr_loop_attrs:
  assumes "list_all attr_ok as" and "drop off buffer = attrs_wire as @ rest"
    and "off + length (attrs_wire as) = len" and "idx + length as \<le> 64" and "idx + length as \<le> length slots"
  shows "rad_attr_loop buffer len idx off slots = Inr (take idx slots @ map attr_read as @ drop (idx + length as) slots)"
  using assms
proof (induction as arbitrary: off idx slots)
  case Nil
  then show ?case by (subst rad_attr_loop.simps) simp
next
  case (Cons a as)
  then obtain v where v: "attr_value a = Some v" and l: "unat (attr_length a) \<le> length v" and t: "attr_type a \<noteq> 0"
    and ok: "attr_ok a" by (auto simp: attr_ok_def)
  let ?n = "unat (attr_length a)" and ?v = "take (unat (attr_length a)) v"
  have d: "drop off buffer = attr_type a # (attr_length a + 2) # ?v @ attrs_wire as @ rest"
    using Cons.prems(2) v by (simp add: attr_wire_def [of a])
  note c1 = drop_Cons_nth [OF d]
  note c2 = drop_Cons_nth [OF c1(3)]
  have r: "read_range buffer (Suc (Suc off)) ?n = Inr ?v"
  proof -
    have "length (drop (Suc (Suc off)) buffer) = ?n + length (attrs_wire as @ rest)" using c2(3) l by simp
    then have "Suc (Suc off) + ?n \<le> length buffer" by (simp only: length_drop) (use c2(1) in linarith)
    then show ?thesis using c2(3) l by simp
  qed
  have off: "off + ?n + 2 + length (attrs_wire as) = len" "off < len" using Cons.prems(3) ok by simp_all
  have nxt: "drop (off + ?n + 2) buffer = attrs_wire as @ rest"
  proof -
    have "drop (off + ?n + 2) buffer = drop ?n (drop (Suc (Suc off)) buffer)" by (simp add: add.commute)
    then show ?thesis using c2(3) l by simp
  qed
  let ?a = "\<lparr>attr_type = attr_type a, attr_length = attr_length a, attr_value = Some (?v @ [0])\<rparr>"
  have e: "?a = attr_read a" using v by (simp add: attr_read_def)
  have "rad_attr_loop buffer len idx off slots = rad_attr_loop buffer len (idx + 1) (off + ?n + 2) (slots[idx := ?a])"
    using Cons.prems(4) off(2) c1 c2 r t by (subst rad_attr_loop.simps) (simp add: Let_def)
  also have "\<dots> = Inr (take (idx + 1) (slots[idx := ?a]) @ map attr_read as @ drop (idx + 1 + length as) (slots[idx := ?a]))"
    using Cons.prems by (intro Cons.IH [OF _ nxt off(1)]) auto
  also have "take (idx + 1) (slots[idx := ?a]) = take idx slots @ [attr_read a]"
    using Cons.prems(5) e by (simp add: take_Suc_conv_app_nth)
  finally show ?case by simp
qed

text \<open>A whole message of the buffer is read the same way whatever the secret; only the verdict on
  the authenticator differs.\<close>

lemma rad_parse_request_eq:
  assumes "length garbage = 64" and "20 \<le> length buffer" and "length salt < 2 ^ 31"
    and len: "n = unat (ntohs (le_word (take 2 (drop 2 buffer)) :: u16))" and "n \<le> length buffer"
  shows "rad_parse_request garbage buffer salt =
    bindR (rad_attr_loop buffer n 0 20 (replicate 64 null_attr)) (\<lambda>attrs.
    Inr (take 16 (drop 4 buffer) \<noteq> md5_rfc (take 4 buffer @ replicate 16 0 @ take (n - 20) (drop 20 buffer) @ bytes_of_string salt),
         \<lparr>rad_code = buffer ! 0, rad_ident = buffer ! 1, rad_length = of_nat n,
          rad_auth = take 16 (drop 4 buffer), rad_attributes = attrs\<rparr>))"
proof -
  have "n < 2 ^ 16" using unsigned_less [of "ntohs (le_word (take 2 (drop 2 buffer)) :: u16)", where ?'a = nat] len by simp
  then have u: "unat (of_nat n :: u16) = n" "uint (of_nat n :: u16) = int n"
    by (simp_all add: unat_of_nat uint_nat del: of_nat_unat)
  note d = rad_digest_rfc [OF assms(1,2) _ assms(5) \<open>n < 2 ^ 16\<close> assms(3), of "replicate 16 0"]
  have "rad_auth RADIUS_Packet_new = replicate 16 0" "rad_attributes RADIUS_Packet_new = replicate 64 null_attr"
    by (simp_all add: RADIUS_Packet_new_def)
  moreover have "read16 buffer 2 = Inr (le_word (take 2 (drop 2 buffer)))" using assms(2) by (simp add: read16_def)
  moreover have "read_at buffer 0 = Inr (buffer ! 0)" "read_at buffer 1 = Inr (buffer ! 1)"
    "read_range buffer 4 16 = Inr (take 16 (drop 4 buffer))" using assms(2)
    by (auto simp: read_at_def)
  moreover have "ntohs (le_word (take 2 (drop 2 buffer))) = (of_nat n :: u16)" by (simp add: len)
  ultimately show ?thesis
    using d unfolding rad_parse_request_def rad_marshall_def by (simp add: u Let_def)
qed

lemma rad_message_length_field:
  assumes "20 + length (attrs_wire as) < 2 ^ 16"
  shows "unat (ntohs (le_word (take 2 (drop 2 (rad_message pkt i as salt))) :: u16)) = 20 + length (attrs_wire as)"
  using assms
  by (simp add: rad_message_def rad_head_def le_bytes_swap16 [symmetric] unat_of_nat del: of_nat_add)

lemma attrs_dump_total:
  "list_all attr_ok as \<Longrightarrow> attr_type e = 0 \<Longrightarrow> \<exists>ls. attrs_dump (as @ e # rest) = Inr ls \<and> length ls = length as"
  by (induction as) (auto simp: attr_ok_def attr_dump_def Let_def)

lemma rad_dump_total: "has_attrs pkt as \<Longrightarrow> \<exists>ls. rad_dump pkt = Inr ls"
  using attrs_dump_total by (fastforce simp: rad_dump_def has_attrs_def)

section \<open>The accounting message\<close>

text \<open>The attributes of an accounting request, values in network byte order.\<close>

definition acct_attrs :: "int \<Rightarrow> string \<Rightarrow> string \<Rightarrow> RADIUS_Attribute list" where
  "acct_attrs status auth_info ipaddr =
     [\<lparr>attr_type = 40, attr_length = 4, attr_value = Some (rev (le_bytes 4 (of_int status :: u32)))\<rparr>,
      str_attr 44 (bytes_of_string auth_info), str_attr 30 (bytes_of_string ''dhcpd'' @ [0]),
      str_attr 31 (bytes_of_string ipaddr),
      \<lparr>attr_type = 4, attr_length = 4, attr_value = Some [0, 0, 0, 0]\<rparr>]"

lemma create_acct_request_attrs:
  "rad_attributes (create_acct_request status auth_info ipaddr)
   = acct_attrs status auth_info ipaddr @ null_attr # replicate 58 null_attr"
proof -
  have "replicate 59 null_attr = null_attr # replicate 58 null_attr" by (simp flip: replicate_Suc)
  moreover have "le_bytes 4 (0 :: u32) = [0, 0, 0, 0]" by code_simp
  ultimately show ?thesis
    by (simp add: create_acct_request_def acct_attrs_def put_attrs_def RADIUS_Packet_new_def int_attr_def le_bytes_swap32)
qed

lemma str_attr_ok: "t \<noteq> 0 \<Longrightarrow> length v \<le> 255 \<Longrightarrow> attr_ok (str_attr t v)"
  by (simp add: attr_ok_def str_attr_def unat_of_nat)

lemma length_str_attr_wire: "t \<noteq> 0 \<Longrightarrow> length v \<le> 255 \<Longrightarrow> length (attr_wire (str_attr t v)) = length v + 2"
  by (simp add: str_attr_ok) (simp add: str_attr_def unat_of_nat)

lemma create_acct_request_has_attrs:
  assumes "length auth_info \<le> 255" and "length ipaddr \<le> 255"
  shows "has_attrs (create_acct_request status auth_info ipaddr) (acct_attrs status auth_info ipaddr)"
    and "length (attrs_wire (acct_attrs status auth_info ipaddr)) = length auth_info + length ipaddr + 24"
proof -
  have "list_all attr_ok (acct_attrs status auth_info ipaddr)"
    using assms by (simp add: acct_attrs_def str_attr_ok) (simp add: attr_ok_def)
  then show "has_attrs (create_acct_request status auth_info ipaddr) (acct_attrs status auth_info ipaddr)"
    using create_acct_request_attrs
    by (auto simp: has_attrs_def null_attr_def) (simp add: create_acct_request_def RADIUS_Packet_new_def)
  show "length (attrs_wire (acct_attrs status auth_info ipaddr)) = length auth_info + length ipaddr + 24"
    using assms by (simp add: acct_attrs_def length_str_attr_wire) (simp add: attr_wire_def)
qed

lemma send_acct_message_run:
  assumes "length garbage = 64" and "length junk = 1024" and "length (rad_salt net) < 2 ^ 31"
    and "length auth_info \<le> 255" and "length ipaddr \<le> 255"
  shows "send_acct_message garbage junk verbosity net status auth_info ipaddr
      = Inr (ip_u_addr (rad_server net), htons (of_int (rad_port net)),
             rad_message (create_acct_request status auth_info ipaddr) (junk ! 1)
               (acct_attrs status auth_info ipaddr) (rad_salt net))"
proof -
  let ?pkt = "create_acct_request status auth_info ipaddr" and ?as = "acct_attrs status auth_info ipaddr"
  note h = create_acct_request_has_attrs [OF assms(4,5), of status]
  obtain ls where "rad_dump ?pkt = Inr ls" using rad_dump_total [OF h(1)] by blast
  moreover have "rad_unmarshall garbage ?pkt junk (rad_salt net)
      = Inr (rad_message ?pkt (junk ! 1) ?as (rad_salt net) @ drop (20 + length (attrs_wire ?as)) junk, 20 + length (attrs_wire ?as))"
    using rad_unmarshall_message [OF h(1) assms(1,3), of junk] assms h(2) by simp
  ultimately show ?thesis
    using h(2) length_rad_message [of ?pkt "junk ! 1" ?as "rad_salt net"]
    by (simp add: send_acct_message_def rad_send_packet_def Let_def)
qed

text \<open>The accounting request of RFC 2866, written from the RFC and apart from the code: an attribute is
  its type, the length of the whole attribute in one byte, and the value, of at most 253 bytes;
  numbers are in network byte order; the authenticator is the MD5 digest over code, identifier,
  length, sixteen zero bytes, attributes and secret.\<close>

definition rfc_number :: "nat \<Rightarrow> nat \<Rightarrow> bytes" where
  "rfc_number n x = rev (rfc_bytes n x)"

definition rfc_attr :: "nat \<Rightarrow> bytes \<Rightarrow> bytes" where
  "rfc_attr t value = [of_nat t, of_nat (2 + length value)] @ value"

definition rfc_acct_request :: "u8 \<Rightarrow> bytes \<Rightarrow> string \<Rightarrow> bytes" where
  "rfc_acct_request ident attributes secret =
     (let head = [4, ident] @ rfc_number 2 (20 + length attributes) in
      head @ md5_rfc (head @ replicate 16 0 @ attributes @ bytes_of_string secret) @ attributes)"

text \<open>Its attributes here: Acct-Status-Type, Acct-Session-Id, Called-Station-Id, Calling-Station-Id and
  NAS-IP-Address.\<close>

definition acct_attributes :: "int \<Rightarrow> string \<Rightarrow> string \<Rightarrow> bytes" where
  "acct_attributes status auth_info ipaddr =
     rfc_attr 40 (rfc_number 4 (nat (status mod 2 ^ 32)))
     @ rfc_attr 44 (bytes_of_string auth_info)
     @ rfc_attr 30 (bytes_of_string ''dhcpd'' @ [0])
     @ rfc_attr 31 (bytes_of_string ipaddr)
     @ rfc_attr 4 [0, 0, 0, 0]"

lemma attr_wire_rfc:
  "length v \<le> 253 \<Longrightarrow> attr_wire \<lparr>attr_type = of_nat t, attr_length = of_nat (length v), attr_value = Some v\<rparr> = rfc_attr t v"
  by (simp add: attr_wire_def rfc_attr_def unat_of_nat add.commute)

lemma acct_attributes_wire:
  assumes "length auth_info \<le> 253" and "length ipaddr \<le> 253"
  shows "attrs_wire (acct_attrs status auth_info ipaddr) = acct_attributes status auth_info ipaddr"
proof -
  have "unat (of_int status :: u32) = nat (status mod 2 ^ 32)"
    by (simp add: unat_eq_nat_uint uint_word_of_int)
  then have "rev (le_bytes 4 (of_int status :: u32)) = rfc_number 4 (nat (status mod 2 ^ 32))"
    by (simp add: rfc_number_def le_bytes_arith)
  then show ?thesis
    using assms attr_wire_rfc [of "rfc_number 4 (nat (status mod 2 ^ 32))" 40] attr_wire_rfc [of "[0, 0, 0, 0]" 4]
      attr_wire_rfc [of "bytes_of_string auth_info" 44] attr_wire_rfc [of "bytes_of_string ipaddr" 31]
      attr_wire_rfc [of "bytes_of_string ''dhcpd'' @ [0]" 30]
    by (simp add: acct_attrs_def acct_attributes_def str_attr_def rfc_number_def rfc_bytes_def)
qed

lemma rad_message_rfc:
  assumes "length auth_info \<le> 253" and "length ipaddr \<le> 253"
  shows "rad_message (create_acct_request status auth_info ipaddr) ident (acct_attrs status auth_info ipaddr) salt
     = rfc_acct_request ident (acct_attributes status auth_info ipaddr) salt"
proof -
  let ?n = "20 + length (acct_attributes status auth_info ipaddr)"
  have "length (acct_attributes status auth_info ipaddr) \<le> 600"
    using assms by (simp add: acct_attributes_def rfc_attr_def rfc_number_def rfc_bytes_def)
  then have "rev (le_bytes 2 (of_nat ?n :: u16)) = rfc_number 2 ?n"
    by (simp add: rfc_number_def le_bytes_arith unat_of_nat del: of_nat_add)
  moreover have "rad_code (create_acct_request status auth_info ipaddr) = 4" "rad_auth (create_acct_request status auth_info ipaddr) = replicate 16 0"
    by (simp_all add: create_acct_request_def RADIUS_Packet_new_def)
  ultimately show ?thesis
    by (simp only: rad_message_def rad_authenticator_def rad_head_def rfc_acct_request_def acct_attributes_wire [OF assms] Let_def)
qed

text \<open>C21 The accounting client sends, for every status and for session and address texts of at most 253
  characters, whatever the buffers held before and however verbose the log, one datagram to the
  configured server: the accounting request of RFC 2866, with its length fields and its
  authenticator. It is shorter than the 1024 bytes of the local buffer. The identifier is the byte the
  local buffer held before; the Called-Station-Id is \<open>dhcpd\<close> with its null byte and the
  NAS-IP-Address 0, although the comment in \<open>create_acct_request\<close> announces \<open>webauth\<close> and the address
  of the server.\<close>

theorem acct_message_sent:
  assumes "length garbage = 64" and "length junk = 1024" and "length (rad_salt net) < 2 ^ 31"
    and "length auth_info \<le> 253" and "length ipaddr \<le> 253"
  shows "send_acct_message garbage junk verbosity net status auth_info ipaddr
      = Inr (ip_u_addr (rad_server net), htons (of_int (rad_port net)),
             rfc_acct_request (junk ! 1) (acct_attributes status auth_info ipaddr) (rad_salt net))
    \<and> length (rfc_acct_request (junk ! 1) (acct_attributes status auth_info ipaddr) (rad_salt net))
      = length auth_info + length ipaddr + 44"
proof -
  have "length auth_info \<le> 255" "length ipaddr \<le> 255" using assms(4,5) by simp_all
  note run = send_acct_message_run [OF assms(1-3) this, of verbosity status]
  note len = create_acct_request_has_attrs(2) [OF \<open>length auth_info \<le> 255\<close> \<open>length ipaddr \<le> 255\<close>, of status]
  show ?thesis
    using run len length_rad_message [of "create_acct_request status auth_info ipaddr" "junk ! 1" "acct_attrs status auth_info ipaddr" "rad_salt net"]
    unfolding rad_message_rfc [OF assms(4,5)] by simp
qed

theorem acct_message_sent_witness:
  "send_acct_message (replicate 64 0) (replicate 1024 0) 5
     \<lparr>net_enabled = True, rad_socket = (), rad_salt = ''secret'', rad_server = IPAddress_u 0x0A00000A, rad_port = 1813\<rparr>
     1 ''s1'' ''10.0.0.1''
   = Inr (0x0A00000A, htons 1813, rfc_acct_request 0 ([40, 6, 0, 0, 0, 1, 44, 4, 115, 49, 30, 8, 100, 104, 99, 112, 100, 0, 31, 10]
       @ bytes_of_string ''10.0.0.1'' @ [4, 6, 0, 0, 0, 0]) ''secret'')"
proof -
  have "acct_attributes 1 ''s1'' ''10.0.0.1'' = [40, 6, 0, 0, 0, 1, 44, 4, 115, 49, 30, 8, 100, 104, 99, 112, 100, 0, 31, 10]
       @ bytes_of_string ''10.0.0.1'' @ [4, 6, 0, 0, 0, 0]"
    by (simp add: acct_attributes_def rfc_attr_def rfc_number_def rfc_bytes_def upt_rec)
  then show ?thesis
    using acct_message_sent [of "replicate 64 0" "replicate 1024 0"
       "\<lparr>net_enabled = True, rad_socket = (), rad_salt = ''secret'', rad_server = IPAddress_u 0x0A00000A, rad_port = 1813\<rparr>"
       "''s1''" "''10.0.0.1''" 5 1]
    by (simp add: IPAddress_u_def)
qed

text \<open>With a session text of 254 or 255 characters the length byte of its attribute wraps to 0 or 1,
  which no reader of the RFC accepts.\<close>

lemma acct_length_byte_wraps:
  assumes "length garbage = 64" and "length junk = 1024" and "length (rad_salt net) < 2 ^ 31"
    and "254 \<le> length auth_info" "length auth_info \<le> 255" and "length ipaddr \<le> 255"
  shows "\<exists>a p m. send_acct_message garbage junk verbosity net status auth_info ipaddr = Inr (a, p, m)
     \<and> m ! 26 = 44 \<and> m ! 27 = of_nat (length auth_info - 254)"
proof -
  let ?m = "rad_message (create_acct_request status auth_info ipaddr) (junk ! 1) (acct_attrs status auth_info ipaddr) (rad_salt net)"
  have "drop 20 ?m = attrs_wire (acct_attrs status auth_info ipaddr)"
    by (simp add: rad_message_def rad_head_def rad_authenticator_def)
  moreover have "attrs_wire (acct_attrs status auth_info ipaddr) ! 6 = 44"
    "attrs_wire (acct_attrs status auth_info ipaddr) ! 7 = of_nat (length auth_info) + 2"
    by (simp_all add: acct_attrs_def str_attr_def nth_append attr_wire_def)
  moreover have "20 + 7 \<le> length ?m"
    using create_acct_request_has_attrs(2) [OF assms(5,6), of status] by (simp add: length_rad_message)
  ultimately have "?m ! 26 = 44" "?m ! 27 = of_nat (length auth_info) + 2"
    using nth_drop [of 20 ?m 6] nth_drop [of 20 ?m 7] by simp_all
  moreover have "of_nat (length auth_info) + 2 = (of_nat (length auth_info - 254) :: u8)"
  proof -
    have "length auth_info = 254 \<or> length auth_info = 255" using assms(4,5) by auto
    then show ?thesis by auto
  qed
  ultimately show ?thesis using send_acct_message_run [OF assms(1-3,5,6)] by auto
qed

text \<open>C22: Reading back: a packet with a zero authenticator and fewer than 64 attributes, written
  into a large enough buffer and read by a server with the same secret, is accepted and has the
  same code, the identifier byte of the buffer, and the same attributes in the same order, each
  value followed by a null byte.\<close>

theorem radius_roundtrip:
  assumes "has_attrs pkt as" and "rad_auth pkt = replicate 16 0" and "length as < 64"
    and "length garbage = 64" and "length salt < 2 ^ 31" and "20 + length (attrs_wire as) \<le> length buf"
  shows "\<exists>buf' n. rad_unmarshall garbage pkt buf salt = Inr (buf', n)
    \<and> rad_parse_request garbage (take n buf') salt
      = Inr (False, \<lparr>rad_code = rad_code pkt, rad_ident = buf ! 1, rad_length = of_nat n,
               rad_auth = rad_authenticator pkt (buf ! 1) as salt,
               rad_attributes = map attr_read as @ replicate (64 - length as) null_attr\<rparr>)"
proof -
  let ?m = "rad_message pkt (buf ! 1) as salt" and ?n = "20 + length (attrs_wire as)"
  have ok: "list_all attr_ok as" using assms(1) by (simp add: has_attrs_def)
  have small: "?n < 2 ^ 16" using attrs_wire_bound [OF ok] assms(3) by simp
  have lm: "length ?m = ?n" by (rule length_rad_message)
  have h: "length (rad_head pkt (buf ! 1) as) = 4" "length (rad_authenticator pkt (buf ! 1) as salt) = 16"
    by (simp_all add: rad_head_def rad_authenticator_def)
  have d: "take 4 ?m = rad_head pkt (buf ! 1) as" "drop 20 ?m = attrs_wire as"
    "take 16 (drop 4 ?m) = rad_authenticator pkt (buf ! 1) as salt" "?m ! 0 = rad_code pkt" "?m ! 1 = buf ! 1"
    using h by (simp_all add: rad_message_def) (simp_all add: rad_head_def)
  have "rad_attr_loop ?m ?n 0 20 (replicate 64 null_attr) = Inr (map attr_read as @ replicate (64 - length as) null_attr)"
    using rad_attr_loop_attrs [OF ok, of 20 ?m "[]" ?n 0 "replicate 64 null_attr"] d(2) assms(3) by simp
  then have "rad_parse_request garbage ?m salt
      = Inr (False, \<lparr>rad_code = rad_code pkt, rad_ident = buf ! 1, rad_length = of_nat ?n,
               rad_auth = rad_authenticator pkt (buf ! 1) as salt,
               rad_attributes = map attr_read as @ replicate (64 - length as) null_attr\<rparr>)"
    using rad_parse_request_eq [OF assms(4) _ assms(5) rad_message_length_field [OF small, symmetric], of pkt "buf ! 1" salt]
      lm d by (simp add: rad_authenticator_def assms(2))
  then show ?thesis
    using rad_unmarshall_message [OF assms(1,4,5,6) small] lm by simp
qed

theorem radius_roundtrip_witness:
  "\<exists>buf' n. rad_unmarshall (replicate 64 0) (create_acct_request 2 ''s'' ''10.0.0.1'') (replicate 100 7) ''k'' = Inr (buf', n)
    \<and> rad_parse_request (replicate 64 0) (take n buf') ''k''
      = Inr (False, \<lparr>rad_code = RAD_ACCT_REQUEST, rad_ident = 7, rad_length = of_nat n,
               rad_auth = rad_authenticator (create_acct_request 2 ''s'' ''10.0.0.1'') 7 (acct_attrs 2 ''s'' ''10.0.0.1'') ''k'',
               rad_attributes = map attr_read (acct_attrs 2 ''s'' ''10.0.0.1'') @ replicate 59 null_attr\<rparr>)"
  using radius_roundtrip [OF create_acct_request_has_attrs(1), of "''s''" "''10.0.0.1''" 2 "replicate 64 0" "''k''" "replicate 100 7"]
    create_acct_request_has_attrs(2) [of "''s''" "''10.0.0.1''" 2]
  by (simp add: create_acct_request_def RADIUS_Packet_new_def acct_attrs_def)

text \<open>The reader does not enforce the authenticator: whatever the secret, a message whose
  length field stays within the buffer is read to the same packet, or fails the same way; a
  digest that does not match is reported to the log only.\<close>

theorem radius_authenticator_not_enforced:
  assumes "length garbage = 64" and "20 \<le> length buffer" and "length salt1 < 2 ^ 31" and "length salt2 < 2 ^ 31"
    and "unat (ntohs (le_word (take 2 (drop 2 buffer)) :: u16)) \<le> length buffer"
  shows "map_sum id snd (rad_parse_request garbage buffer salt1) = map_sum id snd (rad_parse_request garbage buffer salt2)"
  unfolding rad_parse_request_eq [OF assms(1-3) refl assms(5)] rad_parse_request_eq [OF assms(1,2,4) refl assms(5)]
  by (simp split: bindR_splits)

theorem radius_authenticator_not_enforced_witness:
  "map_sum id snd (rad_parse_request (replicate 64 0) ([4, 1, 0, 20] @ replicate 16 9) ''right'')
   = map_sum id snd (rad_parse_request (replicate 64 0) ([4, 1, 0, 20] @ replicate 16 9) ''wrong'')"
  by (rule radius_authenticator_not_enforced) (simp_all, code_simp)

text \<open>An attribute whose length byte is 0 or 1 makes the reader fetch 254 or 255 bytes: if it
  is the first attribute, in a message of fewer than 276 bytes, the read leaves the
  message.\<close>

theorem radius_short_attribute_overreads:
  assumes "length garbage = 64" and "length salt < 2 ^ 31" and "length buffer < 276"
    and "n = unat (ntohs (le_word (take 2 (drop 2 buffer)) :: u16))" and "n \<le> length buffer" and "22 \<le> n"
    and "buffer ! 20 \<noteq> 0" and "buffer ! 21 < 2"
  shows "rad_parse_request garbage buffer salt = Inl MemFault"
proof -
  have "unat (buffer ! 21) = 0 \<or> unat (buffer ! 21) = 1" using assms(8) by (auto simp: word_less_nat_alt)
  then have "buffer ! 21 = 0 \<or> buffer ! 21 = 1" using word_unat_eq_iff [of "buffer ! 21"] by auto
  moreover have "254 \<le> unat (0 - 2 :: u8)" "254 \<le> unat (1 - 2 :: u8)" by code_simp+
  ultimately have "254 \<le> unat (buffer ! 21 - 2)" by metis
  then have "read_range buffer 22 (unat (buffer ! 21 - 2)) = Inl MemFault" using assms(3) by (simp add: read_range_def)
  then have "rad_attr_loop buffer n 0 20 (replicate 64 null_attr) = Inl MemFault"
    using assms(5-7) by (subst rad_attr_loop.simps) (simp add: Let_def)
  then show ?thesis
    using rad_parse_request_eq [OF assms(1) _ assms(2,4,5)] assms(5,6) by simp
qed

theorem radius_short_attribute_overreads_witness:
  "rad_parse_request (replicate 64 0) ([4, 1, 0, 24] @ replicate 16 9 @ [1, 0, 65, 66]) ''k'' = Inl MemFault"
  by (rule radius_short_attribute_overreads [where n = 24]) (simp_all add: nth_append, code_simp)

end
