(* ===== verification/Admission.thy ===== *)
theory Admission
  imports PfTable AllocatorProps
begin

text \<open>
  What the allocator and the packet filter do together: \<open>ip_alloc\<close> calls \<open>PFTable::add\<close> and
  \<open>PFTable::del\<close>, the events \<open>PF_add\<close> and \<open>PF_del\<close> of its state, and each is a call on the table of
  admitted addresses in the kernel.
\<close>

fun pf_ops :: "alloc_event list \<Rightarrow> pf_op list" where
  "pf_ops [] = []"
| "pf_ops (PF_add a # evs) = Admit a # pf_ops evs"
| "pf_ops (PF_del a # evs) = Expel a # pf_ops evs"
| "pf_ops (Acct _ _ _ # evs) = pf_ops evs"

definition same_events :: "'d alloc_state \<Rightarrow> 'd alloc_state \<Rightarrow> bool" where
  "same_events s s' \<longleftrightarrow> events s' = events s"

lemma same_events_rel [keeps_intros]: "reflp same_events" "transp same_events"
  by (auto simp: same_events_def reflp_def transp_def)

lemma keeps_case_option [keeps_intros]:
  "keeps R m \<Longrightarrow> (\<And>y. keeps R (n y)) \<Longrightarrow> keeps R (case x of None \<Rightarrow> m | Some y \<Rightarrow> n y)"
  by (cases x) auto

lemma keeps_case_prod [keeps_intros]: "(\<And>a b. keeps R (m a b)) \<Longrightarrow> keeps R (case p of (a, b) \<Rightarrow> m a b)"
  by (cases p) auto

lemma statement_events [keeps_intros]:
  "keeps same_events (get_clock env)" "keeps same_events (prepare_v2 api db q)" "keeps same_events (bind_text api db st i w v)"
  "keeps same_events (bind_int api db st i w n)" "keeps same_events (step_leases api st)" "keeps same_events (step_static api db st)"
  by (auto simp: keeps_def same_events_def get_clock_def prepare_v2_def bind_text_def bind_int_def step_leases_def step_static_def
      proc_defs Let_def split: prod.splits)

lemma base_get_static_ip_events [keeps_intros]: "keeps same_events (base_get_static_ip env mac)"
  unfolding base_get_static_ip_def Let_def by (intro keeps_intros)

lemma sql_events [keeps_intros]:
  "keeps same_events (sql_get_static_ip env api mac)" "keeps same_events (sql_get_leased_ip api mac)"
  "keeps same_events (sql_get_new_ip env api mac)" "keeps same_events (do_update_lease env api mac ip auth)"
  "keeps same_events (do_create_lease env api mac ip auth)"
  unfolding sql_get_static_ip_def sql_get_leased_ip_def sql_get_new_ip_def do_update_lease_def do_create_lease_def Let_def
  by (intro keeps_intros)+

lemma sql_record_events:
  "keeps same_events (sql_record_lease env api mac ip auth)" "keeps same_events (sql_record_static_lease env api mac ip auth)"
  unfolding sql_record_lease_def sql_record_static_lease_def by (intro keeps_intros)+

lemmas sql_events_all = sql_events sql_record_events

lemma sql_eventsD:
  "sql_get_static_ip env api mac s = (x, s') \<Longrightarrow> events s' = events s"
  "sql_get_leased_ip api mac s = (y, s') \<Longrightarrow> events s' = events s"
  "sql_get_new_ip env api mac s = (y, s') \<Longrightarrow> events s' = events s"
  "sql_record_lease env api mac ip auth s = (z, s') \<Longrightarrow> events s' = events s"
  "sql_record_static_lease env api mac ip auth s = (z, s') \<Longrightarrow> events s' = events s"
  using sql_events_all [THEN keepsD] by (auto simp: same_events_def)

lemma emit_events: "emit b ev s = (x, s') \<Longrightarrow> events s' = events s @ (if b then [ev] else [])"
  by (simp add: emit_frame)

text \<open>Where an address came from, and the calls on the packet filter that this makes.\<close>

datatype lease_source = From_static int | From_leased | From_new

fun source_ops :: "lease_source \<Rightarrow> u32 \<Rightarrow> pf_op list" where
  "source_ops (From_static inet_access) a = (if inet_access \<noteq> 0 then [Admit a] else [])"
| "source_ops From_leased a = []"
| "source_ops From_new a = [Expel a]"

definition found_in :: "alloc_env \<Rightarrow> ('d, 'st) sqlite_api \<Rightarrow> MACAddress \<Rightarrow> 'd alloc_state \<Rightarrow> IPAddress \<Rightarrow> lease_source \<Rightarrow> bool" where
  "found_in env api mac s ip src \<longleftrightarrow>
     (case src of
        From_static acc \<Rightarrow> \<exists>s1. sql_get_static_ip env api mac s = (Inr (Some (ip, acc)), s1)
      | From_leased \<Rightarrow> \<exists>s1 s2. sql_get_static_ip env api mac s = (Inr None, s1) \<and> sql_get_leased_ip api mac s1 = (Inr (Some ip), s2)
      | From_new \<Rightarrow> \<exists>s1 s2 s3. sql_get_static_ip env api mac s = (Inr None, s1) \<and> sql_get_leased_ip api mac s1 = (Inr None, s2)
          \<and> sql_get_new_ip env api mac s2 = (Inr (Some ip), s3))"

lemma ip_alloc_events:
  assumes "ip_alloc env (sql_vtable env api) mac s = (Inr (Some ip), s')" and "pf_enabled env"
  shows "\<exists>src evs. found_in env api mac s ip src \<and> events s' = events s @ evs \<and> pf_ops evs = source_ops src (ip_u_addr ip)"
proof -
  let ?vt = "sql_vtable env api"
  have vt: "vt_get_static_ip ?vt = sql_get_static_ip env api" "vt_get_leased_ip ?vt = sql_get_leased_ip api"
    "vt_get_new_ip ?vt = sql_get_new_ip env api" "vt_record_lease ?vt = sql_record_lease env api"
    "vt_record_static_lease ?vt = sql_record_static_lease env api" by (simp_all add: sql_vtable_def)
  obtain st s1 where s1: "sql_get_static_ip env api mac s = (Inr st, s1)"
    using assms(1) by (auto simp: ip_alloc_def vt elim!: bindP_elim)
  show ?thesis
  proof (cases st)
    case (Some p)
    then obtain i acc where st: "st = Some (i, acc)" by (cases p) auto
    with assms(1) s1 have "alloc_static env ?vt mac i acc s1 = (Inr (Some ip), s')" by (simp add: ip_alloc_def vt)
    then have "i = ip \<and> events s' = events s1 @ (if acc \<noteq> 0 \<and> pf_enabled env then [PF_add (ip_u_addr i)] else [])
        @ (if rad_enabled env then [Acct RAD_SESSION_DHCP_START (mac_s_addr mac) (ip_s_addr i)] else [])"
      by (auto simp: alloc_static_def vt elim!: bindP_elim dest!: emit_events sql_eventsD)
    then show ?thesis using s1 st sql_eventsD(1) [OF s1] assms(2)
      by (intro exI [of _ "From_static acc"]) (auto simp: found_in_def)
  next
    case None
    then obtain ls s2 where s2: "sql_get_leased_ip api mac s1 = (Inr ls, s2)"
      using assms(1) s1 by (auto simp: ip_alloc_def vt elim!: bindP_elim)
    show ?thesis
    proof (cases ls)
      case (Some i)
      with assms(1) s1 s2 None have "alloc_leased ?vt mac i s2 = (Inr (Some ip), s')" by (simp add: ip_alloc_def vt)
      then have "i = ip \<and> events s' = events s2"
        by (auto simp: alloc_leased_def update_lease_def vt elim!: bindP_elim dest!: sql_eventsD)
      then show ?thesis using s1 s2 None Some sql_eventsD(1) [OF s1] sql_eventsD(2) [OF s2]
        by (intro exI [of _ From_leased]) (auto simp: found_in_def)
    next
      case ls: None
      then obtain ns s3 where s3: "sql_get_new_ip env api mac s2 = (Inr ns, s3)"
        using assms(1) s1 s2 None by (auto simp: ip_alloc_def vt elim!: bindP_elim)
      with assms(1) s1 s2 None ls obtain i where i: "ns = Some i" by (cases ns) (auto simp: ip_alloc_def vt)
      with assms(1) s1 s2 s3 None ls have "alloc_new env ?vt mac i s3 = (Inr (Some ip), s')" by (simp add: ip_alloc_def vt)
      then have "i = ip \<and> events s' = events s3 @ (if pf_enabled env then [PF_del (ip_u_addr i)] else [])
          @ (if rad_enabled env then [Acct RAD_SESSION_DHCP_START (mac_s_addr mac) (ip_s_addr i)] else [])"
        by (auto simp: alloc_new_def vt elim!: bindP_elim dest!: emit_events sql_eventsD)
      then show ?thesis using s1 s2 s3 None ls i sql_eventsD(1) [OF s1] sql_eventsD(2) [OF s2] sql_eventsD(3) [OF s3] assms(2)
        by (intro exI [of _ From_new]) (auto simp: found_in_def)
    qed
  qed
qed

text \<open>C29 Admission follows the lease: when \<open>ip_alloc\<close> hands out an address, the packet filter's table
  is told so by at most one call; it then admits the address of a static host with internet access,
  no longer admits an address that is leased anew, and is unchanged for every other address, for
  renewed leases and for static hosts without internet access.\<close>

theorem admission_follows_lease:
  assumes "ip_alloc env (sql_vtable env api) mac s = (Inr (Some ip), s')" and "pf_enabled env"
    and "pf_kernel kapi tables" and "pf_default_table pt = Some t" and "CHR 0x00 \<notin> set t"
  shows "\<exists>src evs failed pt'. found_in env api mac s ip src \<and> events s' = events s @ evs
    \<and> run_ops (pf_step kapi) pt (pf_ops evs) = Inr (failed, pt') \<and> length failed \<le> 1
    \<and> (True \<notin> set failed \<longrightarrow>
        tables (pf_kernel_state pt') = (tables (pf_kernel_state pt))(t :=
          (case src of
             From_static acc \<Rightarrow> if acc \<noteq> 0 then insert (ip_u_addr ip) (tables (pf_kernel_state pt) t) else tables (pf_kernel_state pt) t
           | From_leased \<Rightarrow> tables (pf_kernel_state pt) t
           | From_new \<Rightarrow> tables (pf_kernel_state pt) t - {ip_u_addr ip})))"
proof -
  from ip_alloc_events [OF assms(1,2)] obtain src evs where
    src: "found_in env api mac s ip src" "events s' = events s @ evs" "pf_ops evs = source_ops src (ip_u_addr ip)" by blast
  from pf_step_effect [OF assms(3-5)] have
    step: "\<exists>f pt'. pf_step kapi pt op = Inr (f, pt') \<and> (\<not> f \<longrightarrow> tables (pf_kernel_state pt') =
      (tables (pf_kernel_state pt))(t := op_effect op (tables (pf_kernel_state pt) t)))" for op by metis
  have "\<exists>failed pt'. run_ops (pf_step kapi) pt (source_ops src (ip_u_addr ip)) = Inr (failed, pt') \<and> length failed \<le> 1
    \<and> (True \<notin> set failed \<longrightarrow> tables (pf_kernel_state pt') = (tables (pf_kernel_state pt))(t :=
          (case src of
             From_static acc \<Rightarrow> if acc \<noteq> 0 then insert (ip_u_addr ip) (tables (pf_kernel_state pt) t) else tables (pf_kernel_state pt) t
           | From_leased \<Rightarrow> tables (pf_kernel_state pt) t
           | From_new \<Rightarrow> tables (pf_kernel_state pt) t - {ip_u_addr ip})))"
  proof (cases src)
    case (From_static acc)
    then show ?thesis using step [of "Admit (ip_u_addr ip)"] by (auto simp: op_effect_def)
  next
    case From_leased
    then show ?thesis by simp
  next
    case From_new
    then show ?thesis using step [of "Expel (ip_u_addr ip)"] by (auto simp: op_effect_def)
  qed
  with src show ?thesis by metis
qed


text \<open>An expired address that its last client had been admitted with is leased to a new one.\<close>

theorem admission_follows_lease_witness:
  "\<exists>src evs failed pt'. found_in example_env mem_api (MACAddress_u 1) example_state (IPAddress_u 0x6500000A) src
    \<and> events (snd (ip_alloc example_env (sql_vtable example_env mem_api) (MACAddress_u 1) example_state)) = events example_state @ evs
    \<and> run_ops (pf_step mem_pf) example_pf (pf_ops evs) = Inr (failed, pt') \<and> length failed \<le> 1
    \<and> (True \<notin> set failed \<longrightarrow>
        pf_kernel_state pt' = (pf_kernel_state example_pf)(''admitted'' :=
          (case src of
             From_static acc \<Rightarrow> if acc \<noteq> 0 then insert 0x6500000A {0x6500000A, 0x6600000A} else {0x6500000A, 0x6600000A}
           | From_leased \<Rightarrow> {0x6500000A, 0x6600000A}
           | From_new \<Rightarrow> {0x6500000A, 0x6600000A} - {0x6500000A})))"
proof -
  have run: "ip_alloc example_env (sql_vtable example_env mem_api) (MACAddress_u 1) example_state
    = (Inr (Some (IPAddress_u 0x6500000A)), snd (ip_alloc example_env (sql_vtable example_env mem_api) (MACAddress_u 1) example_state))"
    by (simp add: prod_eq_iff example_alloc)
  have pf: "pf_enabled example_env" "pf_default_table example_pf = Some ''admitted''"
    "pf_kernel_state example_pf ''admitted'' = {0x6500000A, 0x6600000A}"
    by (simp_all add: example_env_def example_pf_def)
  have u: "ip_u_addr (IPAddress_u 0x6500000A) = 0x6500000A" by simp
  show ?thesis
    using admission_follows_lease [OF run pf(1) mem_pf_kernel pf(2)] unfolding pf(3) u by simp
qed

end
