(* ===== verification/Spec2Isabelle.thy ===== *)
theory Spec2Isabelle
  imports StartupProps RadiusProps Admission
begin

text \<open>
  A verification library for s3dhcpd, a DHCP server in C++ that keeps its leases in SQLite, admits
  hosts to a table of the packet filter and reports to a RADIUS accounting server. Every definition
  that models code is a translation of the source named in its theory; paths are relative to the
  repository under \<open>src/\<close>.

  \<^bold>\<open>How the program works.\<close> \<open>main\<close> (\<open>src/main.cxx\<close>) reads the command line, loads the
  configuration file into a hash table, goes to the background if asked to, reads the subnets from the
  configuration, opens the capture and sending sockets, RADIUS and the packet filter, lets the factory
  of the allocator open and fill the lease database, and enters \<open>DHCP_Net::main_loop\<close>. The loop
  receives a frame, parses the DHCP packet in it, asks the allocator for an address (\<open>ip_alloc\<close>,
  \<open>ip_check\<close>, \<open>ip_free\<close>, \<open>ip_invalidate\<close>), builds OFFER, ACK or NAK from the subnet of the address, and
  sends it as a datagram or as a broadcast frame. The allocator calls its virtual functions, which
  \<open>IPAllocatorSQL\<close> implements, and tells the packet filter and RADIUS what it decided.

  \<^bold>\<open>Conventions\<close> (theory \<open>Prelude\<close>). Machine integers are words, or \<open>int\<close> wrapped by \<open>s32\<close> where
  the source uses signed arithmetic; the target is little-endian. Buffers are lists of bytes that keep
  their length: reading or writing outside them is the error \<open>MemFault\<close>, reading memory that was
  never written is \<open>UninitRead\<close> where the value decides something and a parameter (\<open>junk\<close>) where it is
  only sent, and a loop that does not end within its fuel is \<open>Diverges\<close>. These three stand for
  undefined behaviour; the other constructors of \<open>exn\<close> are the exceptions of the source with their
  messages. Pure code returns \<open>exn + 'a\<close> (type \<open>res\<close>); code with a state is a function to a result and
  the state (type \<open>proc\<close>), so that the state at an exception is kept; code that may also exit or never return
  is an optional outcome (type \<open>prog\<close> in \<open>Clock\<close>). \<open>None\<close> there means that it does not return.

  \<^bold>\<open>Theories and sources.\<close>
  \<^item> \<open>IpTools\<close>, \<open>Subnets\<close>, \<open>SubnetsLoad\<close>: \<open>tools.h\<close>, \<open>subnets.h\<close>, \<open>subnets.cxx\<close>. Printing, parsing and
    arithmetic of addresses, the linked list of subnets as a list, \<open>Subnets::load\<close>.
  \<^item> \<open>DhcpConstants\<close>, \<open>DhcpPacket\<close>: \<open>dhcp_constants.h\<close>, \<open>dhcp_packet.h/.cxx\<close>. The packet is a record with
    the 32 option slots; \<open>marshall_loop\<close>, \<open>parse_request\<close>, \<open>unmarshall\<close> and the four replies.
    \<open>DhcpWire\<close> has the reference encoding \<open>wire\<close> and the two round trips, \<open>DhcpReplies\<close> the contents and
    the size of the replies.
  \<^item> \<open>IpAllocator\<close>: \<open>ipallocator.h/.cxx\<close>. The virtual functions are the record \<open>alloc_vtable\<close>; calls of the
    packet filter and of RADIUS are the list \<open>events\<close> of the state. The locale \<open>allocator_backend\<close>
    states what the base class relies on, \<open>recording_backend\<close> that leases are recorded.
    \<open>IpAllocatorSql\<close>, \<open>IpAllocatorInit\<close>: \<open>ipallocator_sql.h/.cxx\<close> over \<open>sqlite_api\<close>, the functions of the SQLite
    library that the code calls. What the queries mean is the locale \<open>lease_engine\<close>, extended by
    \<open>populating_engine\<close> for the queries of the start; \<open>lease_engine\<close> gives \<open>recording_backend\<close> as a
    \<open>sublocale\<close>. \<open>MemEngine\<close> has an executable engine of these queries and interprets both contracts.
    \<open>AllocatorProps\<close>: who gets which address, and the invariant \<open>keyed\<close> (one row per address).
  \<^item> \<open>Netinet\<close>, \<open>DhcpNet\<close>: \<open>dhcp_netinet.h\<close>, \<open>dhcp_net.h/.cxx\<close>. Headers and checksums, opening the
    sockets, \<open>recv_packet\<close> over a list of captured frames, \<open>dispatch\<close>, \<open>respond\<close>, \<open>serve\<close> and \<open>main_loop\<close>,
    which ends where the list does. \<open>NetFrames\<close>: the frames sent are read back. \<open>ServerProps\<close>: the
    loop as the step relation \<open>server_run\<close>, its invariant \<open>server_ok\<close>, and the answer to each kind of
    message.
  \<^item> \<open>PfTable\<close>: \<open>pf.h/.cxx\<close>, \<open>pftable.h\<close> and the parts of \<open>pfvar.h\<close> they use; the \<open>ioctl\<close> is a parameter.
    \<open>Admission\<close>: the events of the allocator run on the table.
  \<^item> \<open>Md5\<close>: \<open>md5.h\<close>, \<open>md5.c\<close>, equal to the digest of RFC 1321 as a function of the whole message.
    \<open>RadiusConstants\<close>, \<open>Radius\<close>, \<open>RadiusProps\<close>: \<open>radius_constants.h\<close>, \<open>radius_packet.h/.cxx\<close>,
    \<open>radius_net.h/.cxx\<close>.
  \<^item> \<open>HashTable\<close>: \<open>dsHashTable.h/.cxx\<close> with its probing and growth, and the locale \<open>key_store\<close>.
    \<open>Apprc\<close>, \<open>ApprcProps\<close>: \<open>dsApprc.h/.cxx\<close>, the configuration on top of it. \<open>Printf\<close>: the conversions of C's
    \<open>printf\<close> that the sources use. \<open>SlightFunctions\<close>: \<open>dsSlightFunctions.cxx\<close>.
  \<^item> \<open>Simulation\<close>: runs of operations and the locale \<open>refines\<close>. \<open>StrStream\<close>: \<open>dsStrstream.h/.cxx\<close> as a refinement of
    a text with a read position. \<open>Form\<close>: \<open>dsForm.h/.cxx\<close>. \<open>SmartException\<close>: \<open>dsSmartException.h/.cxx\<close>.
    \<open>Log\<close>: \<open>dsLog.h/.cxx\<close>.
  \<^item> \<open>Clock\<close>: \<open>clock_tools.h\<close> and the process as the operating system keeps it. \<open>Daemon\<close>, \<open>DaemonProps\<close>:
    \<open>daemon.h/.cxx\<close>. \<open>Getopt\<close>: \<open>dsGetopt.h/.cxx\<close>. \<open>CommandLine\<close>, \<open>Startup\<close>: \<open>main.cxx\<close>; the static members of all
    classes are the record \<open>s3dhcpd\<close>, and what the program meets outside is the record \<open>world\<close>.
    \<open>StartupProps\<close>: how \<open>main\<close> can end, and the state in which the loop begins, which is where the
    facts on the subnets, the lease table and the loop are put together. \<open>StartupExample\<close> has closed runs.

  \<^bold>\<open>What is shown.\<close>
  \<^item> Leases: no address with a running lease is given to another client; an address that is handed
    out has one row, which names the client; every message keeps one row per address; a declined address
    stays blocked for a lease time; the start adds exactly the missing addresses of the ranges.
  \<^item> Messages: every DISCOVER and REQUEST gets one reply of the right kind; the loop keeps its
    invariant from the state in which the start leaves it; packets, frames, RADIUS messages, addresses,
    configuration literals and the text codecs survive their round trips; replies fit their buffer.
  \<^item> Parts: the hash table refines a map, the string stream a text, the packet filter a set; \<open>vform\<close> is
    \<open>printf\<close> and succeeds exactly on arguments of the right types; log scopes are balanced.
  \<^item> Errors and ends: what the packet reader rejects, how an offer outside the subnets ends the server,
    how \<open>main\<close> and \<open>daemonize\<close> can end, when waiting for an old process ends, and when loading ends.

  \<^bold>\<open>Termination and fuel.\<close> Loops are structural recursions, functions with a measure, or
  \<^item> \<open>hi_seek_loop\<close>, with the size of the table as fuel: a probe sequence that has not ended by then
    never ends (\<open>hi_seek_cases\<close>), and none does so in a table of an allowed size (\<open>hi_seek_ends\<close>);
  \<^item> \<open>load_lines\<close>, with the include depth as fuel: the code refuses more than 10 levels, so 11 is
    enough (\<open>ends_load_lines\<close>). A line of more than 1022 characters makes the code loop for ever;
    it is \<open>Diverges\<close>, and the property on loading excludes it;
  \<^item> \<open>pf_populate\<close>, which fetches rows until the database has no more: \<open>pf_populate_enough\<close>;
  \<^item> \<open>safe_sleep_ns\<close> and \<open>kill_wait\<close>, partial functions, since a signal may always interrupt and a process may
    never end: \<open>safe_sleep_ns_ends\<close> and \<open>kill_wait_ends\<close> say when they do return.

  \<^bold>\<open>Outside code.\<close> SQLite, pcap, sockets, the packet filter's \<open>ioctl\<close>, the file system, the process
  calls and the clock are arguments. What is assumed of them is stated in the locales
  or as hypotheses of the properties, and shown to be satisfiable by the closed instances.

  \<^bold>\<open>Not modelled.\<close>
  \<^item> \<open>getdouble\<close> of the configuration and the digits of \<open>%f\<close>: floating point. The text of a floating point
    number is the parameter \<open>fe_fixed\<close>.
  \<^item> The variants that the build leaves out: the other \<open>seekoff\<close> and the stream classes of
    \<open>dsStrstream\<close>, and the macOS variants of \<open>get_clock\<close> and of the hardware address.
  \<^item> \<open>pf/xnu\<close>: headers of the XNU kernel; of them only the request codes and the two structures the
    program fills in. \<open>radix.h\<close> and \<open>tree.h\<close> are kernel data structures it does not use.
  \<^item> The printing of the crash handler beyond its walk over the stack, the freeing of memory (items are
    values), and the tests of the repository.
  \<^item> Log calls inside the parts: the log is modelled on its own, and \<open>main\<close> with its calls, but
    the operations of the other parts are not interleaved with their debug output.
\<close>

end
